(* ===== verification/Prelude.thy ===== *)
theory Prelude
  imports Main "HOL-Library.List_Lexorder" "HOL-Library.Char_ord" "HOL-Library.Multiset"
begin

text \<open>
  What the components share.  An operation of the program is a function from
  the state it works on to an outcome and the new state (\<open>op\<close>): it returns,
  it throws one of the exceptions of the code, or it has run into undefined
  behaviour of C++ (a dereferenced end iterator, a read past a buffer).
  The state that an operation had already changed when it throws stays changed,
  as in the code.  \<open>omap\<close> is \<open>std::map\<close>: an association list with strictly
  increasing keys, so that iteration visits the keys in the order of the code.
\<close>

named_theorems op_simps \<open>evaluation rules for operations\<close>
named_theorems omap_simps \<open>lookup after every map operation\<close>

section \<open>Exceptions\<close>

text \<open>
  The classes that the code throws and catches.  \<open>std::invalid_argument\<close> and
  \<open>std::out_of_range\<close> derive from \<open>std::logic_error\<close>; \<open>ExceptionInfo\<close> derives
  from \<open>common::Exception\<close>, which derives from \<open>std::exception\<close> only.
  \<open>Runtime_error\<close> stands for the exceptions of the libraries the code calls.
\<close>

datatype exn =
    Logic_error string
  | Invalid_argument string
  | Out_of_range string
  | Exception string
  | ExceptionInfo string
  | Runtime_error string

fun what :: "exn \<Rightarrow> string" where
  "what (Exception message) = message @ ''\<newline>''"
| "what (ExceptionInfo message) = message @ ''\<newline>''"
| "what (Logic_error message) = message"
| "what (Invalid_argument message) = message"
| "what (Out_of_range message) = message"
| "what (Runtime_error message) = message"

fun is_logic_error :: "exn \<Rightarrow> bool" where
  "is_logic_error (Logic_error _) = True"
| "is_logic_error (Invalid_argument _) = True"
| "is_logic_error (Out_of_range _) = True"
| "is_logic_error _ = False"

fun is_invalid_argument :: "exn \<Rightarrow> bool" where
  "is_invalid_argument (Invalid_argument _) = True"
| "is_invalid_argument _ = False"

fun is_exception_info :: "exn \<Rightarrow> bool" where
  "is_exception_info (ExceptionInfo _) = True"
| "is_exception_info _ = False"

definition any_exception :: "exn \<Rightarrow> bool" where
  "any_exception e = True"

section \<open>Operations\<close>

datatype 'a outcome = Return 'a | Throw exn | Undefined

type_synonym ('s, 'a) op = "'s \<Rightarrow> 'a outcome \<times> 's"

definition ret :: "'a \<Rightarrow> ('s, 'a) op" where
  "ret a = (\<lambda>s. (Return a, s))"

definition throw :: "exn \<Rightarrow> ('s, 'a) op" where
  "throw e = (\<lambda>s. (Throw e, s))"

definition undefined_behaviour :: "('s, 'a) op" where
  "undefined_behaviour = (\<lambda>s. (Undefined, s))"

definition reads :: "('s \<Rightarrow> 'a) \<Rightarrow> ('s, 'a) op" where
  "reads f = (\<lambda>s. (Return (f s), s))"

definition change :: "('s \<Rightarrow> 's) \<Rightarrow> ('s, unit) op" where
  "change f = (\<lambda>s. (Return (), f s))"

definition andthen :: "('s, 'a) op \<Rightarrow> ('a \<Rightarrow> ('s, 'b) op) \<Rightarrow> ('s, 'b) op" where
  "andthen m f = (\<lambda>s. case m s of
      (Return a, s') \<Rightarrow> f a s'
    | (Throw e, s') \<Rightarrow> (Throw e, s')
    | (Undefined, s') \<Rightarrow> (Undefined, s'))"

definition try_catch ::
  "('s, 'a) op \<Rightarrow> (exn \<Rightarrow> bool) \<Rightarrow> (exn \<Rightarrow> ('s, 'a) op) \<Rightarrow> ('s, 'a) op" where
  "try_catch m caught handler = (\<lambda>s. case m s of
      (Throw e, s') \<Rightarrow> (if caught e then handler e s' else (Throw e, s'))
    | r \<Rightarrow> r)"

lemma ret_apply [simp, op_simps]: "ret a s = (Return a, s)"
  by (simp add: ret_def)

lemma throw_apply [simp, op_simps]: "throw e s = (Throw e, s)"
  by (simp add: throw_def)

lemma undefined_behaviour_apply [simp, op_simps]: "undefined_behaviour s = (Undefined, s)"
  by (simp add: undefined_behaviour_def)

lemma reads_apply [simp, op_simps]: "reads f s = (Return (f s), s)"
  by (simp add: reads_def)

lemma change_apply [simp, op_simps]: "change f s = (Return (), f s)"
  by (simp add: change_def)

lemma andthen_apply [op_simps]:
  "m s = (Return a, s') \<Longrightarrow> andthen m f s = f a s'"
  "m s = (Throw e, s') \<Longrightarrow> andthen m f s = (Throw e, s')"
  "m s = (Undefined, s') \<Longrightarrow> andthen m f s = (Undefined, s')"
  by (simp_all add: andthen_def)

lemma try_catch_apply [op_simps]:
  "m s = (Return a, s') \<Longrightarrow> try_catch m c h s = (Return a, s')"
  "m s = (Undefined, s') \<Longrightarrow> try_catch m c h s = (Undefined, s')"
  "m s = (Throw e, s') \<Longrightarrow> try_catch m c h s = (if c e then h e s' else (Throw e, s'))"
  by (simp_all add: try_catch_def)

text \<open>A property of the state that every outcome of an operation keeps.\<close>

definition keeps :: "('s \<Rightarrow> bool) \<Rightarrow> ('s, 'a) op \<Rightarrow> bool" where
  "keeps I m \<longleftrightarrow> (\<forall>s. I s \<longrightarrow> I (snd (m s)))"

lemma keepsI: "(\<And>s. I s \<Longrightarrow> I (snd (m s))) \<Longrightarrow> keeps I m"
  by (simp add: keeps_def)

lemma keepsD: "keeps I m \<Longrightarrow> I s \<Longrightarrow> I (snd (m s))"
  by (simp add: keeps_def)

lemma keeps_pure [intro, simp]:
  "keeps I (ret a)" "keeps I (throw e)" "keeps I undefined_behaviour" "keeps I (reads f)"
  by (simp_all add: keeps_def)

lemma keeps_andthen [intro]:
  assumes "keeps I m" and "\<And>a. keeps I (f a)"
  shows "keeps I (andthen m f)"
proof (rule keepsI)
  fix s assume "I s"
  then have "I (snd (m s))" using assms(1) by (rule keepsD [rotated])
  then show "I (snd (andthen m f s))"
    using keepsD [OF assms(2)]
    by (cases "m s") (auto simp: andthen_def split: outcome.splits)
qed

lemma keeps_try_catch [intro]:
  assumes "keeps I m" and "\<And>e. keeps I (h e)"
  shows "keeps I (try_catch m c h)"
proof (rule keepsI)
  fix s assume "I s"
  then have "I (snd (m s))" using assms(1) by (rule keepsD [rotated])
  then show "I (snd (try_catch m c h s))"
    using keepsD [OF assms(2)]
    by (cases "m s") (auto simp: try_catch_def split: outcome.splits)
qed

lemma returns_andthen:
  "fst (andthen m f s) = Return x \<longleftrightarrow> (\<exists>a. fst (m s) = Return a \<and> fst (f a (snd (m s))) = Return x)"
  by (cases "m s"; cases "fst (m s)") (auto simp: andthen_def)

lemma returns_try_catch:
  "fst (try_catch m c h s) = Return x \<longleftrightarrow> fst (m s) = Return x \<or>
     (\<exists>e. fst (m s) = Throw e \<and> c e \<and> fst (h e (snd (m s))) = Return x)"
  by (cases "m s"; cases "fst (m s)") (auto simp: try_catch_def)

section \<open>Ordered maps\<close>

type_synonym ('k, 'v) omap = "('k \<times> 'v) list"

definition ordered :: "('k::linorder, 'v) omap \<Rightarrow> bool" where
  "ordered m \<longleftrightarrow> sorted_wrt (<) (map fst m)"

text \<open>\<open>find\<close>, \<open>emplace\<close> (an existing key is left alone), the assignment through an
  iterator, and \<open>erase\<close>.\<close>

definition om_find :: "'k \<Rightarrow> ('k, 'v) omap \<Rightarrow> 'v option" where
  "om_find k m = map_of m k"

fun om_emplace :: "'k::linorder \<Rightarrow> 'v \<Rightarrow> ('k, 'v) omap \<Rightarrow> ('k, 'v) omap" where
  "om_emplace k v [] = [(k, v)]"
| "om_emplace k v ((k', v') # m) =
     (if k < k' then (k, v) # (k', v') # m
      else if k = k' then (k', v') # m
      else (k', v') # om_emplace k v m)"

definition om_assign :: "'k \<Rightarrow> 'v \<Rightarrow> ('k, 'v) omap \<Rightarrow> ('k, 'v) omap" where
  "om_assign k v m = map (\<lambda>(k', v'). (k', if k' = k then v else v')) m"

definition om_erase :: "'k \<Rightarrow> ('k, 'v) omap \<Rightarrow> ('k, 'v) omap" where
  "om_erase k m = filter (\<lambda>(k', v'). k' \<noteq> k) m"

definition om_keys :: "('k, 'v) omap \<Rightarrow> 'k list" where
  "om_keys m = map fst m"

lemma ordered_Nil [simp]: "ordered []"
  by (simp add: ordered_def)

lemma ordered_distinct: "ordered m \<Longrightarrow> distinct (map fst m)"
  by (simp add: ordered_def strict_sorted_iff)

lemma om_find_iff: "ordered m \<Longrightarrow> om_find k m = Some v \<longleftrightarrow> (k, v) \<in> set m"
  by (simp add: om_find_def ordered_distinct)

lemma om_find_keys: "om_find k m \<noteq> None \<longleftrightarrow> k \<in> set (om_keys m)"
  by (auto simp: om_find_def om_keys_def map_of_eq_None_iff)

lemma om_find_Nil [simp, omap_simps]: "om_find k [] = None"
  by (simp add: om_find_def)

lemma om_find_assign [omap_simps]:
  "om_find k' (om_assign k v m) =
     (if k' = k \<and> om_find k m \<noteq> None then Some v else om_find k' m)"
  by (induction m) (auto simp: om_assign_def om_find_def)

lemma om_find_erase [omap_simps]:
  "om_find k' (om_erase k m) = (if k' = k then None else om_find k' m)"
  by (induction m) (auto simp: om_erase_def om_find_def)

lemma om_emplace_keys: "set (map fst (om_emplace k v m)) = insert k (set (map fst m))"
  by (induction k v m rule: om_emplace.induct) auto

lemma om_find_small: "ordered ((k', v') # m) \<Longrightarrow> k < k' \<Longrightarrow> om_find k ((k', v') # m) = None"
  by (force simp: om_find_def ordered_def map_of_eq_None_iff)

lemma om_find_emplace [omap_simps]:
  "ordered m \<Longrightarrow> om_find k' (om_emplace k v m) =
     (if k' = k then Some (case om_find k m of None \<Rightarrow> v | Some v' \<Rightarrow> v') else om_find k' m)"
proof (induction k v m rule: om_emplace.induct)
  case (1 k v)
  then show ?case by (simp add: om_find_def)
next
  case (2 k v k1 v1 m)
  show ?case
  proof (cases "k < k1")
    case True
    with 2 have "om_find k ((k1, v1) # m) = None" by (blast intro: om_find_small)
    with True show ?thesis by (auto simp: om_find_def)
  next
    case False
    with 2 show ?thesis by (auto simp: om_find_def ordered_def)
  qed
qed

lemma ordered_emplace [intro]: "ordered m \<Longrightarrow> ordered (om_emplace k v m)"
proof (induction k v m rule: om_emplace.induct)
  case (2 k v k' v' m)
  then show ?case
    using om_emplace_keys [of k v m] by (fastforce simp: ordered_def)
qed (simp add: ordered_def)

lemma om_keys_assign [simp]: "map fst (om_assign k v m) = map fst m"
  by (induction m) (auto simp: om_assign_def)

lemma ordered_assign [intro]: "ordered m \<Longrightarrow> ordered (om_assign k v m)"
  by (simp add: ordered_def)

lemma ordered_erase [intro]: "ordered m \<Longrightarrow> ordered (om_erase k m)"
  by (simp add: ordered_def om_erase_def sorted_wrt_map sorted_wrt_filter)

lemma om_erase_absent: "om_find k m = None \<Longrightarrow> om_erase k m = m"
  by (force simp: om_erase_def om_find_def map_of_eq_None_iff intro: filter_True)

lemma om_emplace_present: "ordered m \<Longrightarrow> om_find k m \<noteq> None \<Longrightarrow> om_emplace k v m = m"
proof (induction k v m rule: om_emplace.induct)
  case (2 k v k' v' m)
  then show ?case
    using om_find_small [of k' v' m k] by (auto simp: om_find_def ordered_def split: if_splits)
qed simp

text \<open>An ordered map is determined by its lookups.\<close>

lemma ordered_set_eq:
  assumes "ordered m" "ordered n" "set m = set n"
  shows "m = n"
proof -
  have keys: "map fst m = map fst n"
    using assms by (auto simp: ordered_def intro!: strict_sorted_equal)
  have "\<forall>i < length m. m ! i = n ! i"
  proof (intro allI impI)
    fix i assume i: "i < length m"
    then have len: "i < length n" using keys by (metis length_map)
    have "m ! i \<in> set n" using i assms(3) by (metis nth_mem)
    then have "map_of n (fst (m ! i)) = Some (snd (m ! i))"
      using ordered_distinct [OF assms(2)] by simp
    moreover have "map_of n (fst (n ! i)) = Some (snd (n ! i))"
      using len ordered_distinct [OF assms(2)] by simp
    moreover have "fst (m ! i) = fst (n ! i)"
      using keys i len by (metis nth_map)
    ultimately show "m ! i = n ! i" by (simp add: prod_eq_iff)
  qed
  moreover have "length m = length n" using keys by (metis length_map)
  ultimately show ?thesis by (simp add: list_eq_iff_nth_eq)
qed

lemma ordered_ext:
  assumes "ordered m" "ordered n" "\<And>k. om_find k m = om_find k n"
  shows "m = n"
proof (rule ordered_set_eq [OF assms(1,2)])
  have "(k, v) \<in> set m \<longleftrightarrow> (k, v) \<in> set n" for k v
    using om_find_iff [OF assms(1)] om_find_iff [OF assms(2)] assms(3) by metis
  then show "set m = set n" by auto
qed

lemma om_erase_emplace_fresh:
  assumes "ordered m" "om_find k m = None"
  shows "om_erase k (om_emplace k v m) = m"
  using assms by (intro ordered_ext) (auto simp: omap_simps)

end
