(* ===== verification/Float32.thy ===== *)
theory Float32
  imports Complex_Main Prelude
begin

text \<open>
  The numbers of the standard library that the program uses: \<open>float\<close> (IEEE 754
  binary32, round to nearest, ties to even), \<open>std::stof\<close>, \<open>std::stoi\<close>,
  \<open>std::to_string\<close> and the conversions between \<open>int\<close> and \<open>float\<close>.
  A finite float is \<open>Fin s m e\<close>, with value \<open>(-1)^s * m * 2^e\<close>; \<open>f32_wf\<close> says
  that it is canonical (24 bit significand, exponent at least -149, so the
  subnormals have exponent -149).  The text functions are those of the C locale.
\<close>

section \<open>Values\<close>

datatype float32 = NaN bool | Inf bool | Fin bool nat int

fun f32_wf :: "float32 \<Rightarrow> bool" where
  "f32_wf (Fin s m e) \<longleftrightarrow> m < 2 ^ 24 \<and> -149 \<le> e \<and> e \<le> 104 \<and> (2 ^ 23 \<le> m \<or> e = -149)"
| "f32_wf _ \<longleftrightarrow> True"

text \<open>The value of a finite float in units of \<open>2^-149\<close>, the least positive one.\<close>

fun f32_units :: "float32 \<Rightarrow> int" where
  "f32_units (Fin s m e) = (if s then - 1 else 1) * int m * 2 ^ nat (e + 149)"
| "f32_units _ = 0"

fun f32_less :: "float32 \<Rightarrow> float32 \<Rightarrow> bool" where
  "f32_less (NaN _) _ = False"
| "f32_less _ (NaN _) = False"
| "f32_less (Inf s) (Inf t) = (s \<and> \<not> t)"
| "f32_less (Inf s) (Fin _ _ _) = s"
| "f32_less (Fin _ _ _) (Inf t) = (\<not> t)"
| "f32_less (Fin s m e) (Fin t n f) = (f32_units (Fin s m e) < f32_units (Fin t n f))"

section \<open>Rounding a positive fraction\<close>

fun bit_len :: "nat \<Rightarrow> nat" where
  "bit_len n = (if n = 0 then 0 else Suc (bit_len (n div 2)))"

declare bit_len.simps [simp del]

text \<open>The fraction \<open>n / d\<close> divided by \<open>2^e\<close>, and \<open>n / d\<close> rounded half to even.\<close>

definition scale :: "nat \<Rightarrow> nat \<Rightarrow> int \<Rightarrow> nat \<times> nat" where
  "scale n d e = (if 0 \<le> e then (n, d * 2 ^ nat e) else (n * 2 ^ nat (- e), d))"

definition round_div :: "nat \<times> nat \<Rightarrow> nat" where
  "round_div = (\<lambda>(n, d). let q = n div d; r = n mod d in
      if d < 2 * r \<or> (2 * r = d \<and> odd q) then q + 1 else q)"

text \<open>The exponent at which \<open>n / d\<close> has a significand of 24 bits.\<close>

definition exponent_of :: "nat \<Rightarrow> nat \<Rightarrow> int" where
  "exponent_of n d =
     (let e = int (bit_len n) - int (bit_len d) - 24; (n', d') = scale n d e
      in if 2 ^ 24 \<le> n' div d' then e + 1 else e)"

definition carry :: "nat \<times> int \<Rightarrow> nat \<times> int" where
  "carry = (\<lambda>(m, e). if m = 2 ^ 24 then (2 ^ 23, e + 1) else (m, e))"

definition to_f32 :: "bool \<Rightarrow> nat \<Rightarrow> nat \<Rightarrow> float32" where
  "to_f32 s n d =
     (if n = 0 then Fin s 0 (- 149)
      else let e = max (- 149) (exponent_of n d);
               (m, e') = carry (round_div (scale n d e), e)
           in if 104 < e' then Inf s else Fin s m e')"

text \<open>\<open>ERANGE\<close>: the result overflows, or it is inexact and below the normal range.\<close>

definition f32_erange :: "nat \<Rightarrow> nat \<Rightarrow> bool" where
  "f32_erange n d =
     (n \<noteq> 0 \<and>
      ((case to_f32 False n d of Inf _ \<Rightarrow> True | _ \<Rightarrow> False) \<or>
       (let e = exponent_of n d; (n', d') = scale n d (- 149)
        in snd (carry (round_div (scale n d e), e)) < - 149 \<and> n' mod d' \<noteq> 0)))"

definition f32_of_int :: "int \<Rightarrow> float32" where
  "f32_of_int i = to_f32 (i < 0) (nat \<bar>i\<bar>) 1"

text \<open>The conversion of a finite float to \<open>int\<close> drops the fraction.\<close>

definition f32_truncate :: "float32 \<Rightarrow> int" where
  "f32_truncate x = (let u = f32_units x in sgn u * (\<bar>u\<bar> div 2 ^ 149))"

section \<open>Text to number\<close>

definition is_space :: "char \<Rightarrow> bool" where
  "is_space c \<longleftrightarrow> c \<in> set [CHR 32, CHR 9, CHR 10, CHR 11, CHR 12, CHR 13]"

definition is_digit :: "char \<Rightarrow> bool" where
  "is_digit c \<longleftrightarrow> 48 \<le> (of_char c :: nat) \<and> (of_char c :: nat) \<le> 57"

definition to_lower :: "char \<Rightarrow> char" where
  "to_lower c = (if 65 \<le> (of_char c :: nat) \<and> (of_char c :: nat) \<le> 90
                 then (case c of Char b0 b1 b2 b3 b4 b5 b6 b7 \<Rightarrow> Char b0 b1 b2 b3 b4 True b6 b7)
                 else c)"

text \<open>The value of a character as a digit of a base up to 16.\<close>

definition hex_value :: "char \<Rightarrow> nat option" where
  "hex_value c = (let n = of_char (to_lower c) :: nat in
     if 48 \<le> n \<and> n \<le> 57 then Some (n - 48)
     else if 97 \<le> n \<and> n \<le> 102 then Some (n - 87) else None)"

definition is_hex :: "char \<Rightarrow> bool" where
  "is_hex c \<longleftrightarrow> hex_value c \<noteq> None"

definition number :: "nat \<Rightarrow> string \<Rightarrow> nat" where
  "number base ds = foldl (\<lambda>n c. base * n + the (hex_value c)) 0 ds"

definition starts_with :: "string \<Rightarrow> string \<Rightarrow> bool" where
  "starts_with p s \<longleftrightarrow> take (length p) s = p"

definition starts_with_ci :: "string \<Rightarrow> string \<Rightarrow> bool" where
  "starts_with_ci p s \<longleftrightarrow> map to_lower (take (length p) s) = p"

fun sign_of :: "string \<Rightarrow> bool \<times> string" where
  "sign_of (c # s) = (if c = CHR ''-'' then (True, s) else if c = CHR ''+'' then (False, s)
                      else (False, c # s))"
| "sign_of [] = (False, [])"

text \<open>The exponent part \<open>e<digits>\<close> (or \<open>p<digits>\<close>); absent or incomplete it counts as 0.\<close>

definition exponent_part :: "char \<Rightarrow> string \<Rightarrow> int" where
  "exponent_part e s = (case s of [] \<Rightarrow> 0 | c # r \<Rightarrow>
     if to_lower c \<noteq> e then 0
     else let (neg, r') = sign_of r; n = int (number 10 (takeWhile is_digit r'))
          in if neg then - n else n)"

text \<open>Digits, an optional point and digits: the digits, how many follow the point, the rest.\<close>

definition mantissa :: "(char \<Rightarrow> bool) \<Rightarrow> string \<Rightarrow> string \<times> nat \<times> string" where
  "mantissa dig s =
     (let ip = takeWhile dig s; r = dropWhile dig s
      in case r of
           [] \<Rightarrow> (ip, 0, [])
         | c # r' \<Rightarrow>
             if c = CHR ''.'' then (ip @ takeWhile dig r', length (takeWhile dig r'), dropWhile dig r')
             else (ip, 0, r))"

text \<open>A number \<open>n * b^x\<close> as a fraction.\<close>

definition fraction :: "nat \<Rightarrow> nat \<Rightarrow> int \<Rightarrow> nat \<times> nat" where
  "fraction n b x = (if 0 \<le> x then (n * b ^ nat x, 1) else (n, b ^ nat (- x)))"

datatype strtof_result = No_conversion | Converted float32 bool

definition converted :: "bool \<Rightarrow> nat \<times> nat \<Rightarrow> strtof_result" where
  "converted neg = (\<lambda>(n, d). Converted (to_f32 neg n d) (f32_erange n d))"

definition strtof :: "string \<Rightarrow> strtof_result" where
  "strtof str =
     (let (neg, s) = sign_of (dropWhile is_space str) in
      if starts_with_ci ''inf'' s then Converted (Inf neg) False
      else if starts_with_ci ''nan'' s then Converted (NaN neg) False
      else
        let (hx, hf, hr) = mantissa is_hex (drop 2 s) in
        if starts_with_ci ''0x'' s \<and> hx \<noteq> [] then
          converted neg (fraction (number 16 hx) 2 (exponent_part (CHR ''p'') hr - 4 * int hf))
        else
          let (dd, df, dr) = mantissa is_digit s in
          if dd = [] then No_conversion
          else converted neg (fraction (number 10 dd) 10 (exponent_part (CHR ''e'') dr - int df)))"

definition stof :: "string \<Rightarrow> exn + float32" where
  "stof str = (case strtof str of
      No_conversion \<Rightarrow> Inl (Invalid_argument ''stof'')
    | Converted x erange \<Rightarrow> if erange then Inl (Out_of_range ''stof'') else Inr x)"

definition stoi :: "string \<Rightarrow> exn + int" where
  "stoi str =
     (let (neg, s) = sign_of (dropWhile is_space str); ds = takeWhile is_digit s;
          n = (if neg then - int (number 10 ds) else int (number 10 ds))
      in if ds = [] then Inl (Invalid_argument ''stoi'')
         else if n < - (2 ^ 31) \<or> 2 ^ 31 \<le> n then Inl (Out_of_range ''stoi'') else Inr n)"

definition or_throw :: "exn + 'a \<Rightarrow> ('s, 'a) op" where
  "or_throw r = (case r of Inl e \<Rightarrow> throw e | Inr a \<Rightarrow> ret a)"

lemma or_throw_apply [simp]:
  "or_throw (Inl e) = throw e" "or_throw (Inr a) = ret a"
  by (simp_all add: or_throw_def)

section \<open>Number to text\<close>

definition digit_char :: "nat \<Rightarrow> char" where
  "digit_char d = ''0123456789'' ! d"

fun show_nat :: "nat \<Rightarrow> string" where
  "show_nat n = (if n < 10 then [digit_char n] else show_nat (n div 10) @ [digit_char (n mod 10)])"

declare show_nat.simps [simp del]

definition show_int :: "int \<Rightarrow> string" where
  "show_int i = (if i < 0 then ''-'' else []) @ show_nat (nat \<bar>i\<bar>)"

definition zero_pad :: "nat \<Rightarrow> string \<Rightarrow> string" where
  "zero_pad w s = replicate (w - length s) (CHR ''0'') @ s"

definition show_sign :: "bool \<Rightarrow> string" where
  "show_sign s = (if s then ''-'' else [])"

text \<open>\<open>printf ("%f")\<close>: six digits after the point, of the exact value, rounded half to even.\<close>

fun to_string_f32 :: "float32 \<Rightarrow> string" where
  "to_string_f32 (NaN s) = show_sign s @ ''nan''"
| "to_string_f32 (Inf s) = show_sign s @ ''inf''"
| "to_string_f32 (Fin s m e) =
     (let k = round_div (scale (m * 10 ^ 6) 1 (- e))
      in show_sign s @ show_nat (k div 10 ^ 6) @ ''.'' @ zero_pad 6 (show_nat (k mod 10 ^ 6)))"

text \<open>
  \<open>std::ostream << float\<close>, which is \<open>printf ("%g")\<close>: six significant digits without
  trailing zeros, in scientific notation when the decimal exponent is below -4 or above 5.
\<close>

definition dec_exponent :: "nat \<Rightarrow> nat \<Rightarrow> int" where
  "dec_exponent n d =
     (let x = int (length (show_nat n)) - int (length (show_nat d));
          (p, q) = fraction 1 10 x
      in if d * p \<le> n * q then x else x - 1)"

definition strip_zeros :: "string \<Rightarrow> string" where
  "strip_zeros s = rev (dropWhile (\<lambda>c. c = CHR ''0'') (rev s))"

definition point_then :: "string \<Rightarrow> string" where
  "point_then s = (if s = [] then [] else CHR ''.'' # s)"

fun show_g :: "float32 \<Rightarrow> string" where
  "show_g (NaN s) = show_sign s @ ''nan''"
| "show_g (Inf s) = show_sign s @ ''inf''"
| "show_g (Fin s m e) =
     (if m = 0 then show_sign s @ ''0''
      else
        let (n, d) = scale m 1 (- e); x = dec_exponent n d;
            (p, q) = fraction 1 10 (5 - x);
            k = round_div (n * p, d * q);
            (k', x') = (if k = 10 ^ 6 then (10 ^ 5, x + 1) else (k, x));
            ds = show_nat k'
        in show_sign s @
           (if x' < - 4 \<or> 6 \<le> x'
            then take 1 ds @ point_then (strip_zeros (drop 1 ds)) @ ''e'' @
                 (if x' < 0 then ''-'' else ''+'') @ zero_pad 2 (show_nat (nat \<bar>x'\<bar>))
            else if x' < 0
            then ''0.'' @ replicate (nat (- x' - 1)) (CHR ''0'') @ strip_zeros ds
            else take (nat x' + 1) ds @ point_then (strip_zeros (drop (nat x' + 1) ds))))"

section \<open>Evaluation on concrete numbers\<close>

text \<open>
  Equations that only apply to numerals, so that the simplifier computes with
  them and never unfolds a recursion under a binder.
\<close>

named_theorems f32_eval \<open>evaluation of the number functions on closed terms\<close>

lemma bit_len_eval [simp]:
  "bit_len 0 = 0" "bit_len (Suc 0) = 1" "bit_len 1 = 1"
  "bit_len (numeral (num.Bit0 k)) = Suc (bit_len (numeral k))"
  "bit_len (numeral (num.Bit1 k)) = Suc (bit_len (numeral k))"
proof -
  show z: "bit_len 0 = 0" by (subst bit_len.simps) simp
  show o1: "bit_len 1 = 1" by (subst bit_len.simps) (simp add: z)
  then show "bit_len (Suc 0) = 1" by simp
  have "numeral (num.Bit0 k) div 2 = (numeral k :: nat)"
    "numeral (num.Bit1 k) div 2 = (numeral k :: nat)" by simp_all
  then show "bit_len (numeral (num.Bit0 k)) = Suc (bit_len (numeral k))"
    "bit_len (numeral (num.Bit1 k)) = Suc (bit_len (numeral k))"
    by (subst bit_len.simps, simp)+
qed

lemma show_nat_eval [f32_eval]:
  "show_nat 0 = ''0''" "show_nat 1 = ''1''" "show_nat (Suc 0) = ''1''"
  "show_nat (numeral k) =
     (if numeral k < (10::nat) then [digit_char (numeral k)]
      else show_nat (numeral k div 10) @ [digit_char (numeral k mod 10)])"
proof -
  show "show_nat 0 = ''0''" by (subst show_nat.simps) (simp add: digit_char_def)
  show "show_nat 1 = ''1''" by (subst show_nat.simps) (simp add: digit_char_def)
  then show "show_nat (Suc 0) = ''1''" by simp
qed (subst show_nat.simps, simp)

lemmas f32_defs [f32_eval] =
  stof_def strtof_def converted_def fraction_def to_f32_def f32_erange_def exponent_of_def
  scale_def carry_def round_div_def mantissa_def exponent_part_def number_def
  starts_with_ci_def is_space_def is_digit_def is_hex_def hex_value_def to_lower_def
  f32_of_int_def digit_char_def zero_pad_def show_sign_def stoi_def show_int_def
  f32_truncate_def dec_exponent_def strip_zeros_def point_then_def Let_def

section \<open>Rounding is exact on the numbers the sensors exchange\<close>


lemma bit_len_bounds: "0 < n \<Longrightarrow> 2 ^ (bit_len n - 1) \<le> n \<and> n < 2 ^ bit_len n \<and> 0 < bit_len n"
proof (induction n rule: bit_len.induct)
  case (1 n)
  show ?case
  proof (cases "n = 1")
    case True
    then show ?thesis by simp
  next
    case False
    with 1 have h: "0 < n div 2" and IH: "2 ^ (bit_len (n div 2) - 1) \<le> n div 2"
      "n div 2 < 2 ^ bit_len (n div 2)" "0 < bit_len (n div 2)" by auto
    have l: "bit_len n = Suc (bit_len (n div 2))" using 1(2) by (subst bit_len.simps) simp
    obtain k where k: "bit_len (n div 2) = Suc k" using IH(3) by (cases "bit_len (n div 2)") auto
    from IH k have "2 ^ k \<le> n div 2" "n div 2 < 2 * 2 ^ k" by auto
    then show ?thesis using l k by simp arith
  qed
qed

definition ratio :: "nat \<times> nat \<Rightarrow> real" where
  "ratio = (\<lambda>(n, d). real n / real d)"

lemma scale_pos: "0 < d \<Longrightarrow> 0 < snd (scale n d e)"
  by (simp add: scale_def)

lemma ratio_scale: "ratio (scale n d e) = ratio (n, d) / 2 powi e"
  by (auto simp: ratio_def scale_def power_int_def field_simps)

lemma div_ge_iff: "0 < d \<Longrightarrow> k \<le> n div d \<longleftrightarrow> real k \<le> real n / real d"
  by (metis div_less_iff_less_mult le_divide_eq linorder_not_le of_nat_0_less_iff of_nat_le_iff of_nat_mult)

lemma exponent_of_spec:
  assumes "0 < n" "0 < d"
  shows "2 ^ 23 \<le> ratio (n, d) / 2 powi exponent_of n d \<and> ratio (n, d) / 2 powi exponent_of n d < 2 ^ 24"
proof -
  define a b where "a = bit_len n - 1" and "b = bit_len d - 1"
  define e where "e = int (bit_len n) - int (bit_len d) - 24"
  define x where "x = ratio (n, d) / 2 powi e"
  have n: "2 ^ a \<le> n" "n < 2 * 2 ^ a" and d: "2 ^ b \<le> d" "d < 2 * 2 ^ b"
    and e: "e = int a - int b - 24"
    using bit_len_bounds [OF assms(1)] bit_len_bounds [OF assms(2)]
    by (auto simp: a_def b_def e_def power_Suc [symmetric] of_nat_diff simp del: power_Suc)
  have n': "2 ^ a \<le> real n" "real n < 2 * 2 ^ a" and d': "2 ^ b \<le> real d" "real d < 2 * 2 ^ b"
    using n d by (metis (mono_tags) of_nat_le_iff of_nat_less_iff of_nat_mult of_nat_numeral of_nat_power)+
  have p: "2 powi e = 2 ^ a / (2 ^ b * 2 ^ 24 :: real)"
    by (simp add: e power_int_diff)
  have x: "x = real n * 2 ^ b * 2 ^ 24 / (real d * 2 ^ a)"
    by (simp add: x_def p ratio_def)
  have lo: "2 ^ 23 \<le> x"
  proof -
    have "real d * 2 ^ a \<le> (2 * 2 ^ b) * real n" using n' d' by (intro mult_mono) auto
    then show ?thesis using d' assms by (simp add: x pos_le_divide_eq algebra_simps)
  qed
  have hi: "x < 2 ^ 25"
  proof -
    have "real n * 2 ^ b < (2 * 2 ^ a) * real d" using n' d' by (intro mult_less_le_imp_less) auto
    then show ?thesis using d' assms by (simp add: x pos_divide_less_eq algebra_simps)
  qed
  have step: "2 ^ 24 \<le> fst (scale n d e) div snd (scale n d e) \<longleftrightarrow> 2 ^ 24 \<le> x"
    using div_ge_iff [OF scale_pos [OF assms(2), of n e], of "2 ^ 24" "fst (scale n d e)"]
      ratio_scale [of n d e] by (simp add: x_def ratio_def split_beta)
  have ex: "exponent_of n d = (if 2 ^ 24 \<le> x then e + 1 else e)"
    using step by (simp add: exponent_of_def Let_def split_beta e_def)
  show ?thesis
    using lo hi ex by (auto simp: x_def power_int_add)
qed

lemma powi_window_unique:
  assumes "2 ^ 23 \<le> x / 2 powi e" "x / 2 powi e < (2::real) ^ 24"
    and "2 ^ 23 \<le> x / 2 powi f" "x / 2 powi f < (2::real) ^ 24"
  shows "e = f"
proof -
  have no: "\<not> e < f" if "2 ^ 23 \<le> x / 2 powi f" "x / 2 powi e < (2::real) ^ 24" for e f
  proof
    assume "e < f"
    then have "(2::real) powi (e + 1) \<le> 2 powi f" by (intro power_int_increasing) auto
    then have le: "2 * 2 powi e \<le> (2::real) powi f" by (simp add: power_int_add)
    have "2 ^ 23 * 2 powi f \<le> x" "x < 2 ^ 24 * 2 powi e"
      using that by (simp_all add: pos_le_divide_eq pos_divide_less_eq)
    with le show False by simp
  qed
  show ?thesis using no [of f e] no [of e f] assms by auto
qed

lemma exponent_of_unique:
  assumes "0 < n" "0 < d" "2 ^ 23 \<le> ratio (n, d) / 2 powi e" "ratio (n, d) / 2 powi e < 2 ^ 24"
  shows "exponent_of n d = e"
  using powi_window_unique exponent_of_spec [OF assms(1,2)] assms(3,4) by blast

lemma round_div_mult: "0 < k \<Longrightarrow> round_div (n * k, d * k) = round_div (n, d)"
  by (simp add: round_div_def Let_def mult_mod_left [symmetric] mult.assoc [symmetric])

lemma round_div_cong:
  assumes "0 < d" "0 < d'" "n * d' = n' * d"
  shows "round_div (n, d) = round_div (n', d')"
  using round_div_mult [OF assms(2), of n d] round_div_mult [OF assms(1), of n' d'] assms(3)
  by (simp add: mult.commute)

lemma round_div_exact [simp]: "0 < d \<Longrightarrow> round_div (n * d, d) = n"
  by (simp add: round_div_def)

lemma round_div_scale_cong:
  assumes "0 < d" "0 < d'" "n * d' = n' * d"
  shows "round_div (scale n d e) = round_div (scale n' d' e)"
  using assms by (auto simp: scale_def algebra_simps intro!: round_div_cong)

lemma exponent_of_cong:
  assumes "0 < n" "0 < d" "0 < d'" "n * d' = n' * d"
  shows "exponent_of n d = exponent_of n' d'"
proof -
  have "n * d' \<noteq> 0" using assms(1,3) by simp
  then have "n' * d \<noteq> 0" using assms(4) by simp
  then have "0 < n'" by simp
  moreover have "ratio (n, d) = ratio (n', d')"
    using assms by (simp add: ratio_def frac_eq_eq) (metis of_nat_mult)
  ultimately show ?thesis
    using exponent_of_spec [of n' d'] assms by (intro exponent_of_unique) auto
qed

lemma to_f32_cong:
  assumes "0 < d" "0 < d'" "n * d' = n' * d"
  shows "to_f32 s n d = to_f32 s n' d'"
proof (cases "n = 0")
  case True
  then show ?thesis using assms by (simp add: to_f32_def)
next
  case False
  moreover from this have "n' \<noteq> 0" using assms by (metis mult_0 mult_is_0 not_gr_zero)
  ultimately show ?thesis
    using exponent_of_cong [of n d d' n'] round_div_scale_cong [OF assms] assms
    by (simp add: to_f32_def)
qed

lemma exponent_of_nat:
  assumes "0 < n"
  shows "exponent_of n 1 = int (bit_len n) - 24"
proof -
  obtain k where k: "bit_len n = Suc k" "2 ^ k \<le> n" "n < 2 * 2 ^ k"
    using bit_len_bounds [OF assms] by (cases "bit_len n") auto
  have r: "2 ^ k \<le> real n" "real n < 2 * 2 ^ k"
    using k by (metis (mono_tags) of_nat_le_iff of_nat_less_iff of_nat_mult of_nat_numeral of_nat_power)+
  have p: "2 powi (int (bit_len n) - 24) = (2 ^ k / 2 ^ 23 :: real)"
    by (simp add: k(1) power_int_diff)
  show ?thesis
    using r by (intro exponent_of_unique assms) (simp_all add: p ratio_def field_simps)
qed

lemma bit_len_le: "0 < n \<Longrightarrow> n < 2 ^ k \<Longrightarrow> bit_len n \<le> k"
proof (rule ccontr)
  assume n: "0 < n" "n < 2 ^ k" and "\<not> bit_len n \<le> k"
  then have "(2::nat) ^ k \<le> 2 ^ (bit_len n - 1)" by (intro power_increasing) auto
  with bit_len_bounds [OF n(1)] n(2) show False by linarith
qed

text \<open>A natural number below \<open>2^24\<close> is represented exactly.\<close>

lemma to_f32_nat:
  assumes "0 < n" "n < 2 ^ 24"
  shows "to_f32 s n 1 = Fin s (n * 2 ^ (24 - bit_len n)) (int (bit_len n) - 24)"
proof -
  have L: "bit_len n \<le> 24" using assms by (rule bit_len_le)
  have e: "max (- 149) (exponent_of n 1) = int (bit_len n) - 24"
    using exponent_of_nat [OF assms(1)] by simp
  have sc: "scale n 1 (int (bit_len n) - 24) = (n * 2 ^ (24 - bit_len n), 1)"
    using L by (cases "bit_len n = 24") (auto simp: scale_def nat_diff_distrib)
  have "n * 2 ^ (24 - bit_len n) < 2 ^ bit_len n * 2 ^ (24 - bit_len n)"
    using bit_len_bounds [OF assms(1)] by (intro mult_less_mono1) auto
  also have "\<dots> = 2 ^ 24" using L by (simp add: power_add [symmetric])
  finally have lt: "n * 2 ^ (24 - bit_len n) < 2 ^ 24" .
  have rd: "round_div (n * 2 ^ (24 - bit_len n), 1) = n * 2 ^ (24 - bit_len n)"
    by (simp add: round_div_def)
  have "carry (n * 2 ^ (24 - bit_len n), int (bit_len n) - 24)
      = (n * 2 ^ (24 - bit_len n), int (bit_len n) - 24)"
    using lt by (simp only: carry_def split: if_splits) auto
  then show ?thesis
    using assms(1) L by (simp only: to_f32_def e sc rd Let_def split) simp
qed

lemma f32_units_nat: "n < 2 ^ 24 \<Longrightarrow> f32_units (to_f32 False n 1) = int n * 2 ^ 149"
proof (cases "n = 0")
  case False
  assume n: "n < 2 ^ 24"
  with False have "bit_len n \<le> 24" by (intro bit_len_le) auto
  then have "nat (int (bit_len n) - 24 + 149) = 125 + bit_len n"
    and "(2::int) ^ (24 - bit_len n) * 2 ^ (125 + bit_len n) = 2 ^ 149"
    by (auto simp: power_add [symmetric])
  then show ?thesis
    using False n by (simp add: to_f32_nat mult.assoc del: One_nat_def)
qed (simp add: to_f32_def)

lemma replicate_eval [f32_eval]:
  "replicate (numeral k) x = x # replicate (pred_numeral k) x" "replicate 1 x = [x]"
  by (simp_all add: numeral_eq_Suc)

lemma to_string_nat:
  assumes "n < 2 ^ 24"
  shows "to_string_f32 (to_f32 False n 1) = show_nat n @ ''.000000''"
proof (cases "n = 0")
  case True
  then show ?thesis by (simp add: f32_eval replicate_eval)
next
  case False
  with assms have L: "bit_len n \<le> 24" by (intro bit_len_le) auto
  have "scale (n * 2 ^ (24 - bit_len n) * 10 ^ 6) 1 (- (int (bit_len n) - 24))
      = (n * 10 ^ 6 * 2 ^ (24 - bit_len n), 2 ^ (24 - bit_len n))"
    using L by (auto simp: scale_def nat_diff_distrib)
  then have "round_div (scale (n * 2 ^ (24 - bit_len n) * 10 ^ 6) 1 (- (int (bit_len n) - 24)))
      = n * 10 ^ 6"
    by (metis round_div_exact zero_less_numeral zero_less_power)
  then show ?thesis
    using False assms
    by (simp add: to_f32_nat show_sign_def zero_pad_def show_nat_eval replicate_eval del: One_nat_def)
qed

lemma is_digit_digit_char: "d < 10 \<Longrightarrow> is_digit (digit_char d) \<and> hex_value (digit_char d) = Some d"
proof -
  assume "d < 10"
  then have "d = 0 \<or> d = 1 \<or> d = 2 \<or> d = 3 \<or> d = 4 \<or> d = 5 \<or> d = 6 \<or> d = 7 \<or> d = 8 \<or> d = 9"
    by arith
  then show ?thesis
    by (elim disjE; hypsubst; simp add: is_digit_def digit_char_def hex_value_def to_lower_def)
qed

lemma number_append: "number b (ds @ es) = number b ds * b ^ length es + number b es"
proof -
  let ?f = "\<lambda>n c. b * n + the (hex_value c)"
  have "foldl ?f m es = m * b ^ length es + foldl ?f 0 es" for m
  proof (induction es arbitrary: m)
    case (Cons c es)
    have "foldl ?f m (c # es) = (b * m + the (hex_value c)) * b ^ length es + foldl ?f 0 es"
      using Cons [of "b * m + the (hex_value c)"] by simp
    moreover have "foldl ?f 0 (c # es) = the (hex_value c) * b ^ length es + foldl ?f 0 es"
      using Cons [of "the (hex_value c)"] by simp
    ultimately show ?case by (simp add: algebra_simps del: foldl_Cons)
  qed simp
  from this [of "foldl ?f 0 ds"] show ?thesis by (simp add: number_def)
qed

lemma number_show_nat:
  "number 10 (show_nat n) = n \<and> list_all is_digit (show_nat n) \<and> show_nat n \<noteq> []"
proof (induction n rule: show_nat.induct)
  case (1 n)
  show ?case
  proof (cases "n < 10")
    case True
    then show ?thesis
      using is_digit_digit_char [OF True] by (subst (1 2 3) show_nat.simps) (simp add: number_def)
  next
    case False
    have "number 10 [digit_char (n mod 10)] = n mod 10"
      using is_digit_digit_char [of "n mod 10"] by (simp add: number_def)
    then show ?thesis
      using 1 [OF False] False is_digit_digit_char [of "n mod 10"]
      by (subst (1 2 3) show_nat.simps) (simp add: number_append)
  qed
qed

lemma number_zeros: "number 10 (replicate k (CHR ''0'')) = 0"
proof -
  have "hex_value (CHR ''0'') = Some 0" by (simp add: f32_eval)
  then show ?thesis by (induction k) (simp_all add: number_def)
qed

lemma digit_facts:
  assumes "is_digit c"
  shows "\<not> is_space c" "c \<noteq> CHR ''-''" "c \<noteq> CHR ''+''" "to_lower c = c" "c \<noteq> CHR ''.''"
    "c \<noteq> CHR ''i''" "c \<noteq> CHR ''n''" "c \<noteq> CHR ''x''"
  using assms by (auto simp: is_digit_def is_space_def to_lower_def)

text \<open>What may follow a number: nothing that the conversion would read on.\<close>

definition ends_number :: "string \<Rightarrow> bool" where
  "ends_number r \<longleftrightarrow> (case r of [] \<Rightarrow> True | c # _ \<Rightarrow>
     \<not> is_digit c \<and> c \<noteq> CHR ''.'' \<and> to_lower c \<noteq> CHR ''e'' \<and> to_lower c \<noteq> CHR ''x'')"

lemma digits_prefix:
  assumes "list_all is_digit ds" "ends_number r"
  shows "takeWhile is_digit (ds @ r) = ds" "dropWhile is_digit (ds @ r) = r"
proof -
  have "takeWhile is_digit r = []" "dropWhile is_digit r = r"
    using assms(2) by (cases r; simp add: ends_number_def)+
  moreover have "\<And>c. c \<in> set ds \<Longrightarrow> is_digit c" using assms(1) by (simp add: list_all_iff)
  ultimately show "takeWhile is_digit (ds @ r) = ds" "dropWhile is_digit (ds @ r) = r"
    by (simp_all add: takeWhile_append2 dropWhile_append2)
qed

lemma strtof_decimal:
  assumes "list_all is_digit ds" "ds \<noteq> []" "list_all is_digit fs" "ends_number r"
  shows "strtof (ds @ CHR ''.'' # fs @ r)
    = converted False (fraction (number 10 (ds @ fs)) 10 (- int (length fs)))"
proof -
  obtain c ds' where ds: "ds = c # ds'" using assms(2) by (cases ds) auto
  have c: "is_digit c" using assms(1) ds by simp
  note cf = digit_facts [OF c]
  have x: "\<not> starts_with_ci ''0x'' (ds @ CHR ''.'' # fs @ r)"
    using assms(1) digit_facts unfolding ds
    by (cases ds') (auto simp: starts_with_ci_def to_lower_def)
  have tw: "takeWhile is_digit (ds @ CHR ''.'' # fs @ r) = ds"
    "dropWhile is_digit (ds @ CHR ''.'' # fs @ r) = CHR ''.'' # fs @ r"
    using assms(1) by (auto simp: takeWhile_append2 dropWhile_append2 list_all_iff is_digit_def)
  have m: "mantissa is_digit (ds @ CHR ''.'' # fs @ r) = (ds @ fs, length fs, r)"
    using tw digits_prefix [OF assms(3,4)] by (simp add: mantissa_def)
  have ep: "exponent_part (CHR ''e'') r = 0"
    using assms(4) by (auto simp: exponent_part_def ends_number_def split: list.splits)
  have sg: "sign_of (dropWhile is_space (ds @ CHR ''.'' # fs @ r)) = (False, ds @ CHR ''.'' # fs @ r)"
    using cf by (simp add: ds)
  have nn: "\<not> starts_with_ci ''inf'' (ds @ CHR ''.'' # fs @ r)"
    "\<not> starts_with_ci ''nan'' (ds @ CHR ''.'' # fs @ r)"
    using cf by (simp_all add: ds starts_with_ci_def)
  show ?thesis
    using x m ep assms(2) by (simp add: strtof_def sg nn split_beta)
qed

lemma strtof_integer:
  assumes "list_all is_digit ds" "ds \<noteq> []" "ends_number r"
  shows "strtof (ds @ r) = converted False (fraction (number 10 ds) 10 0)"
proof -
  obtain c ds' where ds: "ds = c # ds'" using assms(2) by (cases ds) auto
  have c: "is_digit c" using assms(1) ds by simp
  note cf = digit_facts [OF c]
  have x: "\<not> starts_with_ci ''0x'' (ds @ r)"
  proof (cases ds')
    case Nil
    then show ?thesis
      using assms(3) by (cases r) (auto simp: ds starts_with_ci_def ends_number_def)
  next
    case (Cons c' ds'')
    then have "is_digit c'" using assms(1) ds by simp
    with digit_facts [of c'] Cons show ?thesis by (auto simp: ds starts_with_ci_def)
  qed
  have m: "mantissa is_digit (ds @ r) = (ds, 0, r)"
    using assms(3)
    by (auto simp: mantissa_def Let_def digits_prefix [OF assms(1,3)] ends_number_def split: list.split)
  have ep: "exponent_part (CHR ''e'') r = 0"
    using assms(3) by (auto simp: exponent_part_def ends_number_def split: list.splits)
  have sg: "sign_of (dropWhile is_space (ds @ r)) = (False, ds @ r)"
    using cf by (simp add: ds)
  have nn: "\<not> starts_with_ci ''inf'' (ds @ r)" "\<not> starts_with_ci ''nan'' (ds @ r)"
    using cf by (simp_all add: ds starts_with_ci_def)
  show ?thesis
    using x m ep assms(2) by (simp add: strtof_def sg nn split_beta)
qed

lemma f32_erange_nat:
  assumes "n < 2 ^ 24" "0 < k"
  shows "\<not> f32_erange (n * k) k"
proof (cases "n = 0")
  case True
  then show ?thesis by (simp add: f32_erange_def)
next
  case False
  have t: "to_f32 False (n * k) k = to_f32 False n 1"
    using assms(2) by (intro to_f32_cong) auto
  have "exponent_of (n * k) k = exponent_of n 1"
    using assms(2) False by (intro exponent_of_cong) auto
  then have "- 24 \<le> exponent_of (n * k) k"
    using False by (simp add: exponent_of_nat del: One_nat_def)
  then show ?thesis
    using t to_f32_nat [of n False] False assms(1)
    by (auto simp: f32_erange_def carry_def Let_def split: prod.splits)
qed

text \<open>
  The decimal text of a natural number below \<open>2^24\<close>, with or without zeros after
  the point, converts to exactly that number.
\<close>

theorem stof_nat:
  assumes "n < 2 ^ 24" "ends_number r"
  shows "stof (show_nat n @ r) = Inr (to_f32 False n 1)"
    and "stof (show_nat n @ CHR ''.'' # replicate k (CHR ''0'') @ r) = Inr (to_f32 False n 1)"
proof -
  note d = number_show_nat [of n]
  show "stof (show_nat n @ r) = Inr (to_f32 False n 1)"
    using strtof_integer [of "show_nat n" r] d assms f32_erange_nat [of n 1]
    by (simp add: stof_def converted_def fraction_def)
  have "list_all is_digit (replicate k (CHR ''0''))"
    by (simp add: list_all_iff is_digit_def)
  moreover have "number 10 (show_nat n @ replicate k (CHR ''0'')) = n * 10 ^ k"
    using d number_zeros [of k] by (simp add: number_append)
  moreover have "to_f32 False (n * 10 ^ k) (10 ^ k) = to_f32 False n 1"
    by (intro to_f32_cong) auto
  ultimately show "stof (show_nat n @ CHR ''.'' # replicate k (CHR ''0'') @ r) = Inr (to_f32 False n 1)"
    using strtof_decimal [of "show_nat n" "replicate k (CHR ''0'')" r] d assms
      f32_erange_nat [of n "10 ^ k"]
    by (cases "k = 0") (simp_all add: stof_def converted_def fraction_def)
qed

lemma stoi_nat:
  assumes "n < 2 ^ 31" "r = [] \<or> \<not> is_digit (hd r)"
  shows "stoi (show_nat n @ r) = Inr (int n)"
proof -
  note d = number_show_nat [of n]
  obtain c ds' where ds: "show_nat n = c # ds'" using d by (cases "show_nat n") auto
  have c: "is_digit c" using d ds by simp
  have tw: "takeWhile is_digit (show_nat n @ r) = show_nat n"
    using assms(2) d by (cases r) (auto simp: takeWhile_append2 list_all_iff)
  have "sign_of (dropWhile is_space (show_nat n @ r)) = (False, show_nat n @ r)"
    using digit_facts [OF c] by (simp add: ds)
  then show ?thesis
    using d assms(1) tw by (simp add: stoi_def Let_def)
qed

lemma round_div_bounds:
  "n div d \<le> round_div (n, d)" "round_div (n, d) \<le> Suc (n div d)"
  by (simp_all add: round_div_def Let_def)

lemma to_f32_wf:
  assumes "0 < d"
  shows "f32_wf (to_f32 s n d)"
proof (cases "n = 0")
  case True
  then show ?thesis by (simp add: to_f32_def)
next
  case False
  define e where "e = max (- 149) (exponent_of n d)"
  obtain n' d' where sc: "scale n d e = (n', d')" by (cases "scale n d e")
  have d': "0 < d'" using scale_pos [OF assms, of n e] sc by simp
  have r: "real n' / real d' = ratio (n, d) / 2 powi e"
    using ratio_scale [of n d e] sc by (simp add: ratio_def)
  note w = exponent_of_spec [of n d] 
  have le: "(2::real) powi exponent_of n d \<le> 2 powi e"
    unfolding e_def by (intro power_int_increasing) auto
  have nonneg: "0 \<le> ratio (n, d)" by (simp add: ratio_def)
  have "real n' / real d' \<le> ratio (n, d) / 2 powi exponent_of n d"
    using le nonneg unfolding r by (intro divide_left_mono) auto
  then have "real n' / real d' < 2 ^ 24" using w False assms by force
  then have hi: "n' div d' < 2 ^ 24"
    using div_ge_iff [OF d', of "2 ^ 24" n'] by (simp add: not_le [symmetric])
  have lo: "2 ^ 23 \<le> n' div d'" if "e \<noteq> - 149"
  proof -
    have "e = exponent_of n d" using that by (auto simp: e_def max_def split: if_splits)
    then show ?thesis using w False assms div_ge_iff [OF d', of "2 ^ 23" n'] by (simp add: r)
  qed
  have "round_div (n', d') \<le> 2 ^ 24" "e \<noteq> - 149 \<Longrightarrow> 2 ^ 23 \<le> round_div (n', d')"
    using hi lo round_div_bounds [of n' d'] by auto
  moreover have "- 149 \<le> e" by (simp add: e_def)
  ultimately show ?thesis
    using False by (auto simp: to_f32_def carry_def Let_def e_def [symmetric] sc)
qed

lemma stof_wf: "stof str = Inr x \<Longrightarrow> f32_wf x"
proof -
  have c: "converted neg nd = Converted x b \<Longrightarrow> 0 < snd nd \<Longrightarrow> f32_wf x" for neg nd b
    by (cases nd) (auto simp: converted_def to_f32_wf)
  have f: "0 < snd (fraction n b' z)" if "0 < b'" for n b' z
    using that by (simp add: fraction_def)
  assume "stof str = Inr x"
  then obtain b where "strtof str = Converted x b"
    by (auto simp: stof_def split: strtof_result.splits if_splits)
  then show ?thesis
    by (auto simp: strtof_def Let_def f split: prod.splits if_splits intro: c)
qed

text \<open>The comparison of two small whole numbers.\<close>

lemma f32_less_nat:
  assumes "a < 2 ^ 24" "b < 2 ^ 24"
  shows "f32_less (f32_of_int (int a)) (f32_of_int (int b)) \<longleftrightarrow> a < b"
proof -
  have fin: "\<exists>s m e. f32_of_int (int k) = Fin s m e" if "k < 2 ^ 24" for k
    using to_f32_nat [of k] that by (cases "k = 0") (auto simp: f32_of_int_def to_f32_def)
  have "f32_less (f32_of_int (int a)) (f32_of_int (int b)) \<longleftrightarrow>
      f32_units (f32_of_int (int a)) < f32_units (f32_of_int (int b))"
    using fin [OF assms(1)] fin [OF assms(2)] by auto
  then show ?thesis using assms f32_units_nat by (simp add: f32_of_int_def)
qed

text \<open>The text of a number has at least three characters and no zero byte.\<close>

lemma to_string_f32_shape:
  "CHR 0x00 \<notin> set (to_string_f32 x)" "3 \<le> length (to_string_f32 x)"
proof -
  have nul: "CHR 0x00 \<notin> set (show_nat k)" for k
    using number_show_nat [of k] by (auto simp: list_all_iff is_digit_def)
  then have pad: "CHR 0x00 \<notin> set (zero_pad w (show_nat k))" for w k
    by (simp add: zero_pad_def)
  show "CHR 0x00 \<notin> set (to_string_f32 x)" "3 \<le> length (to_string_f32 x)"
    using nul pad by (cases x; auto simp: show_sign_def zero_pad_def Let_def split: prod.splits)+
qed

section \<open>The default format of whole numbers\<close>

lemma number_bound: "list_all is_digit ds \<Longrightarrow> number 10 ds < 10 ^ length ds"
proof (induction ds rule: rev_induct)
  case (snoc c ds)
  have "the (hex_value c) < 10"
    using snoc.prems by (auto simp: is_digit_def hex_value_def Let_def to_lower_def)
  then show ?case using snoc by (simp add: number_append number_def)
qed (simp add: number_def)

lemma show_nat_length:
  "n < 10 ^ length (show_nat n)" "0 < n \<Longrightarrow> 10 ^ (length (show_nat n) - 1) \<le> n"
proof -
  show "n < 10 ^ length (show_nat n)"
    using number_bound [of "show_nat n"] number_show_nat [of n] by simp
  show "0 < n \<Longrightarrow> 10 ^ (length (show_nat n) - 1) \<le> n"
  proof (induction n rule: show_nat.induct)
    case (1 n)
    show ?case
    proof (cases "n < 10")
      case True
      then show ?thesis using 1(2) by (subst show_nat.simps) simp
    next
      case False
      then have "10 ^ (length (show_nat (n div 10)) - 1) \<le> n div 10" using 1(1) by simp
      moreover have "length (show_nat (n div 10)) \<noteq> 0" using number_show_nat [of "n div 10"] by auto
      ultimately have "10 ^ length (show_nat (n div 10)) \<le> 10 * (n div 10)"
        by (cases "length (show_nat (n div 10))") auto
      also have "\<dots> \<le> n" by simp
      finally show ?thesis using False by (subst show_nat.simps) simp
    qed
  qed
qed
lemma show_nat_shift: "0 < k \<Longrightarrow> show_nat (k * 10 ^ j) = show_nat k @ replicate j (CHR ''0'')"
proof (induction j)
  case (Suc j)
  have "\<not> k * 10 ^ Suc j < 10" using Suc.prems by simp
  moreover have "k * 10 ^ Suc j div 10 = k * 10 ^ j" "k * 10 ^ Suc j mod 10 = 0" by simp_all
  ultimately have "show_nat (k * 10 ^ Suc j) = show_nat (k * 10 ^ j) @ [digit_char 0]"
    by (subst show_nat.simps) simp
  then show ?case
    using Suc by (simp add: digit_char_def replicate_append_same)
qed simp

lemma dec_exponent_nat:
  assumes "0 < k" "0 < d"
  shows "dec_exponent (k * d) d = int (length (show_nat k)) - 1"
proof -
  define a where "a m = length (show_nat m) - 1" for m
  have l: "length (show_nat m) = Suc (a m)" for m
    using number_show_nat [of m] by (cases "show_nat m") (auto simp: a_def)
  have b: "10 ^ a m \<le> m \<and> m < 10 ^ Suc (a m)" if "0 < m" for m
    using show_nat_length [of m] that by (simp add: l)
  have lo: "(10::nat) ^ (a k + a d) \<le> k * d" and hi: "k * d < 10 ^ (a k + a d + 2)"
  proof -
    show "(10::nat) ^ (a k + a d) \<le> k * d" using b assms by (simp add: power_add mult_le_mono)
    have "k * d < 10 ^ Suc (a k) * 10 ^ Suc (a d)" using b assms by (intro mult_strict_mono) auto
    then show "k * d < 10 ^ (a k + a d + 2)" by (simp add: power_add)
  qed
  have kd: "0 < k * d" using assms by simp
  have "(10::nat) ^ a (k * d) < 10 ^ (a k + a d + 2)" "(10::nat) ^ (a k + a d) < 10 ^ Suc (a (k * d))"
    using lo hi b [OF kd] by linarith+
  then have "a (k * d) < a k + a d + 2" "a k + a d < Suc (a (k * d))"
    using power_less_imp_less_exp [of "10::nat"] by (metis one_less_numeral_iff semiring_norm(76))+
  then consider "a (k * d) = a k + a d" | "a (k * d) = Suc (a k) + a d" by linarith
  then show ?thesis
  proof cases
    case 1
    then have "d * 10 ^ a k \<le> k * d" using b [OF assms(1)] by simp
    with 1 show ?thesis by (simp add: dec_exponent_def l fraction_def)
  next
    case 2
    then have "\<not> d * 10 ^ Suc (a k) \<le> k * d" using b [OF assms(1)] assms(2) by simp
    with 2 show ?thesis by (simp add: dec_exponent_def l fraction_def nat_add_distrib)
  qed
qed

text \<open>A whole number of at most six digits is written as its decimal text.\<close>

lemma show_g_nat:
  assumes "k < 10 ^ 6"
  shows "show_g (f32_of_int (int k)) = show_nat k"
proof (cases "k = 0")
  case True
  then show ?thesis by (simp add: f32_eval)
next
  case False
  then have k: "0 < k" "k < 2 ^ 24" using assms by simp_all
  let ?j = "24 - bit_len k"
  have L: "bit_len k \<le> 24" using k by (rule bit_len_le)
  obtain x where x: "length (show_nat k) = Suc x"
    using number_show_nat [of k] by (cases "show_nat k") auto
  then have kx: "10 ^ x \<le> k" "k < 10 ^ Suc x" using show_nat_length [of k] k(1) by simp_all
  have "(10::nat) ^ x < 10 ^ 6" using kx(1) assms by (rule le_less_trans)
  then have "x < 6" by (rule power_less_imp_less_exp [rotated]) simp
  then have x5: "x \<le> 5" by simp
  have sc: "scale (k * 2 ^ ?j) 1 (24 - int (bit_len k)) = (k * 2 ^ ?j, 2 ^ ?j)"
    using L by (auto simp: scale_def nat_diff_distrib)
  have de: "dec_exponent (k * 2 ^ ?j) (2 ^ ?j) = int x"
    using dec_exponent_nat [OF k(1), of "2 ^ ?j"] x by simp
  have fr: "fraction 1 10 (5 - int x) = (10 ^ (5 - x), 1)"
    using x5 by (simp add: fraction_def nat_diff_distrib)
  have "round_div (k * 2 ^ ?j * 10 ^ (5 - x), 2 ^ ?j) = round_div (k * 10 ^ (5 - x) * 2 ^ ?j, 2 ^ ?j)"
    by (simp add: mult.commute mult.left_commute)
  then have rd: "round_div (k * 2 ^ ?j * 10 ^ (5 - x), 2 ^ ?j) = k * 10 ^ (5 - x)"
    by simp
  have "k * 10 ^ (5 - x) < 10 ^ Suc x * 10 ^ (5 - x)" using kx(2) by simp
  also have "\<dots> = 10 ^ 6" using x5 by (simp flip: power_add)
  finally have "k * 10 ^ (5 - x) \<noteq> 10 ^ 6" by simp
  moreover have "f32_of_int (int k) = Fin False (k * 2 ^ ?j) (int (bit_len k) - 24)"
    using to_f32_nat [OF k, of False] by (simp add: f32_of_int_def)
  ultimately show ?thesis
    using k(1) x x5 show_nat_shift [OF k(1), of "5 - x"]
    by (simp add: sc de fr rd Let_def show_sign_def strip_zeros_def point_then_def nat_add_distrib del: One_nat_def)
qed

end
