(* ===== verification/HttpText.thy ===== *)
theory HttpText
  imports Float32 "HOL-Library.Word"
begin

text \<open>
  The text functions of \<open>utility.hpp\<close>: case-insensitive comparison, percent
  coding, query strings, header blocks, cookie attributes and the request line.
  A position that the code initialises with \<open>npos\<close> is an \<open>option\<close>.  A
  \<open>CaseInsensitiveMultimap\<close> is the list of the pairs in the order in which they
  were emplaced; the order in which an unordered container visits its elements
  is not specified, so whoever looks something up takes that order as the
  parameter \<open>iter\<close>, a permutation of the list.
\<close>

unbundle bit_operations_syntax

type_synonym fields = "(string \<times> string) list"

section \<open>Positions in strings\<close>

definition substr :: "nat \<Rightarrow> nat \<Rightarrow> string \<Rightarrow> string" where
  "substr pos n s = take n (drop pos s)"

definition substr_from :: "nat \<Rightarrow> string \<Rightarrow> string" where
  "substr_from pos s = drop pos s"

fun find_char :: "char \<Rightarrow> string \<Rightarrow> nat option" where
  "find_char c [] = None"
| "find_char c (x # s) = (if x = c then Some 0 else map_option Suc (find_char c s))"

definition find_char_from :: "char \<Rightarrow> nat \<Rightarrow> string \<Rightarrow> nat option" where
  "find_char_from c pos s = map_option (\<lambda>i. pos + i) (find_char c (drop pos s))"

section \<open>Case-insensitive keys\<close>

definition case_insensitive_equal :: "string \<Rightarrow> string \<Rightarrow> bool" where
  "case_insensitive_equal str1 str2 \<longleftrightarrow>
     length str1 = length str2 \<and> list_all2 (\<lambda>a b. to_lower a = to_lower b) str1 str2"

text \<open>\<open>std::hash<int>\<close> is a parameter; a \<open>char\<close> is signed.\<close>

definition char_to_int :: "char \<Rightarrow> int" where
  "char_to_int c = (let n = int (of_char c) in if 128 \<le> n then n - 256 else n)"

definition CaseInsensitiveHash :: "(int \<Rightarrow> 64 word) \<Rightarrow> string \<Rightarrow> 64 word" where
  "CaseInsensitiveHash hash str =
     foldl (\<lambda>h c. h XOR (hash (char_to_int (to_lower c)) + 0x9e3779b9 + push_bit 6 h + drop_bit 2 h))
       0 str"

definition mm_find :: "(fields \<Rightarrow> fields) \<Rightarrow> string \<Rightarrow> fields \<Rightarrow> string option" where
  "mm_find iter key m =
     map_option snd (find (\<lambda>field. case_insensitive_equal (fst field) key) (iter m))"

definition legal_order :: "(fields \<Rightarrow> fields) \<Rightarrow> bool" where
  "legal_order iter \<longleftrightarrow> (\<forall>m. mset (iter m) = mset m)"

section \<open>Percent coding\<close>

definition unreserved :: "char \<Rightarrow> bool" where
  "unreserved chr \<longleftrightarrow>
     (CHR ''0'' \<le> chr \<and> chr \<le> CHR ''9'') \<or> (CHR ''A'' \<le> chr \<and> chr \<le> CHR ''Z'') \<or>
     (CHR ''a'' \<le> chr \<and> chr \<le> CHR ''z'') \<or>
     chr = CHR ''-'' \<or> chr = CHR ''.'' \<or> chr = CHR ''_'' \<or> chr = CHR ''~''"

definition hex_chars :: string where
  "hex_chars = ''0123456789ABCDEF''"

definition percent_encode_char :: "char \<Rightarrow> string" where
  "percent_encode_char chr =
     (if \<not> unreserved chr
      then [CHR ''%'', hex_chars ! (of_char chr div 16), hex_chars ! (of_char chr mod 16)]
      else [chr])"

definition percent_encode :: "string \<Rightarrow> string" where
  "percent_encode value = concat (map percent_encode_char value)"

definition strtol16 :: "string \<Rightarrow> int" where
  "strtol16 str =
     (let (neg, s) = sign_of (dropWhile is_space str);
          ds = takeWhile is_hex (if starts_with_ci ''0x'' s \<and> takeWhile is_hex (drop 2 s) \<noteq> []
                                 then drop 2 s else s);
          n = int (number 16 ds)
      in if neg then - n else n)"

definition long_to_char :: "int \<Rightarrow> char" where
  "long_to_char n = char_of (nat (n mod 256))"

fun percent_decode :: "string \<Rightarrow> string" where
  "percent_decode [] = []"
| "percent_decode (chr # rest) =
     (if chr = CHR ''%'' \<and> 2 \<le> length rest
      then long_to_char (strtol16 (take 2 rest)) # percent_decode (drop 2 rest)
      else if chr = CHR ''+'' then CHR '' '' # percent_decode rest
      else chr # percent_decode rest)"

section \<open>Query strings\<close>

fun query_create_loop :: "bool \<Rightarrow> fields \<Rightarrow> string" where
  "query_create_loop first [] = []"
| "query_create_loop first ((name, value) # fs) =
     (if \<not> first then ''&'' else []) @ name @ ''='' @ percent_encode value @
       query_create_loop False fs"

definition query_create :: "(fields \<Rightarrow> fields) \<Rightarrow> fields \<Rightarrow> string" where
  "query_create iter m = query_create_loop True (iter m)"

text \<open>The loop over the characters, at position \<open>c\<close> with \<open>rest\<close> still to come.\<close>

fun query_loop :: "string \<Rightarrow> nat \<Rightarrow> string \<Rightarrow> nat \<Rightarrow> nat option \<Rightarrow> nat option \<Rightarrow> fields \<Rightarrow>
    nat \<times> nat option \<times> nat option \<times> fields" where
  "query_loop q c [] name_pos name_end_pos value_pos result =
     (name_pos, name_end_pos, value_pos, result)"
| "query_loop q c (x # rest) name_pos name_end_pos value_pos result =
     (if x = CHR ''&'' then
        let name = substr name_pos ((case name_end_pos of None \<Rightarrow> c | Some e \<Rightarrow> e) - name_pos) q;
            value = (case value_pos of None \<Rightarrow> [] | Some v \<Rightarrow> substr v (c - v) q)
        in query_loop q (c + 1) rest (c + 1) None None
             (if name \<noteq> [] then result @ [(name, percent_decode value)] else result)
      else if x = CHR ''='' then
        query_loop q (c + 1) rest name_pos (Some c) (Some (c + 1)) result
      else query_loop q (c + 1) rest name_pos name_end_pos value_pos result)"

definition query_parse :: "string \<Rightarrow> fields" where
  "query_parse query_string =
     (if query_string = [] then []
      else
        let (name_pos, name_end_pos, value_pos, result) =
              query_loop query_string 0 query_string 0 None None []
        in if name_pos < length query_string then
             let name = (case name_end_pos of None \<Rightarrow> substr_from name_pos query_string
                         | Some e \<Rightarrow> substr name_pos (e - name_pos) query_string)
             in if name \<noteq> [] then
                  let value = (case value_pos of None \<Rightarrow> []
                               | Some v \<Rightarrow> if length query_string \<le> v then []
                                          else substr_from v query_string)
                  in result @ [(name, percent_decode value)]
                else result
           else result)"

section \<open>Header blocks\<close>

text \<open>
  An input stream is the text left and whether no state bit is set.  \<open>getline\<close> on
  a stream that has failed or reached its end leaves the line as it was.
\<close>

type_synonym istream = "string \<times> bool"

definition getline :: "string \<Rightarrow> istream \<Rightarrow> string \<times> istream" where
  "getline line = (\<lambda>(txt, good).
     if \<not> good then (line, (txt, False))
     else case find_char (CHR 10) txt of
            None \<Rightarrow> (txt, ([], False))
          | Some i \<Rightarrow> (take i txt, (drop (i + 1) txt, True)))"

function value_start :: "string \<Rightarrow> nat \<Rightarrow> nat" where
  "value_start line i =
     (if i + 1 < length line \<and> line ! i = CHR '' '' then value_start line (i + 1) else i)"
  by pat_completeness auto
termination by (relation "measure (\<lambda>(line, i). length line - i)") auto

declare value_start.simps [simp del]

definition header_field :: "string \<Rightarrow> nat \<Rightarrow> fields" where
  "header_field line param_end =
     (let v = value_start line (param_end + 1)
      in if v < length line
         then [(substr 0 param_end line, substr v (length line - v - 1) line)] else [])"

text \<open>
  The loop of \<open>HttpHeader::parse\<close>; \<open>None\<close> says that it does not return, which
  happens when the stream ends inside a line that has a colon.
\<close>

partial_function (option) header_loop ::
  "string \<Rightarrow> istream \<Rightarrow> fields \<Rightarrow> (fields \<times> istream) option" where
  "header_loop line stream result =
     (case find_char (CHR '':'') line of
        None \<Rightarrow> Some (result, stream)
      | Some param_end \<Rightarrow>
          (case getline line stream of
             (line', stream') \<Rightarrow>
               header_loop line' stream' (result @ header_field line param_end)))"

definition header_parse :: "istream \<Rightarrow> (fields \<times> istream) option" where
  "header_parse stream = (case getline [] stream of (line, stream') \<Rightarrow> header_loop line stream' [])"

section \<open>Cookie attributes\<close>

fun cookie_loop :: "string \<Rightarrow> nat \<Rightarrow> string \<Rightarrow> nat option \<Rightarrow> nat option \<Rightarrow> nat option \<Rightarrow> fields \<Rightarrow>
    nat option \<times> nat option \<times> nat option \<times> fields" where
  "cookie_loop str c [] name_start name_end val_start result =
     (name_start, name_end, val_start, result)"
| "cookie_loop str c (x # rest) name_start name_end val_start result =
     (case name_start of
        None \<Rightarrow>
          cookie_loop str (c + 1) rest
            (if x \<noteq> CHR '' '' \<and> x \<noteq> CHR '';'' then Some c else None) name_end val_start result
      | Some n \<Rightarrow>
         (case name_end of
            None \<Rightarrow>
              if x = CHR '';'' then
                cookie_loop str (c + 1) rest None None val_start (result @ [(substr n (c - n) str, [])])
              else if x = CHR ''='' then
                cookie_loop str (c + 1) rest (Some n) (Some c) val_start result
              else cookie_loop str (c + 1) rest (Some n) None val_start result
          | Some e \<Rightarrow>
             (case val_start of
                None \<Rightarrow>
                  cookie_loop str (c + 1) rest (Some n) (Some e)
                    (Some (if x = CHR 34 \<and> c + 1 < length str then c + 1 else c)) result
              | Some v \<Rightarrow>
                  if x = CHR 34 \<or> x = CHR '';'' then
                    cookie_loop str (c + 1) rest None None None
                      (result @ [(substr n (e - n) str, percent_decode (substr v (c - v) str))])
                  else cookie_loop str (c + 1) rest (Some n) (Some e) (Some v) result)))"

definition cookie_parse :: "string \<Rightarrow> fields" where
  "cookie_parse str =
     (case cookie_loop str 0 str None None None [] of
        (None, _, _, result) \<Rightarrow> result
      | (Some n, None, _, result) \<Rightarrow> result @ [(substr_from n str, [])]
      | (Some n, Some e, None, result) \<Rightarrow> result
      | (Some n, Some e, Some v, result) \<Rightarrow>
          if last str = CHR 34
          then result @ [(substr n (e - n) str, percent_decode (substr v (length str - 1) str))]
          else result @ [(substr n (e - n) str, percent_decode (substr_from v str))])"

section \<open>Request and response lines\<close>

record RequestHead =
  req_method :: string
  req_path :: string
  req_query_string :: string
  req_http_version :: string
  req_header :: fields

text \<open>The scan for the last \<open>?\<close> before the first blank, and for that blank.\<close>

fun scan_target :: "nat \<Rightarrow> string \<Rightarrow> nat option \<Rightarrow> nat option \<times> nat option" where
  "scan_target i [] query_start = (query_start, None)"
| "scan_target i (x # rest) query_start =
     (if x = CHR ''?'' \<and> rest \<noteq> [] then scan_target (i + 1) rest (Some (i + 1))
      else if x = CHR '' '' then (query_start, Some i)
      else scan_target (i + 1) rest query_start)"

text \<open>
  \<open>RequestMessage::parse\<close> assigns to its arguments as it goes, so a line that is
  rejected half way leaves the parts that were already read.
\<close>

definition request_parse :: "istream \<Rightarrow> RequestHead \<Rightarrow> (bool \<times> RequestHead \<times> istream) option" where
  "request_parse stream r0 =
     (let r = r0\<lparr>req_header := []\<rparr>; (line, stream') = getline [] stream in
      case find_char (CHR '' '') line of
        None \<Rightarrow> Some (False, r, stream')
      | Some method_end \<Rightarrow>
          let r = r\<lparr>req_method := substr 0 method_end line\<rparr> in
          case scan_target (method_end + 1) (drop (method_end + 1) line) None of
            (_, None) \<Rightarrow> Some (False, r, stream')
          | (query_start, Some target_end) \<Rightarrow>
              let r = (case query_start of
                    Some qs \<Rightarrow>
                      r\<lparr>req_path := substr (method_end + 1) (qs - method_end - 2) line,
                        req_query_string := substr qs (target_end - qs) line\<rparr>
                  | None \<Rightarrow>
                      r\<lparr>req_path := substr (method_end + 1) (target_end - method_end - 1) line\<rparr>)
              in case find_char_from (CHR ''/'') (target_end + 1) line of
                   None \<Rightarrow> Some (False, r, stream')
                 | Some protocol_end \<Rightarrow>
                     if substr (target_end + 1) (protocol_end - target_end - 1) line \<noteq> ''HTTP''
                     then Some (False, r, stream')
                     else
                       let r = r\<lparr>req_http_version :=
                             substr (protocol_end + 1) (length line - protocol_end - 2) line\<rparr>
                       in map_option (\<lambda>(hdr, stream''). (True, r\<lparr>req_header := hdr\<rparr>, stream''))
                            (header_parse stream'))"

record ResponseHead =
  resp_version :: string
  resp_status_code :: string
  resp_header :: fields

definition response_parse :: "istream \<Rightarrow> ResponseHead \<Rightarrow> (bool \<times> ResponseHead \<times> istream) option" where
  "response_parse stream r0 =
     (let r = r0\<lparr>resp_header := []\<rparr>; (line, stream') = getline [] stream in
      case find_char (CHR '' '') line of
        None \<Rightarrow> Some (False, r, stream')
      | Some version_end \<Rightarrow>
          if \<not> 5 < length line then Some (False, r, stream')
          else
            let r = r\<lparr>resp_version := (if version_end < 5 then substr_from 5 line
                                      else substr 5 (version_end - 5) line)\<rparr>
            in if \<not> version_end + 1 < length line then Some (False, r, stream')
               else
                 let r = r\<lparr>resp_status_code :=
                       substr (version_end + 1) (length line - (version_end + 1) - 1) line\<rparr>
                 in map_option (\<lambda>(hdr, stream''). (True, r\<lparr>resp_header := hdr\<rparr>, stream''))
                      (header_parse stream'))"

section \<open>Positions\<close>

lemma find_char_append:
  "c \<notin> set s \<Longrightarrow> find_char c (s @ c # r) = Some (length s)"
  by (induction s) auto

lemma find_char_None: "find_char c s = None \<longleftrightarrow> c \<notin> set s"
  by (induction s) auto

lemma find_char_split:
  "find_char c s = Some i \<Longrightarrow> i < length s \<and> s ! i = c \<and> c \<notin> set (take i s)"
proof (induction s arbitrary: i)
  case (Cons x s)
  then show ?case by (cases i) (auto split: if_splits)
qed simp

lemma substr_middle: "substr (length a) (length b) (a @ b @ c) = b"
  by (simp add: substr_def)

lemma substr_front: "substr 0 (length b) (b @ c) = b"
  by (simp add: substr_def)

section \<open>Case-insensitive keys\<close>

lemma case_insensitive_equal_map:
  "case_insensitive_equal a b \<longleftrightarrow> map to_lower a = map to_lower b"
  by (auto simp: case_insensitive_equal_def list_all2_conv_all_nth list_eq_iff_nth_eq
      dest: map_eq_imp_length_eq)

lemma mm_find_single:
  assumes "legal_order iter"
  shows "mm_find iter key [(k, v)] = (if case_insensitive_equal k key then Some v else None)"
proof -
  have "mset (iter [(k, v)]) = {#(k, v)#}" using assms by (simp add: legal_order_def)
  then have "iter [(k, v)] = [(k, v)]" by simp
  then show ?thesis by (simp add: mm_find_def)
qed

lemma mm_find_None:
  assumes "legal_order iter"
  shows "mm_find iter key m = None \<longleftrightarrow> (\<forall>(k, v) \<in> set m. \<not> case_insensitive_equal k key)"
proof -
  have "set (iter m) = set m"
    using assms by (metis legal_order_def set_mset_mset)
  then show ?thesis by (auto simp: mm_find_def find_None_iff)
qed

section \<open>Percent coding is invertible\<close>

lemma hex_char_cases:
  assumes "d < 16"
  shows "hex_value (hex_chars ! d) = Some d \<and> \<not> is_space (hex_chars ! d) \<and>
    hex_chars ! d \<noteq> CHR ''-'' \<and> hex_chars ! d \<noteq> CHR ''+'' \<and> to_lower (hex_chars ! d) \<noteq> CHR ''x'' \<and>
    unreserved (hex_chars ! d)"
proof -
  have "d = 0 \<or> d = 1 \<or> d = 2 \<or> d = 3 \<or> d = 4 \<or> d = 5 \<or> d = 6 \<or> d = 7 \<or> d = 8 \<or> d = 9 \<or>
    d = 10 \<or> d = 11 \<or> d = 12 \<or> d = 13 \<or> d = 14 \<or> d = 15"
    using assms by arith
  then show ?thesis
    by (elim disjE; hypsubst;
        simp add: hex_chars_def hex_value_def to_lower_def is_space_def unreserved_def less_eq_char_def)
qed

lemma strtol16_hex:
  assumes "a < 16" "b < 16"
  shows "strtol16 [hex_chars ! a, hex_chars ! b] = int (16 * a + b)"
proof -
  note h = hex_char_cases [OF assms(1)] hex_char_cases [OF assms(2)]
  have "\<not> starts_with_ci ''0x'' [hex_chars ! a, hex_chars ! b]"
    using h by (simp add: starts_with_ci_def)
  then show ?thesis
    using h by (simp add: strtol16_def number_def is_hex_def Let_def)
qed

lemma decode_encoded_char:
  "percent_decode (percent_encode_char c @ s) = c # percent_decode s"
proof (cases "unreserved c")
  case True
  then have "c \<noteq> CHR ''%''" "c \<noteq> CHR ''+''"
    by (auto simp: unreserved_def less_eq_char_def)
  with True show ?thesis by (simp add: percent_encode_char_def)
next
  case False
  have lt: "(of_char c :: nat) < 256" by (rule nat_of_char_less_256)
  then have "strtol16 [hex_chars ! (of_char c div 16), hex_chars ! (of_char c mod 16)] = int (of_char c)"
    by (subst strtol16_hex) (auto simp: less_mult_imp_div_less)
  then show ?thesis
    using False lt by (simp add: percent_encode_char_def long_to_char_def)
qed

lemma percent_decode_encode: "percent_decode (percent_encode s) = s"
  by (induction s) (simp_all add: percent_encode_def decode_encoded_char)

lemma percent_encode_chars:
  "list_all (\<lambda>c. unreserved c \<or> c = CHR ''%'') (percent_encode s)"
proof -
  have "list_all (\<lambda>c. unreserved c \<or> c = CHR ''%'') (percent_encode_char c)" for c
  proof (cases "unreserved c")
    case False
    have "(of_char c :: nat) < 256" by (rule nat_of_char_less_256)
    then have "(of_char c :: nat) div 16 < 16" "(of_char c :: nat) mod 16 < 16"
      by (auto simp: less_mult_imp_div_less)
    with hex_char_cases False show ?thesis by (simp add: percent_encode_char_def)
  qed (simp add: percent_encode_char_def)
  then show ?thesis by (induction s) (simp_all add: percent_encode_def)
qed

lemma percent_decode_plain:
  "list_all (\<lambda>c. c \<noteq> CHR ''%'' \<and> c \<noteq> CHR ''+'') s \<Longrightarrow> percent_decode s = s"
  by (induction s rule: percent_decode.induct) auto

section \<open>Properties\<close>

text \<open>
  The hash and the equality of the header map fit together: keys that are equal
  up to case have the same hash, whatever \<open>std::hash<int>\<close> is.
\<close>

lemma hash_respects_equal:
  assumes "case_insensitive_equal a b"
  shows "CaseInsensitiveHash hash a = CaseInsensitiveHash hash b"
proof -
  define step where "step = (\<lambda>h c. h XOR (hash (char_to_int c) + 0x9e3779b9 + push_bit 6 h + drop_bit 2 h))"
  have fold_map: "foldl (\<lambda>h c. step h (to_lower c)) h s = foldl step h (map to_lower s)" for h s
    by (induction s arbitrary: h) simp_all
  have "CaseInsensitiveHash hash s = foldl step 0 (map to_lower s)" for s
    using fold_map [of 0 s] by (simp add: CaseInsensitiveHash_def step_def)
  then show ?thesis using assms by (simp add: case_insensitive_equal_map)
qed

text \<open>
  Percent coding is invertible for every byte string, and an encoded string
  contains only unreserved characters and \<open>%\<close>.
\<close>

lemma percent_coding_roundtrip:
  "percent_decode (percent_encode s) = s \<and>
   list_all (\<lambda>c. unreserved c \<or> c = CHR ''%'') (percent_encode s)"
  by (simp add: percent_decode_encode percent_encode_chars)

end
