(* ===== verification/HttpCodec.thy ===== *)
theory HttpCodec
  imports HttpText
begin

text \<open>
  Reading back what the writers produce: query strings, header blocks, request
  lines and the session cookie, and when the header parser returns at all.
\<close>

section \<open>Query strings\<close>

definition plain_key :: "string \<Rightarrow> bool" where
  "plain_key k \<longleftrightarrow> k \<noteq> [] \<and> CHR ''&'' \<notin> set k \<and> CHR ''='' \<notin> set k"

definition query_field :: "string \<times> string \<Rightarrow> string" where
  "query_field f = fst f @ ''='' @ percent_encode (snd f)"

lemma query_create_loop_field:
  "query_create_loop first (f # fs) =
     (if first then [] else ''&'') @ query_field f @ query_create_loop False fs"
  by (cases f) (simp add: query_field_def)

lemma encoded_no_separator:
  "CHR ''&'' \<notin> set (percent_encode v)" "CHR ''='' \<notin> set (percent_encode v)"
  using percent_encode_chars [of v]
  by (auto simp: list_all_iff unreserved_def less_eq_char_def dest!: bspec)

lemma query_loop_plain:
  assumes "CHR ''&'' \<notin> set w" "CHR ''='' \<notin> set w"
  shows "query_loop q c (w @ r) np ne vp acc = query_loop q (c + length w) r np ne vp acc"
  using assms by (induction w arbitrary: c) auto

lemma query_loop_field:
  assumes "plain_key (fst f)"
  shows "query_loop q c (query_field f @ r) np ne vp acc =
    query_loop q (c + length (query_field f)) r np
      (Some (c + length (fst f))) (Some (c + length (fst f) + 1)) acc"
  using assms encoded_no_separator [of "snd f"]
  by (simp add: query_field_def plain_key_def query_loop_plain add.assoc)

lemma query_loop_fields:
  assumes "q = pre @ query_field f @ query_create_loop False fs"
    and "c = length pre" "\<forall>g \<in> set (f # fs). plain_key (fst g)"
  shows "\<exists>pre' g. f # fs = butlast (f # fs) @ [g] \<and> q = pre' @ query_field g \<and>
    query_loop q c (query_field f @ query_create_loop False fs) c None None acc =
      (length pre', Some (length pre' + length (fst g)), Some (length pre' + length (fst g) + 1),
       acc @ butlast (f # fs))"
  using assms
proof (induction fs arbitrary: f pre c acc)
  case Nil
  then show ?case
    using query_loop_field [of f q c "[]"] by simp
next
  case (Cons h fs)
  let ?r = "query_field h @ query_create_loop False fs"
  let ?c = "c + length (query_field f)"
  have key: "plain_key (fst f)" using Cons.prems by simp
  have q: "q = (pre @ query_field f @ ''&'') @ ?r"
    using Cons.prems(1) by (simp add: query_create_loop_field)
  have name: "substr c (c + length (fst f) - c) q = fst f"
    using Cons.prems(1,2) by (simp add: substr_def query_field_def)
  have val: "substr (c + length (fst f) + 1) (?c - (c + length (fst f) + 1)) q = percent_encode (snd f)"
    using Cons.prems(1,2) by (simp add: substr_def query_field_def)
  have "query_loop q c (query_field f @ query_create_loop False (h # fs)) c None None acc =
    query_loop q (?c + 1) ?r (?c + 1) None None (acc @ [f])"
    using query_loop_field [OF key, of q c] key name val
    by (simp add: query_create_loop_field plain_key_def Let_def percent_decode_encode)
  moreover obtain pre' g where "h # fs = butlast (h # fs) @ [g]" "q = pre' @ query_field g"
    "query_loop q (?c + 1) ?r (?c + 1) None None (acc @ [f]) =
      (length pre', Some (length pre' + length (fst g)), Some (length pre' + length (fst g) + 1),
       (acc @ [f]) @ butlast (h # fs))"
    using Cons.IH [OF q, of "?c + 1" "acc @ [f]"] Cons.prems by auto
  ultimately show ?case by force
qed

lemma query_roundtrip:
  assumes "\<forall>f \<in> set fs. plain_key (fst f)"
  shows "query_parse (query_create_loop True fs) = fs"
proof (cases fs)
  case Nil
  then show ?thesis by (simp add: query_parse_def)
next
  case (Cons f fs')
  let ?q = "query_field f @ query_create_loop False fs'"
  have q: "query_create_loop True fs = ?q" using Cons by (simp add: query_create_loop_field)
  obtain pre' g where g: "f # fs' = butlast (f # fs') @ [g]" "?q = pre' @ query_field g"
    and loop: "query_loop ?q 0 ?q 0 None None [] =
      (length pre', Some (length pre' + length (fst g)), Some (length pre' + length (fst g) + 1),
       butlast (f # fs'))"
    using query_loop_fields [of ?q "[]" f fs' 0 "[]"] assms Cons by auto
  have key: "plain_key (fst g)" using g(1) assms Cons by (metis in_set_conv_decomp)
  have "substr (length pre') (length pre' + length (fst g) - length pre') ?q = fst g"
    "substr_from (length pre' + length (fst g) + 1) ?q = percent_encode (snd g)"
    "length ?q = length pre' + length (fst g) + 1 + length (percent_encode (snd g))"
    unfolding g(2) by (simp_all add: substr_def substr_from_def query_field_def)
  moreover have "?q \<noteq> []" by (simp add: query_field_def)
  ultimately have "query_parse ?q = butlast (f # fs') @ [g]"
    using loop key percent_decode_encode [of "snd g"]
    by (cases g) (auto simp: query_parse_def plain_key_def Let_def)
  then show ?thesis using g(1) q Cons by simp
qed

section \<open>Header blocks\<close>

definition plain_field :: "string \<times> string \<Rightarrow> bool" where
  "plain_field f \<longleftrightarrow> CHR '':'' \<notin> set (fst f) \<and> CHR 10 \<notin> set (fst f) \<and>
     CHR 10 \<notin> set (snd f) \<and> (snd f = [] \<or> hd (snd f) \<noteq> CHR '' '')"

definition header_line :: "string \<times> string \<Rightarrow> string" where
  "header_line f = fst f @ '': '' @ snd f @ [CHR 13]"

definition header_text :: "fields \<Rightarrow> string" where
  "header_text fs = concat (map (\<lambda>f. header_line f @ [CHR 10]) fs)"

lemma getline_line:
  "CHR 10 \<notin> set l \<Longrightarrow> getline old (l @ CHR 10 # r, True) = (l, (r, True))"
  by (simp add: getline_def find_char_append)

lemma getline_last:
  "CHR 10 \<notin> set l \<Longrightarrow> getline old (l, True) = (l, ([], False))"
  by (simp add: getline_def find_char_None split: option.split)

lemma getline_bad: "getline old (inp, False) = (old, (inp, False))"
  by (simp add: getline_def)

lemma header_field_line:
  assumes "plain_field f"
  shows "header_field (header_line f) (length (fst f)) = [f]"
proof -
  let ?l = "header_line f" and ?k = "length (fst f)"
  have n: "?l ! (?k + 1) = CHR '' ''" "?l ! (?k + 2) = hd (snd f @ [CHR 13])" "?k + 2 < length ?l"
    by (auto simp: header_line_def nth_append hd_append hd_conv_nth)
  have "value_start ?l (?k + 1) = value_start ?l (?k + 2)"
    using n by (subst value_start.simps) simp
  also have "\<dots> = ?k + 2"
    using n assms by (subst value_start.simps) (auto simp: plain_field_def hd_append header_line_def)
  finally show ?thesis
    by (simp add: header_field_def Let_def header_line_def substr_def)
qed

lemma header_loop_text:
  assumes "\<forall>f \<in> set fs. plain_field f" "CHR '':'' \<notin> set stop" "CHR 10 \<notin> set stop"
  shows "(case getline old (header_text fs @ stop @ CHR 10 # r, True) of
      (line, st) \<Rightarrow> header_loop line st acc) = Some (acc @ fs, (r, True))"
  using assms(1)
proof (induction fs arbitrary: acc old)
  case Nil
  have "find_char (CHR '':'') stop = None" using assms(2) by (simp add: find_char_None)
  then show ?case
    by (simp add: header_text_def getline_line [OF assms(3)] header_loop.simps [of stop])
next
  case (Cons f fs)
  have f: "plain_field f" using Cons.prems by simp
  have nl: "CHR 10 \<notin> set (header_line f)" using f by (simp add: header_line_def plain_field_def)
  have "find_char (CHR '':'') (header_line f) = Some (length (fst f))"
    using f by (simp add: header_line_def plain_field_def find_char_append)
  then show ?case
    using Cons getline_line [OF nl, of old "header_text fs @ stop @ CHR 10 # r"]
    by (simp add: header_text_def header_loop.simps [of "header_line f"] header_field_line [OF f])
qed

text \<open>A block of fields, a line without a colon (the blank line) and what follows.\<close>

lemma header_roundtrip:
  assumes "\<forall>f \<in> set fs. plain_field f"
  shows "header_parse (header_text fs @ [CHR 13, CHR 10] @ r, True) = Some (fs, (r, True))"
  using header_loop_text [OF assms, where stop = "[CHR 13]" and old = "[]" and r = r and acc = "[]"]
  by (simp add: header_parse_def)

subsection \<open>Termination\<close>

lemma header_loop_stuck:
  assumes "CHR '':'' \<in> set line"
  shows "header_loop line (inp, False) acc = None"
proof (rule ccontr)
  assume "header_loop line (inp, False) acc \<noteq> None"
  then obtain y where "header_loop line (inp, False) acc = Some y" by auto
  then have "\<not> (CHR '':'' \<in> set line \<and> \<not> snd (inp, False))"
  proof (rule header_loop.raw_induct
      [where P = "\<lambda>line st acc y. \<not> (CHR '':'' \<in> set line \<and> \<not> snd st)", rotated])
    fix hl line and st :: istream and acc y
    assume IH: "\<And>line st acc y. hl line st acc = Some y \<Longrightarrow> \<not> (CHR '':'' \<in> set line \<and> \<not> snd st)"
      and eq: "(case find_char (CHR '':'') line of
        None \<Rightarrow> Some (acc, st)
      | Some param_end \<Rightarrow> (case getline line st of
           (line', st') \<Rightarrow> hl line' st' (acc @ header_field line param_end))) = Some y"
    show "\<not> (CHR '':'' \<in> set line \<and> \<not> snd st)"
    proof
      assume h: "CHR '':'' \<in> set line \<and> \<not> snd st"
      then obtain i where "find_char (CHR '':'') line = Some i"
        using find_char_None by fastforce
      moreover have "getline line st = (line, (fst st, False))"
        using h by (cases st) (simp add: getline_bad)
      ultimately have "hl line (fst st, False) (acc @ header_field line i) = Some y"
        using eq by simp
      with IH h show False by fastforce
    qed
  qed
  with assms show False by simp
qed

text \<open>The parser returns when the text is empty or ends with a newline.\<close>

lemma header_loop_returns:
  "inp = [] \<or> last inp = CHR 10 \<Longrightarrow> header_loop line (inp, True) acc \<noteq> None"
proof (induction inp arbitrary: line acc rule: length_induct)
  case (1 inp)
  show ?case
  proof (cases "find_char (CHR '':'') line")
    case None
    then show ?thesis by (simp add: header_loop.simps)
  next
    case (Some p)
    show ?thesis
    proof (cases "inp = []")
      case True
      then show ?thesis
        using Some by (simp add: header_loop.simps [of line] header_loop.simps [of "[]"] getline_def)
    next
      case False
      then have "CHR 10 \<in> set inp" using 1(2) last_in_set by metis
      then obtain i where i: "find_char (CHR 10) inp = Some i" "i < length inp"
        using find_char_None find_char_split by (metis not_None_eq)
      then have "drop (i + 1) inp = [] \<or> last (drop (i + 1) inp) = CHR 10"
        using 1(2) False by (metis last_drop drop_eq_Nil not_le)
      moreover have "length (drop (i + 1) inp) < length inp" using i(2) by simp
      ultimately have "header_loop (take i inp) (drop (i + 1) inp, True) (acc @ header_field line p) \<noteq> None"
        using 1(1) by blast
      then show ?thesis using Some i by (simp add: header_loop.simps [of line] getline_def)
    qed
  qed
qed

text \<open>
  The header parser returns on every stream that is empty or ends in a newline.
\<close>

lemma header_parse_returns:
  assumes "inp = [] \<or> last inp = CHR 10"
  shows "header_parse (inp, True) \<noteq> None"
proof (cases "find_char (CHR 10) inp")
  case None
  then have "inp = []" using assms by (metis find_char_None last_in_set)
  then show ?thesis by (simp add: header_parse_def getline_def header_loop.simps)
next
  case (Some i)
  then have "i < length inp" by (auto dest: find_char_split)
  then have "drop (i + 1) inp = [] \<or> last (drop (i + 1) inp) = CHR 10"
    using assms by (metis last_drop drop_eq_Nil not_le list.size(3) not_less_zero)
  then show ?thesis
    using Some header_loop_returns by (simp add: header_parse_def getline_def)
qed

text \<open>What a last line without a newline does.\<close>

lemma header_loop_last_line:
  assumes "\<forall>f \<in> set fs. plain_field f" "CHR 10 \<notin> set l"
  shows "(case getline old (header_text fs @ l, True) of (line, st) \<Rightarrow> header_loop line st acc) =
    (if CHR '':'' \<in> set l then None else Some (acc @ fs, ([], False)))"
  using assms(1)
proof (induction fs arbitrary: acc old)
  case Nil
  show ?case
  proof (cases "CHR '':'' \<in> set l")
    case False
    then have "find_char (CHR '':'') l = None" by (simp add: find_char_None)
    with False show ?thesis
      by (simp add: header_text_def getline_last [OF assms(2)] header_loop.simps [of l])
  qed (simp add: header_text_def getline_last [OF assms(2)] header_loop_stuck)
next
  case (Cons f fs)
  have f: "plain_field f" using Cons.prems by simp
  have nl: "CHR 10 \<notin> set (header_line f)" using f by (simp add: header_line_def plain_field_def)
  have "find_char (CHR '':'') (header_line f) = Some (length (fst f))"
    using f by (simp add: header_line_def plain_field_def find_char_append)
  then show ?case
    using Cons getline_line [OF nl, of old "header_text fs @ l"] header_field_line [OF f]
    by (auto simp: header_text_def header_loop.simps [of "header_line f"])
qed

section \<open>Request lines\<close>

definition plain_target :: "string \<Rightarrow> bool" where
  "plain_target s \<longleftrightarrow> CHR '' '' \<notin> set s \<and> CHR ''?'' \<notin> set s \<and> CHR 10 \<notin> set s"

lemma scan_target_plain:
  assumes "CHR '' '' \<notin> set s" "CHR ''?'' \<notin> set s"
  shows "scan_target i (s @ r) qs = scan_target (i + length s) r qs"
  using assms by (induction s arbitrary: i) auto

definition request_line :: "string \<Rightarrow> string \<Rightarrow> string \<Rightarrow> string \<Rightarrow> string" where
  "request_line m p qs v =
     m @ '' '' @ p @ (if qs = [] then [] else ''?'' @ qs) @ '' HTTP/'' @ v @ [CHR 13]"

lemma scan_request_line:
  assumes "plain_target p" "plain_target qs"
  shows "scan_target (length m + 1) (drop (length m + 1) (request_line m p qs v)) None =
    (if qs = [] then None else Some (length m + length p + 2),
     Some (length m + 1 + length p + (if qs = [] then 0 else 1 + length qs)))"
  using assms by (auto simp: request_line_def plain_target_def scan_target_plain)

lemma request_parse_plain:
  assumes "CHR '' '' \<notin> set m" "CHR 10 \<notin> set m" "plain_target p" "plain_target qs"
    and "CHR 10 \<notin> set v" "\<forall>f \<in> set fs. plain_field f"
  shows "request_parse (request_line m p qs v @ [CHR 10] @ header_text fs @ [CHR 13, CHR 10] @ r, True) h =
    Some (True, h\<lparr>req_method := m, req_path := p,
      req_query_string := (if qs = [] then req_query_string h else qs),
      req_http_version := v, req_header := fs\<rparr>, (r, True))"
proof -
  define l where "l = request_line m p qs v"
  define e where "e = length m + 1 + length p + (if qs = [] then 0 else 1 + length qs)"
  have nl: "CHR 10 \<notin> set l" using assms by (auto simp: l_def request_line_def plain_target_def)
  have gl: "getline [] (l @ CHR 10 # rest, True) = (l, (rest, True))" for rest
    using nl by (rule getline_line)
  have sp: "find_char (CHR '' '') l = Some (length m)"
    using assms(1) by (simp add: l_def request_line_def find_char_append)
  have scan: "scan_target (length m + 1) (drop (length m + 1) l) None =
    (if qs = [] then None else Some (length m + length p + 2), Some e)"
    using scan_request_line [OF assms(3,4)] by (simp add: l_def e_def)
  have slash: "find_char_from (CHR ''/'') (e + 1) l = Some (e + 5)"
    by (auto simp: find_char_from_def request_line_def l_def e_def)
  have parts: "substr 0 (length m) l = m"
    "substr (e + 1) (e + 5 - e - 1) l = ''HTTP''"
    "qs = [] \<Longrightarrow> substr (length m + 1) (e - length m - 1) l = p"
    "qs \<noteq> [] \<Longrightarrow> substr (length m + 1) (length p) l = p"
    "qs \<noteq> [] \<Longrightarrow> substr (length m + length p + 2) (e - (length m + length p + 2)) l = qs"
    by (auto simp: l_def e_def request_line_def substr_def)
  have version: "substr (6 + e) (length l - (7 + e)) l = v"
  proof -
    let ?u = "m @ '' '' @ p @ (if qs = [] then [] else ''?'' @ qs) @ '' HTTP/''"
    have "l = ?u @ v @ [CHR 13]" "length ?u = e + 6"
      by (simp_all add: l_def e_def request_line_def)
    moreover from this have "length l - (7 + e) = length v" by simp
    ultimately show ?thesis
      using substr_middle [of ?u v "[CHR 13]"] by (metis add.commute)
  qed
  have hp: "header_parse (header_text fs @ CHR 13 # CHR 10 # r, True) = Some (fs, (r, True))"
    using header_roundtrip [OF assms(6)] by simp
  have "request_parse (l @ CHR 10 # header_text fs @ CHR 13 # CHR 10 # r, True) h =
    Some (True, h\<lparr>req_method := m, req_path := p,
      req_query_string := (if qs = [] then req_query_string h else qs),
      req_http_version := v, req_header := fs\<rparr>, (r, True))"
    using sp scan slash parts version
    by (cases "qs = []") (simp_all add: request_parse_def gl hp Let_def)
  then show ?thesis by (simp add: l_def)
qed

section \<open>Cookies\<close>

lemma cookie_loop_name:
  assumes "CHR '';'' \<notin> set w" "CHR ''='' \<notin> set w"
  shows "cookie_loop s c (w @ r) (Some n) None vs acc =
    cookie_loop s (c + length w) r (Some n) None vs acc"
  using assms by (induction w arbitrary: c) auto

lemma cookie_loop_value:
  assumes "CHR '';'' \<notin> set w" "CHR 34 \<notin> set w"
  shows "cookie_loop s c (w @ r) (Some n) (Some e) (Some v) acc =
    cookie_loop s (c + length w) r (Some n) (Some e) (Some v) acc"
  using assms by (induction w arbitrary: c) auto

text \<open>A single attribute \<open>name=value\<close> with an unquoted value.\<close>

lemma cookie_single:
  assumes "name \<noteq> []" "CHR '';'' \<notin> set name" "CHR ''='' \<notin> set name" "hd name \<noteq> CHR '' ''"
    and "v \<noteq> []" "CHR '';'' \<notin> set v" "CHR 34 \<notin> set v"
  shows "cookie_parse (name @ ''='' @ v) = [(name, percent_decode v)]"
proof -
  obtain a name' where n: "name = a # name'" using assms(1) by (cases name) auto
  obtain b v' where v: "v = b # v'" using assms(5) by (cases v) auto
  let ?s = "name @ ''='' @ v"
  have b: "b \<noteq> CHR '';''" "b \<noteq> CHR 34" using assms(6,7) v by auto
  have a: "a \<noteq> CHR '';''" "a \<noteq> CHR ''=''" "a \<noteq> CHR '' ''" using assms(2,3,4) n by auto
  have "cookie_loop ?s 0 ?s None None None [] =
      cookie_loop ?s (length name) (CHR ''='' # v) (Some 0) None None []"
    using a assms(2,3) cookie_loop_name [of name' ?s 1 "CHR ''='' # v" 0] by (simp add: n)
  also have "\<dots> = cookie_loop ?s (length name + 2) v' (Some 0) (Some (length name))
      (Some (length name + 1)) []"
    using b by (simp add: v)
  also have "\<dots> = (Some 0, Some (length name), Some (length name + 1), [])"
    using assms(6,7) cookie_loop_value [of v' ?s "length name + 2" "[]"] by (simp add: v)
  finally show ?thesis
    using assms(5,7) last_in_set [of v] by (auto simp: cookie_parse_def substr_def substr_from_def)
qed

section \<open>Properties\<close>

text \<open>
  C27: A request line with header fields that are well formed is parsed back into its
  method, path, query string, version and fields, in order, and what follows the
  empty line is left in the stream.
\<close>

theorem request_roundtrip:
  assumes "CHR '' '' \<notin> set m" "CHR 10 \<notin> set m" "plain_target p" "plain_target qs"
    and "CHR 10 \<notin> set v" "\<forall>f \<in> set fs. plain_field f"
  shows "request_parse (request_line m p qs v @ [CHR 10] @ header_text fs @ [CHR 13, CHR 10] @ r, True) h =
    Some (True, h\<lparr>req_method := m, req_path := p,
      req_query_string := (if qs = [] then req_query_string h else qs),
      req_http_version := v, req_header := fs\<rparr>, (r, True))"
  using assms by (rule request_parse_plain)

theorem request_roundtrip_witness:
  "\<exists>h. request_parse (request_line ''GET'' ''/RoSA/sensor'' ''a=b'' ''1.1'' @ [CHR 10] @
      header_text [(''Cookie'', ''sessionId=1'')] @ [CHR 13, CHR 10], True)
      \<lparr>req_method = [], req_path = [], req_query_string = [], req_http_version = [], req_header = []\<rparr> =
    Some (True, h, ([], True)) \<and> req_header h = [(''Cookie'', ''sessionId=1'')]"
  using request_roundtrip [of "''GET''" "''/RoSA/sensor''" "''a=b''" "''1.1''" "[(''Cookie'', ''sessionId=1'')]" "[]"
      "\<lparr>req_method = [], req_path = [], req_query_string = [], req_http_version = [], req_header = []\<rparr>"]
  by (simp add: plain_target_def plain_field_def)

text \<open>
  C28: A query string made from a map of fields, in whatever order the unordered map
  is visited, is parsed back into the same fields, when the names are not empty
  and have no separator (names are not percent-encoded).
\<close>

theorem query_string_roundtrip:
  assumes "legal_order iter" "\<forall>f \<in> set m. plain_key (fst f)"
  shows "query_parse (query_create iter m) = iter m \<and> mset (query_parse (query_create iter m)) = mset m"
proof -
  have "mset (iter m) = mset m" using assms(1) by (simp add: legal_order_def)
  then have "\<forall>f \<in> set (iter m). plain_key (fst f)" using assms(2) by (metis set_mset_mset)
  then show ?thesis
    using query_roundtrip assms(1) by (simp add: query_create_def legal_order_def)
qed

theorem query_string_roundtrip_witness:
  "query_parse (query_create rev [(''address'', ''::1''), (''threshold'', ''50%'')]) =
     [(''threshold'', ''50%''), (''address'', ''::1'')]"
  using query_string_roundtrip [of rev "[(''address'', ''::1''), (''threshold'', ''50%'')]"]
  by (simp add: legal_order_def plain_key_def)

text \<open>
  After well-formed fields the header parser runs into a last line without a
  newline: it never returns when that line has a colon, and returns the fields
  otherwise.
\<close>

lemma header_parse_last_line:
  assumes "\<forall>f \<in> set fs. plain_field f" "CHR 10 \<notin> set l"
  shows "header_parse (header_text fs @ l, True) =
    (if CHR '':'' \<in> set l then None else Some (fs, ([], False)))"
  using header_loop_last_line [OF assms, of "[]" "[]"] by (simp add: header_parse_def)

text \<open>A block of well-formed header fields is parsed back into the same fields, in order.\<close>

lemma header_block_roundtrip:
  assumes "\<forall>f \<in> set fs. plain_field f"
  shows "header_parse (header_text fs @ [CHR 13, CHR 10] @ r, True) = Some (fs, (r, True))"
  using assms by (rule header_roundtrip)

end
