(* ===== verification/StatusCode.thy ===== *)
theory StatusCode
  imports Float32 HttpText
begin

text \<open>
  \<open>status_code.hpp\<close>: the enumeration of the HTTP status codes with the numbers
  that C++ gives its enumerators, the table of reason strings (a \<open>std::map\<close>
  keyed by the enumerator, so ordered by its number) and the two lookups.
\<close>

datatype (plugins only: size) StatusCode =
    unknown
  | information_continue
  | information_switching_protocols
  | information_processing
  | success_ok
  | success_created
  | success_accepted
  | success_non_authoritative_information
  | success_no_content
  | success_reset_content
  | success_partial_content
  | success_multi_status
  | success_already_reported
  | success_im_used
  | redirection_multiple_choices
  | redirection_moved_permanently
  | redirection_found
  | redirection_see_other
  | redirection_not_modified
  | redirection_use_proxy
  | redirection_switch_proxy
  | redirection_temporary_redirect
  | redirection_permanent_redirect
  | client_error_bad_request
  | client_error_unauthorized
  | client_error_payment_required
  | client_error_forbidden
  | client_error_not_found
  | client_error_method_not_allowed
  | client_error_not_acceptable
  | client_error_proxy_authentication_required
  | client_error_request_timeout
  | client_error_conflict
  | client_error_gone
  | client_error_length_required
  | client_error_precondition_failed
  | client_error_payload_too_large
  | client_error_uri_too_long
  | client_error_unsupported_media_type
  | client_error_range_not_satisfiable
  | client_error_expectation_failed
  | client_error_im_a_teapot
  | client_error_misdirection_required
  | client_error_unprocessable_entity
  | client_error_locked
  | client_error_failed_dependency
  | client_error_upgrade_required
  | client_error_precondition_required
  | client_error_too_many_requests
  | client_error_request_header_fields_too_large
  | client_error_unavailable_for_legal_reasons
  | server_error_internal_server_error
  | server_error_not_implemented
  | server_error_bad_gateway
  | server_error_service_unavailable
  | server_error_gateway_timeout
  | server_error_http_version_not_supported
  | server_error_variant_also_negotiates
  | server_error_insufficient_storage
  | server_error_loop_detected
  | server_error_not_extended
  | server_error_network_authentication_required

text \<open>An enumerator without a value is one more than the one before it.\<close>

primrec status_value :: "StatusCode \<Rightarrow> nat" where
  "status_value unknown = 0"
| "status_value information_continue = 100"
| "status_value information_switching_protocols = 101"
| "status_value information_processing = 102"
| "status_value success_ok = 200"
| "status_value success_created = 201"
| "status_value success_accepted = 202"
| "status_value success_non_authoritative_information = 203"
| "status_value success_no_content = 204"
| "status_value success_reset_content = 205"
| "status_value success_partial_content = 206"
| "status_value success_multi_status = 207"
| "status_value success_already_reported = 208"
| "status_value success_im_used = 226"
| "status_value redirection_multiple_choices = 300"
| "status_value redirection_moved_permanently = 301"
| "status_value redirection_found = 302"
| "status_value redirection_see_other = 303"
| "status_value redirection_not_modified = 304"
| "status_value redirection_use_proxy = 305"
| "status_value redirection_switch_proxy = 306"
| "status_value redirection_temporary_redirect = 307"
| "status_value redirection_permanent_redirect = 308"
| "status_value client_error_bad_request = 400"
| "status_value client_error_unauthorized = 401"
| "status_value client_error_payment_required = 402"
| "status_value client_error_forbidden = 403"
| "status_value client_error_not_found = 404"
| "status_value client_error_method_not_allowed = 405"
| "status_value client_error_not_acceptable = 406"
| "status_value client_error_proxy_authentication_required = 407"
| "status_value client_error_request_timeout = 408"
| "status_value client_error_conflict = 409"
| "status_value client_error_gone = 410"
| "status_value client_error_length_required = 411"
| "status_value client_error_precondition_failed = 412"
| "status_value client_error_payload_too_large = 413"
| "status_value client_error_uri_too_long = 414"
| "status_value client_error_unsupported_media_type = 415"
| "status_value client_error_range_not_satisfiable = 416"
| "status_value client_error_expectation_failed = 417"
| "status_value client_error_im_a_teapot = 418"
| "status_value client_error_misdirection_required = 421"
| "status_value client_error_unprocessable_entity = 422"
| "status_value client_error_locked = 423"
| "status_value client_error_failed_dependency = 424"
| "status_value client_error_upgrade_required = 426"
| "status_value client_error_precondition_required = 428"
| "status_value client_error_too_many_requests = 429"
| "status_value client_error_request_header_fields_too_large = 431"
| "status_value client_error_unavailable_for_legal_reasons = 451"
| "status_value server_error_internal_server_error = 500"
| "status_value server_error_not_implemented = 501"
| "status_value server_error_bad_gateway = 502"
| "status_value server_error_service_unavailable = 503"
| "status_value server_error_gateway_timeout = 504"
| "status_value server_error_http_version_not_supported = 505"
| "status_value server_error_variant_also_negotiates = 506"
| "status_value server_error_insufficient_storage = 507"
| "status_value server_error_loop_detected = 508"
| "status_value server_error_not_extended = 510"
| "status_value server_error_network_authentication_required = 511"

definition status_code_strings :: "(StatusCode \<times> string) list" where
  "status_code_strings = [
    (unknown, ''''),
    (information_continue, ''100 Continue''),
    (information_switching_protocols, ''101 Switching Protocols''),
    (information_processing, ''102 Processing''),
    (success_ok, ''200 OK''),
    (success_created, ''201 Created''),
    (success_accepted, ''202 Accepted''),
    (success_non_authoritative_information, ''203 Non-Authoritative Information''),
    (success_no_content, ''204 No Content''),
    (success_reset_content, ''205 Reset Content''),
    (success_partial_content, ''206 Partial Content''),
    (success_multi_status, ''207 Multi-Status''),
    (success_already_reported, ''208 Already Reported''),
    (success_im_used, ''226 IM Used''),
    (redirection_multiple_choices, ''300 Multiple Choices''),
    (redirection_moved_permanently, ''301 Moved Permanently''),
    (redirection_found, ''302 Found''),
    (redirection_see_other, ''303 See Other''),
    (redirection_not_modified, ''304 Not Modified''),
    (redirection_use_proxy, ''305 Use Proxy''),
    (redirection_switch_proxy, ''306 Switch Proxy''),
    (redirection_temporary_redirect, ''307 Temporary Redirect''),
    (redirection_permanent_redirect, ''308 Permanent Redirect''),
    (client_error_bad_request, ''400 Bad Request''),
    (client_error_unauthorized, ''401 Unauthorized''),
    (client_error_payment_required, ''402 Payment Required''),
    (client_error_forbidden, ''403 Forbidden''),
    (client_error_not_found, ''404 Not Found''),
    (client_error_method_not_allowed, ''405 Method Not Allowed''),
    (client_error_not_acceptable, ''406 Not Acceptable''),
    (client_error_proxy_authentication_required, ''407 Proxy Authentication Required''),
    (client_error_request_timeout, ''408 Request Timeout''),
    (client_error_conflict, ''409 Conflict''),
    (client_error_gone, ''410 Gone''),
    (client_error_length_required, ''411 Length Required''),
    (client_error_precondition_failed, ''412 Precondition Failed''),
    (client_error_payload_too_large, ''413 Payload Too Large''),
    (client_error_uri_too_long, ''414 URI Too Long''),
    (client_error_unsupported_media_type, ''415 Unsupported Media Type''),
    (client_error_range_not_satisfiable, ''416 Range Not Satisfiable''),
    (client_error_expectation_failed, ''417 Expectation Failed''),
    (client_error_im_a_teapot, ''418 I'm a teapot''),
    (client_error_misdirection_required, ''421 Misdirected Request''),
    (client_error_unprocessable_entity, ''422 Unprocessable Entity''),
    (client_error_locked, ''423 Locked''),
    (client_error_failed_dependency, ''424 Failed Dependency''),
    (client_error_upgrade_required, ''426 Upgrade Required''),
    (client_error_precondition_required, ''428 Precondition Required''),
    (client_error_too_many_requests, ''429 Too Many Requests''),
    (client_error_request_header_fields_too_large, ''431 Request Header Fields Too Large''),
    (client_error_unavailable_for_legal_reasons, ''451 Unavailable For Legal Reasons''),
    (server_error_internal_server_error, ''500 Internal Server Error''),
    (server_error_not_implemented, ''501 Not Implemented''),
    (server_error_bad_gateway, ''502 Bad Gateway''),
    (server_error_service_unavailable, ''503 Service Unavailable''),
    (server_error_gateway_timeout, ''504 Gateway Timeout''),
    (server_error_http_version_not_supported, ''505 HTTP Version Not Supported''),
    (server_error_variant_also_negotiates, ''506 Variant Also Negotiates''),
    (server_error_insufficient_storage, ''507 Insufficient Storage''),
    (server_error_loop_detected, ''508 Loop Detected''),
    (server_error_not_extended, ''510 Not Extended''),
    (server_error_network_authentication_required, ''511 Network Authentication Required'')]"

text \<open>The enumerator with a given number.\<close>

definition status_of_value :: "nat \<Rightarrow> StatusCode option" where
  "status_of_value n = map_of (map (\<lambda>(c, _). (status_value c, c)) status_code_strings) n"

lemma status_of_value_inverse: "status_of_value (status_value c) = Some c"
  by (cases c) (simp_all add: status_of_value_def status_code_strings_def)

lemma status_value_inject: "status_value a = status_value b \<Longrightarrow> a = b"
  by (metis status_of_value_inverse option.inject)

instantiation StatusCode :: linorder
begin

definition less_eq_StatusCode :: "StatusCode \<Rightarrow> StatusCode \<Rightarrow> bool" where
  "less_eq_StatusCode a b \<longleftrightarrow> status_value a \<le> status_value b"

definition less_StatusCode :: "StatusCode \<Rightarrow> StatusCode \<Rightarrow> bool" where
  "less_StatusCode a b \<longleftrightarrow> status_value a < status_value b"

instance
proof
  fix x y :: StatusCode
  show "x \<le> y \<Longrightarrow> y \<le> x \<Longrightarrow> x = y"
    by (simp add: less_eq_StatusCode_def status_value_inject)
qed (auto simp: less_eq_StatusCode_def less_StatusCode_def)

end

instantiation StatusCode :: equal
begin

definition equal_StatusCode :: "StatusCode \<Rightarrow> StatusCode \<Rightarrow> bool" where
  "equal_StatusCode a b \<longleftrightarrow> status_value a = status_value b"

instance
  by standard (auto simp: equal_StatusCode_def status_value_inject)

end

definition status_code_of_string :: "string \<Rightarrow> StatusCode" where
  "status_code_of_string status_code_string =
     (let string_to_status_code = map (\<lambda>(c, str). (str, c)) status_code_strings
      in case map_of string_to_status_code status_code_string of
           None \<Rightarrow> unknown | Some c \<Rightarrow> c)"

definition status_code_to_string :: "StatusCode \<Rightarrow> string" where
  "status_code_to_string status_code_enum =
     (case om_find status_code_enum status_code_strings of None \<Rightarrow> [] | Some str \<Rightarrow> str)"

text \<open>The number that a reason string begins with, for every entry of the table.\<close>

definition status_number :: "string \<Rightarrow> nat" where
  "status_number str = number 10 (takeWhile is_digit str)"

lemma is_digit_eval:
  "is_digit (CHR '' '') = False" "is_digit (CHR ''0'')" "is_digit (CHR ''1'')" "is_digit (CHR ''2'')"
  "is_digit (CHR ''3'')" "is_digit (CHR ''4'')" "is_digit (CHR ''5'')" "is_digit (CHR ''6'')"
  "is_digit (CHR ''7'')" "is_digit (CHR ''8'')" "is_digit (CHR ''9'')"
  by (simp_all add: is_digit_def)

lemma hex_value_eval:
  "hex_value (CHR ''0'') = Some 0" "hex_value (CHR ''1'') = Some 1" "hex_value (CHR ''2'') = Some 2"
  "hex_value (CHR ''3'') = Some 3" "hex_value (CHR ''4'') = Some 4" "hex_value (CHR ''5'') = Some 5"
  "hex_value (CHR ''6'') = Some 6" "hex_value (CHR ''7'') = Some 7" "hex_value (CHR ''8'') = Some 8"
  "hex_value (CHR ''9'') = Some 9"
  by (simp_all add: hex_value_def to_lower_def)

lemma status_numbers:
  "list_all (\<lambda>(c, str). status_number str = status_value c) status_code_strings"
  by (simp add: status_code_strings_def status_number_def number_def is_digit_eval hex_value_eval)

lemma status_number_entry:
  "(c, str) \<in> set status_code_strings \<Longrightarrow> status_number str = status_value c"
  using status_numbers by (auto simp: list_all_iff)

lemma status_values_sorted: "sorted_wrt (<) (map (\<lambda>p. status_value (fst p)) status_code_strings)"
  by (simp add: status_code_strings_def sorted_wrt2 sorted_wrt1 transp_on_less del: sorted_wrt.simps(2))

text \<open>The table is in the order of the enumerators, so it is the \<open>std::map\<close> it initialises.\<close>

lemma status_code_strings_ordered: "ordered status_code_strings"
  using status_values_sorted by (simp add: ordered_def sorted_wrt_map less_StatusCode_def)

lemma status_code_has_entry: "\<exists>str. (c, str) \<in> set status_code_strings"
  using map_of_SomeD [OF status_of_value_inverse [of c, unfolded status_of_value_def]] by auto

lemma status_code_to_string_entry: "(c, status_code_to_string c) \<in> set status_code_strings"
proof -
  obtain str where str: "(c, str) \<in> set status_code_strings" using status_code_has_entry by blast
  then have "om_find c status_code_strings = Some str"
    using om_find_iff [OF status_code_strings_ordered] by simp
  with str show ?thesis by (simp add: status_code_to_string_def)
qed

lemma status_string_number: "status_number (status_code_to_string c) = status_value c"
  using status_code_to_string_entry by (rule status_number_entry)

lemma status_code_roundtrip: "status_code_of_string (status_code_to_string c) = c"
proof -
  let ?m = "map (\<lambda>(c, str). (str, c)) status_code_strings"
  have "(status_code_to_string c, c) \<in> set ?m"
    using status_code_to_string_entry [of c] by (force simp: image_iff)
  then have "map_of ?m (status_code_to_string c) \<noteq> None"
    by (metis weak_map_of_SomeI not_None_eq)
  then obtain c' where c': "map_of ?m (status_code_to_string c) = Some c'" by blast
  then have "(c', status_code_to_string c) \<in> set status_code_strings"
    by (auto dest: map_of_SomeD)
  then have "status_value c' = status_value c"
    using status_number_entry status_string_number by metis
  then show ?thesis
    using c' status_value_inject by (simp add: status_code_of_string_def Let_def)
qed

text \<open>
  Every status code has a line in the table: the line begins with the number of
  the code, and looking the line up gives the code back.
\<close>

lemma status_code_lines:
  "status_code_of_string (status_code_to_string c) = c \<and>
   status_number (status_code_to_string c) = status_value c \<and>
   (c, status_code_to_string c) \<in> set status_code_strings"
  by (simp add: status_code_roundtrip status_string_number status_code_to_string_entry)

end
