(* ===== verification/HttpServer.thy ===== *)
theory HttpServer
  imports HttpCodec StatusCode
begin

text \<open>
  The parts of \<open>server_http.hpp\<close> that decide something: the text of a response, what
  happens when a request head or a chunk of a body has been read, the choice of
  the handler, and whether the connection is kept.  The asynchronous calls of
  \<open>boost::asio\<close> are the boundaries of the functions here: each function is the body
  of a completion handler and its result says what the handler starts next.  The
  theory HttpConnection puts the handlers together.
\<close>

section \<open>Responses\<close>

definition CRLF :: string where
  "CRLF = [CHR 13, CHR 10]"

text \<open>The loop of \<open>write_header\<close>, with its two flags.\<close>

fun header_lines :: "fields \<Rightarrow> bool \<Rightarrow> bool \<Rightarrow> string \<times> bool \<times> bool" where
  "header_lines [] content_length_written chunked = ([], content_length_written, chunked)"
| "header_lines ((name, value) # fs) content_length_written chunked =
     (let (content_length_written, chunked) =
        (if \<not> content_length_written \<and> case_insensitive_equal name ''content-length''
         then (True, chunked)
         else if \<not> chunked \<and> case_insensitive_equal name ''transfer-encoding'' \<and>
                 case_insensitive_equal value ''chunked''
         then (content_length_written, True)
         else (content_length_written, chunked));
        (ls, r) = header_lines fs content_length_written chunked
      in (name @ '': '' @ value @ CRLF @ ls, r))"

definition write_header :: "(fields \<Rightarrow> fields) \<Rightarrow> bool \<Rightarrow> fields \<Rightarrow> nat \<Rightarrow> string" where
  "write_header iter close_connection header sz =
     (let (ls, content_length_written, chunked) = header_lines (iter header) False False
      in ls @ (if \<not> content_length_written \<and> \<not> chunked \<and> \<not> close_connection
               then ''Content-Length: '' @ show_nat sz @ CRLF @ CRLF else CRLF))"

definition status_line :: "StatusCode \<Rightarrow> string" where
  "status_line c = ''HTTP/1.1 '' @ status_code_to_string c @ CRLF"

text \<open>\<open>write (status, header)\<close>, \<open>write (status, content, header)\<close> and \<open>write (header)\<close>.\<close>

definition write_status :: "(fields \<Rightarrow> fields) \<Rightarrow> StatusCode \<Rightarrow> fields \<Rightarrow> string" where
  "write_status iter c header = status_line c @ write_header iter False header 0"

definition write_content :: "(fields \<Rightarrow> fields) \<Rightarrow> StatusCode \<Rightarrow> string \<Rightarrow> fields \<Rightarrow> string" where
  "write_content iter c content header =
     status_line c @ write_header iter False header (length content) @ content"

text \<open>
  \<open>write (status, stream, header)\<close>: the size is that of the whole stream, which is then
  read from its beginning.  The overloads without a status write 200.
\<close>

definition write_stream :: "(fields \<Rightarrow> fields) \<Rightarrow> StatusCode \<Rightarrow> string \<Rightarrow> fields \<Rightarrow> string" where
  "write_stream iter c stream header =
     (let sz = length stream
      in status_line c @ write_header iter False header sz @ (if sz \<noteq> 0 then stream else []))"

definition write_ok :: "(fields \<Rightarrow> fields) \<Rightarrow> string \<Rightarrow> fields \<Rightarrow> string" where
  "write_ok iter content header = write_content iter success_ok content header"

definition write_stream_ok :: "(fields \<Rightarrow> fields) \<Rightarrow> string \<Rightarrow> fields \<Rightarrow> string" where
  "write_stream_ok iter stream header = write_stream iter success_ok stream header"

definition write_fields :: "(fields \<Rightarrow> fields) \<Rightarrow> fields \<Rightarrow> string" where
  "write_fields iter header = write_content iter success_ok [] header"

section \<open>Reading a request\<close>

text \<open>
  \<open>stoull\<close> and \<open>stoul (_, 0, 16)\<close> on 64 bits: a minus sign wraps around, what
  follows the digits is ignored.
\<close>

definition stoul_of :: "nat \<Rightarrow> string \<Rightarrow> string \<Rightarrow> exn + nat" where
  "stoul_of base name str =
     (let (neg, s) = sign_of (dropWhile is_space str);
          dig = (\<lambda>c. if base = 16 then is_hex c else is_digit c);
          s' = (if base = 16 \<and> starts_with_ci ''0x'' s \<and> takeWhile is_hex (drop 2 s) \<noteq> []
                then drop 2 s else s);
          ds = takeWhile dig s'; n = number base ds
      in if ds = [] then Inl (Invalid_argument name)
         else if 2 ^ 64 \<le> n then Inl (Out_of_range name)
         else Inr (if neg then (2 ^ 64 - n) mod 2 ^ 64 else n))"

definition stoull :: "string \<Rightarrow> exn + nat" where
  "stoull str = stoul_of 10 ''stoull'' str"

definition stoul16 :: "string \<Rightarrow> exn + nat" where
  "stoul16 str = stoul_of 16 ''stoul'' str"

datatype asio_error = No_error | Not_found | Other_error

datatype next_step =
    Payload_too_large
  | Protocol_error
  | Never_returns
  | Failed
  | Read_exactly nat
  | Read_chunked
  | Find_resource

text \<open>
  The handler that \<open>read\<close> passes to \<open>async_read_until\<close>, on the bytes \<open>buf\<close> of the
  request buffer of which \<open>bytes_transferred\<close> belong to the head; it gives the
  request and what is left in the buffer.
\<close>

definition read_head ::
  "(fields \<Rightarrow> fields) \<Rightarrow> nat \<Rightarrow> asio_error \<Rightarrow> nat \<Rightarrow> string \<Rightarrow> RequestHead \<Rightarrow>
   next_step \<times> RequestHead \<times> string" where
  "read_head iter max_size ec bytes_transferred buf r0 =
     (if ec \<noteq> Other_error \<and> length buf = max_size then (Payload_too_large, r0, buf)
      else if ec \<noteq> No_error then (Failed, r0, buf)
      else
        let num_additional_bytes = length buf - bytes_transferred in
        case request_parse (buf, True) r0 of
          None \<Rightarrow> (Never_returns, r0, buf)
        | Some (False, r, rest) \<Rightarrow> (Protocol_error, r, fst rest)
        | Some (True, r, rest) \<Rightarrow>
            (case mm_find iter ''Content-Length'' (req_header r) of
               Some v \<Rightarrow>
                 (case stoull v of
                    Inl e \<Rightarrow> Protocol_error
                  | Inr content_length \<Rightarrow>
                      if num_additional_bytes < content_length
                      then Read_exactly (content_length - num_additional_bytes)
                      else Find_resource)
             | None \<Rightarrow>
                 if mm_find iter ''Transfer-Encoding'' (req_header r) = Some ''chunked''
                 then Read_chunked else Find_resource,
             r, fst rest))"

text \<open>The handler of \<open>async_read\<close> for the rest of the content.\<close>

definition read_content :: "nat \<Rightarrow> asio_error \<Rightarrow> string \<Rightarrow> next_step" where
  "read_content max_size ec buf =
     (if ec \<noteq> No_error then Failed
      else if length buf = max_size then Payload_too_large
      else Find_resource)"

section \<open>Chunked bodies\<close>

text \<open>The number of bytes up to and including the first \<open>CRLF\<close>.\<close>

fun until_crlf :: "string \<Rightarrow> nat option" where
  "until_crlf (a # b # s) =
     (if a = CHR 13 \<and> b = CHR 10 then Some 2 else map_option Suc (until_crlf (b # s)))"
| "until_crlf s = None"

datatype chunk_result =
    Chunks_done string
  | Chunks_failed
  | Chunks_protocol_error
  | Chunks_too_large
  | Chunks_undefined
  | Chunks_bad_alloc

text \<open>
  The loop of the two functions for chunked bodies over all the bytes \<open>inp\<close> that
  arrive: the chunks go to \<open>acc\<close>, and after the last one they are appended to what
  is left in the request buffer.  A buffer takes no more than its limit, so its
  size is the limit as soon as that many bytes have been written.  Whether the request buffer itself
  reaches its limit depends on how the bytes arrive; that is in \<open>HttpConnection\<close>.  The size of the next read is computed modulo
  \<open>2^64\<close>; \<open>new char[length]\<close> throws when the length has the top bit set.
\<close>

function read_chunks :: "nat \<Rightarrow> string \<Rightarrow> string \<Rightarrow> chunk_result" where
  "read_chunks max_size inp acc =
     (case until_crlf inp of
        None \<Rightarrow> Chunks_failed
      | Some bytes_transferred \<Rightarrow>
         (case find_char (CHR 10) inp of
            None \<Rightarrow> Chunks_failed
          | Some nl \<Rightarrow>
              let line = take nl inp; rest = drop (nl + 1) inp in
              if line = [] then Chunks_undefined
              else case stoul16 (butlast line) of
                Inl e \<Rightarrow> Chunks_protocol_error
              | Inr len \<Rightarrow>
                  if length rest < (bytes_transferred - (nl + 1)) + (2 + len) mod 2 ^ 64 then Chunks_failed
                  else if 2 ^ 63 \<le> len then Chunks_bad_alloc
                  else if 0 < len \<and> max_size \<le> length (acc @ take len rest) then Chunks_too_large
                  else if 0 < len then read_chunks max_size (drop (len + 2) rest) (acc @ take len rest)
                  else Chunks_done (drop 2 rest @ acc)))"
  by pat_completeness auto
termination
proof (relation "measure (\<lambda>(max_size, inp, acc). length inp)", goal_cases)
  case (2 max_size inp acc bt nl line rest len)
  then have "nl < length inp" by (auto dest: find_char_split)
  with 2 show ?case by simp
qed simp

declare read_chunks.simps [simp del]

section \<open>Choice of the handler\<close>

text \<open>
  \<open>regex_match\<close> for the patterns of this program: a text of ordinary characters
  between \<open>^\<close> and \<open>$\<close> matches exactly itself.
\<close>

definition regex_match :: "string \<Rightarrow> string \<Rightarrow> bool" where
  "regex_match path pattern \<longleftrightarrow> pattern = ''^'' @ path @ ''$''"

type_synonym 'h resources = "(string, (string, 'h) omap) omap"

fun match_resource :: "string \<Rightarrow> string \<Rightarrow> 'h resources \<Rightarrow> 'h option" where
  "match_resource meth path [] = None"
| "match_resource meth path ((pattern, methods) # res) =
     (case om_find meth methods of
        Some h \<Rightarrow> if regex_match path pattern then Some h else match_resource meth path res
      | None \<Rightarrow> match_resource meth path res)"

definition find_resource :: "'h resources \<Rightarrow> (string, 'h) omap \<Rightarrow> RequestHead \<Rightarrow> 'h option" where
  "find_resource resource default_resource r =
     (case match_resource (req_method r) (req_path r) resource of
        Some h \<Rightarrow> Some h
      | None \<Rightarrow> om_find (req_method r) default_resource)"

text \<open>\<open>resource[pattern][method] = handler\<close>.\<close>

definition add_resource :: "string \<Rightarrow> string \<Rightarrow> 'h \<Rightarrow> 'h resources \<Rightarrow> 'h resources" where
  "add_resource pattern meth h res =
     (let res' = om_emplace pattern [] res;
          methods = (case om_find pattern res' of None \<Rightarrow> [] | Some ms \<Rightarrow> ms)
      in om_assign pattern (om_assign meth h (om_emplace meth h methods)) res')"

section \<open>After the response\<close>

fun connection_field :: "string list \<Rightarrow> bool option" where
  "connection_field [] = None"
| "connection_field (v # vs) =
     (if case_insensitive_equal v ''close'' then Some False
      else if case_insensitive_equal v ''keep-alive'' then Some True
      else connection_field vs)"

text \<open>Whether another request is read from the connection.\<close>

definition keep_connection :: "(fields \<Rightarrow> fields) \<Rightarrow> bool \<Rightarrow> bool \<Rightarrow> RequestHead \<Rightarrow> bool" where
  "keep_connection iter send_ok close_connection_after_response r =
     (send_ok \<and> \<not> close_connection_after_response \<and>
      (case connection_field (map snd (filter (\<lambda>f. case_insensitive_equal (fst f) ''Connection'')
              (iter (req_header r)))) of
         Some keep \<Rightarrow> keep
       | None \<Rightarrow> ''1.1'' \<le> req_http_version r))"

section \<open>What a client reads\<close>

lemma header_lines_text:
  assumes "\<forall>f \<in> set fs. \<not> case_insensitive_equal (fst f) ''content-length'' \<and>
    \<not> case_insensitive_equal (fst f) ''transfer-encoding''"
  shows "header_lines fs False False = (header_text fs, False, False)"
  using assms by (induction fs) (auto simp: header_text_def header_line_def CRLF_def)

lemma status_lines_one_line:
  "list_all (\<lambda>(c, str). CHR 10 \<notin> set str) status_code_strings"
  by (simp add: status_code_strings_def)

lemma status_line_one_line: "CHR 10 \<notin> set (status_code_to_string c)"
  using status_lines_one_line status_code_to_string_entry [of c] by (auto simp: list_all_iff)

lemma show_nat_plain: "CHR 10 \<notin> set (show_nat k)" "show_nat k \<noteq> []" "hd (show_nat k) \<noteq> CHR '' ''"
proof -
  note d = number_show_nat [of k]
  then show "show_nat k \<noteq> []" by simp
  then have "hd (show_nat k) \<in> set (show_nat k)" by simp
  then have "is_digit (hd (show_nat k))" using d by (simp add: list_all_iff)
  then show "hd (show_nat k) \<noteq> CHR '' ''" by (auto simp: is_digit_def)
  show "CHR 10 \<notin> set (show_nat k)" using d by (auto simp: list_all_iff is_digit_def)
qed

lemma parse_status_line:
  assumes "CHR 10 \<notin> set st"
  shows "response_parse (''HTTP/1.1 '' @ st @ [CHR 13, CHR 10] @ inp, True) h =
    map_option (\<lambda>(hdr, s). (True, h\<lparr>resp_version := ''1.1'', resp_status_code := st, resp_header := hdr\<rparr>, s))
      (header_parse (inp, True))"
proof -
  let ?l = "''HTTP/1.1 '' @ st @ [CHR 13]"
  have "getline [] (?l @ CHR 10 # inp, True) = (?l, (inp, True))"
    using assms by (intro getline_line) auto
  then have "getline [] (''HTTP/1.1 '' @ st @ [CHR 13, CHR 10] @ inp, True) = (?l, (inp, True))" by simp
  moreover have "find_char (CHR '' '') ?l = Some 8" by simp
  ultimately show ?thesis
    unfolding response_parse_def by (simp add: Let_def substr_def option.map_comp comp_def)
qed

section \<open>Chunk sizes\<close>

fun show_hex :: "nat \<Rightarrow> string" where
  "show_hex n = (if n < 16 then [hex_chars ! n] else show_hex (n div 16) @ [hex_chars ! (n mod 16)])"

declare show_hex.simps [simp del]

lemma number_show_hex:
  "number 16 (show_hex n) = n \<and> list_all is_hex (show_hex n) \<and> show_hex n \<noteq> []"
proof (induction n rule: show_hex.induct)
  case (1 n)
  have one: "number 16 [hex_chars ! d] = d \<and> is_hex (hex_chars ! d)" if "d < 16" for d
    using hex_char_cases [OF that] by (simp add: number_def is_hex_def)
  show ?case
  proof (cases "n < 16")
    case False
    then show ?thesis
      using 1 one [of "n mod 16"]
      by (subst (1 2 3) show_hex.simps) (simp add: number_append)
  qed (use one in \<open>simp add: show_hex.simps\<close>)
qed

lemma hex_facts:
  assumes "is_hex c"
  shows "\<not> is_space c" "c \<noteq> CHR ''-''" "c \<noteq> CHR ''+''" "c \<noteq> CHR 10" "c \<noteq> CHR 13"
    "to_lower c \<noteq> CHR ''x''"
  using assms by (auto simp: is_hex_def hex_value_def is_space_def to_lower_def Let_def split: if_splits)

lemma stoul16_show_hex: "n < 2 ^ 64 \<Longrightarrow> stoul16 (show_hex n) = Inr n"
proof -
  assume n: "n < 2 ^ 64"
  note h = number_show_hex [of n]
  obtain c cs where c: "show_hex n = c # cs" "is_hex c" using h by (cases "show_hex n") auto
  have "\<not> starts_with_ci ''0x'' (show_hex n)"
    using h hex_facts(6) by (cases cs) (auto simp: c starts_with_ci_def)
  moreover have tw: "takeWhile is_hex (show_hex n) = show_hex n"
    using h by (simp add: list_all_iff takeWhile_eq_all_conv)
  moreover have "sign_of (dropWhile is_space (show_hex n)) = (False, show_hex n)"
    using hex_facts [OF c(2)] by (simp add: c)
  ultimately show ?thesis
    using h n by (simp add: stoul16_def stoul_of_def tw Let_def)
qed

text \<open>A chunk as RFC 7230 writes it, and a body made of chunks.\<close>

definition chunk_text :: "string \<Rightarrow> string" where
  "chunk_text w = show_hex (length w) @ CRLF @ w @ CRLF"

definition chunked_body :: "string list \<Rightarrow> string" where
  "chunked_body ws = concat (map chunk_text ws) @ ''0'' @ CRLF @ CRLF"

lemma until_crlf_line:
  "CHR 13 \<notin> set w \<Longrightarrow> until_crlf (w @ CHR 13 # CHR 10 # s) = Some (length w + 2)"
proof (induction w)
  case (Cons a w)
  then show ?case by (cases "w @ CHR 13 # CHR 10 # s") auto
qed simp

lemma read_chunk:
  assumes "length w < 2 ^ 63" "length (acc @ w) < max_size"
  shows "read_chunks max_size (chunk_text w @ s) acc =
    (if w = [] then Chunks_done (s @ acc) else read_chunks max_size s (acc @ w))"
proof -
  let ?h = "show_hex (length w)" and ?inp = "chunk_text w @ s"
  have inp: "?inp = ?h @ CHR 13 # CHR 10 # w @ CRLF @ s" "?inp = (?h @ [CHR 13]) @ CHR 10 # w @ CRLF @ s"
    by (simp_all add: chunk_text_def CRLF_def)
  have h: "CHR 13 \<notin> set ?h" "CHR 10 \<notin> set ?h"
    using number_show_hex [of "length w"] hex_facts(4,5) by (auto simp: list_all_iff)
  have crlf: "until_crlf ?inp = Some (length ?h + 2)"
    unfolding inp(1) using h by (intro until_crlf_line)
  have nl: "find_char (CHR 10) ?inp = Some (length ?h + 1)"
    unfolding inp(2) using h find_char_append [of "CHR 10" "?h @ [CHR 13]"] by simp
  have parts: "take (length ?h + 1) ?inp = ?h @ [CHR 13]" "drop (length ?h + 1 + 1) ?inp = w @ CRLF @ s"
    unfolding inp(2) by simp_all
  have "stoul16 ?h = Inr (length w)" using assms(1) by (intro stoul16_show_hex) simp
  moreover have "(2 + length w) mod 2 ^ 64 = 2 + length w" using assms(1) by simp
  ultimately show ?thesis
    using assms crlf nl parts
    by (subst read_chunks.simps) (simp add: Let_def CRLF_def butlast_append)
qed

lemma read_chunks_body:
  assumes "\<forall>w \<in> set ws. w \<noteq> [] \<and> length w < 2 ^ 63" "length (acc @ concat ws) < max_size"
  shows "read_chunks max_size (chunked_body ws @ s) acc = Chunks_done (s @ acc @ concat ws)"
  using assms
proof (induction ws arbitrary: acc)
  case Nil
  have "chunked_body [] @ s = chunk_text [] @ s"
    by (simp add: chunked_body_def chunk_text_def show_hex.simps hex_chars_def)
  then show ?case using Nil read_chunk [of "[]" acc max_size s] by simp
next
  case (Cons w ws)
  have "chunked_body (w # ws) @ s = chunk_text w @ chunked_body ws @ s"
    by (simp add: chunked_body_def)
  then show ?case
    using Cons.IH [of "acc @ w"] Cons.prems read_chunk [of w acc max_size "chunked_body ws @ s"] by simp
qed

text \<open>A response with plain fields is read back.\<close>

lemma response_read_back_fields:
  assumes "\<forall>f \<in> set (iter header). plain_field f \<and>
    \<not> case_insensitive_equal (fst f) ''content-length'' \<and>
    \<not> case_insensitive_equal (fst f) ''transfer-encoding''"
  shows "response_parse (write_content iter c content header, True) h =
    Some (True, h\<lparr>resp_version := ''1.1'', resp_status_code := status_code_to_string c,
      resp_header := iter header @ [(''Content-Length'', show_nat (length content))]\<rparr>, (content, True))"
proof -
  let ?fs = "iter header @ [(''Content-Length'', show_nat (length content))]"
  have "write_content iter c content header =
      ''HTTP/1.1 '' @ status_code_to_string c @ [CHR 13, CHR 10] @
        header_text ?fs @ [CHR 13, CHR 10] @ content"
    using assms header_lines_text [of "iter header"]
    by (simp add: write_content_def status_line_def write_header_def header_text_def header_line_def CRLF_def)
  moreover have "\<forall>f \<in> set ?fs. plain_field f"
    using assms show_nat_plain by (auto simp: plain_field_def)
  ultimately show ?thesis
    using parse_status_line [OF status_line_one_line] header_roundtrip by simp
qed

section \<open>Properties\<close>

text \<open>
  C34: A client that parses the text of a response with content reads the version 1.1,
  the line of the status code, the given fields in the order of the map followed
  by the length of the content, and exactly the content behind the head; the overload
  that takes a stream writes the same text.
\<close>

theorem response_read_back:
  assumes "\<forall>f \<in> set (iter header). plain_field f \<and>
    \<not> case_insensitive_equal (fst f) ''content-length'' \<and>
    \<not> case_insensitive_equal (fst f) ''transfer-encoding''"
  shows "response_parse (write_content iter c content header, True) h =
    Some (True, h\<lparr>resp_version := ''1.1'', resp_status_code := status_code_to_string c,
      resp_header := iter header @ [(''Content-Length'', show_nat (length content))]\<rparr>, (content, True)) \<and>
    write_stream iter c content header = write_content iter c content header"
  using response_read_back_fields [where iter = iter and header = header, OF assms] by (simp add: write_stream_def write_content_def)

theorem response_read_back_witness:
  "\<exists>h. response_parse (write_content rev client_error_forbidden ''no'' [(''A'', ''b'')], True)
      \<lparr>resp_version = [], resp_status_code = [], resp_header = []\<rparr> = Some (True, h, (''no'', True)) \<and>
    resp_status_code h = status_code_to_string client_error_forbidden"
  using response_read_back [where iter = rev and header = "[(''A'', ''b'')]" and c = client_error_forbidden and
      content = "''no''" and h = "\<lparr>resp_version = [], resp_status_code = [], resp_header = []\<rparr>"]
  by (simp add: plain_field_def case_insensitive_equal_def)

text \<open>
  A chunk size of \<open>2^64 - 2\<close> passes the test of the length because the sum wraps
  around, whatever follows; the allocation of the chunk then throws outside every
  handler.
\<close>

lemma chunk_size_wraps:
  "read_chunks max_size (''fffffffffffffffe'' @ CRLF @ s) acc = Chunks_bad_alloc"
proof -
  let ?inp = "''fffffffffffffffe'' @ CHR 13 # CHR 10 # s"
  have "until_crlf ?inp = Some 18"
    using until_crlf_line [of "''fffffffffffffffe''" s] by simp
  moreover have "find_char (CHR 10) ?inp = Some 17"
    using find_char_append [of "CHR 10" "''fffffffffffffffe'' @ [CHR 13]" s] by simp
  moreover have "stoul16 ''fffffffffffffffe'' = Inr 18446744073709551614"
  proof -
    have h: "hex_value (CHR ''f'') = Some 15" "hex_value (CHR ''e'') = Some 14"
      by (simp_all add: hex_value_def to_lower_def)
    then have "is_hex (CHR ''f'')" "is_hex (CHR ''e'')" by (simp_all add: is_hex_def)
    with h show ?thesis
      by (simp add: stoul16_def stoul_of_def is_space_def starts_with_ci_def to_lower_def number_def)
  qed
  ultimately show ?thesis
    by (subst read_chunks.simps) (simp add: CRLF_def)
qed

end
