(* ===== verification/HttpConnection.thy ===== *)
theory HttpConnection
  imports HttpServer
begin

text \<open>
  A connection of the HTTP server, from \<open>server_http.hpp\<close>: the chain of the completion handlers that
  \<open>read\<close>, \<open>read_chunked_transfer_encoded\<close> and \<open>write\<close> pass to \<open>boost::asio\<close>.  The state
  holds the operation that the connection waits for, its timer, and the buffers;
  \<open>complete\<close> is the call of the handler when the operation has ended, with the bytes that
  have come.  \<open>completes\<close> is what the documentation of \<open>asio\<close> says about that call.
\<close>

section \<open>State\<close>

record Config =
  config_port :: "16 word"
  thread_pool_size :: nat
  timeout_request :: int
  timeout_content :: int
  max_request_streambuf_size :: nat
  config_address :: string
  reuse_address :: bool

definition new_Config :: "16 word \<Rightarrow> Config" where
  "new_Config p = \<lparr>config_port = p, thread_pool_size = 1, timeout_request = 5, timeout_content = 300,
     max_request_streambuf_size = 2 ^ 64 - 1, config_address = [], reuse_address = True\<rparr>"

text \<open>
  What a connection waits for: the head of a request, a number of bytes of its content, the
  line with the size of a chunk, a number of bytes of a chunk of the given size, or the end of
  a response, after which it may go on or not.  The last four are the end: no operation is
  left, the parser has not returned, the behaviour is undefined, or an exception has left \<open>run\<close>.
\<close>

datatype pending =
    Head_read
  | Content_read nat
  | Line_read
  | Chunk_read nat nat
  | Response_write string bool
  | Ended
  | Stuck
  | Undefined_reached
  | Exception_thrown

fun reading :: "pending \<Rightarrow> bool" where
  "reading Head_read = True"
| "reading (Content_read n) = True"
| "reading Line_read = True"
| "reading (Chunk_read len n) = True"
| "reading _ = False"

record Connection =
  timer :: "int option"
  socket_open :: bool
  awaiting :: pending
  request :: RequestHead
  streambuf :: string
  chunks_streambuf :: string
  delivered :: "string list"

definition close :: "Connection \<Rightarrow> Connection" where
  "close c = c\<lparr>socket_open := False\<rparr>"

definition set_timeout :: "int \<Rightarrow> Connection \<Rightarrow> Connection" where
  "set_timeout seconds c = c\<lparr>timer := (if seconds = 0 then None else Some seconds)\<rparr>"

definition cancel_timeout :: "Connection \<Rightarrow> Connection" where
  "cancel_timeout c = c\<lparr>timer := None\<rparr>"

definition new_Request :: RequestHead where
  "new_Request = \<lparr>req_method = [], req_path = [], req_query_string = [], req_http_version = [], req_header = []\<rparr>"

text \<open>A session is a request of its own, with a buffer of its own.\<close>

definition new_Session :: "Connection \<Rightarrow> Connection" where
  "new_Session c = c\<lparr>request := new_Request, streambuf := [], chunks_streambuf := []\<rparr>"

definition new_Connection :: Connection where
  "new_Connection = \<lparr>timer = None, socket_open = True, awaiting = Ended, request = new_Request,
     streambuf = [], chunks_streambuf = [], delivered = []\<rparr>"

section \<open>Starting an operation\<close>

definition send :: "Config \<Rightarrow> string \<Rightarrow> bool \<Rightarrow> Connection \<Rightarrow> Connection" where
  "send cfg txt final c = (set_timeout (timeout_content cfg) c)\<lparr>awaiting := Response_write txt final\<rparr>"

definition read :: "Config \<Rightarrow> Connection \<Rightarrow> Connection" where
  "read cfg c = (set_timeout (timeout_request cfg) c)\<lparr>awaiting := Head_read\<rparr>"

definition read_chunked_transfer_encoded :: "Config \<Rightarrow> Connection \<Rightarrow> Connection" where
  "read_chunked_transfer_encoded cfg c = (set_timeout (timeout_content cfg) c)\<lparr>awaiting := Line_read\<rparr>"

definition payload_too_large :: "Config \<Rightarrow> (fields \<Rightarrow> fields) \<Rightarrow> Connection \<Rightarrow> Connection" where
  "payload_too_large cfg iter c = send cfg (write_status iter client_error_payload_too_large []) True c"

text \<open>
  The handler of a request, with the text of the response that it leaves; \<open>None\<close>: there is
  no handler, and nothing is sent.  A handler here is the whole of \<open>find_resource\<close> and \<open>write\<close> up to the
  response, with the \<open>catch\<close> of \<open>std::exception\<close> in \<open>write\<close> (\<open>serve\<close> of WebServer has it), so that
  what it still throws is what that \<open>catch\<close> does not take.
\<close>

type_synonym 's handler = "RequestHead \<Rightarrow> string \<Rightarrow> ('s, string option) op"

definition dispatch :: "Config \<Rightarrow> 's handler \<Rightarrow> Connection \<times> 's \<Rightarrow> Connection \<times> 's" where
  "dispatch cfg h = (\<lambda>(c, s).
     case h (request c) (streambuf c) s of
       (Return None, s') \<Rightarrow> (c\<lparr>awaiting := Ended\<rparr>, s')
     | (Return (Some txt), s') \<Rightarrow> (send cfg txt False (set_timeout (timeout_content cfg) c), s')
     | (Throw e, s') \<Rightarrow> (c\<lparr>awaiting := Exception_thrown\<rparr>, s')
     | (Undefined, s') \<Rightarrow> (c\<lparr>awaiting := Undefined_reached\<rparr>, s'))"

section \<open>The handlers\<close>

fun proceed :: "Config \<Rightarrow> (fields \<Rightarrow> fields) \<Rightarrow> 's handler \<Rightarrow> next_step \<Rightarrow>
    Connection \<times> 's \<Rightarrow> Connection \<times> 's" where
  "proceed cfg iter h Payload_too_large (c, s) = (payload_too_large cfg iter c, s)"
| "proceed cfg iter h Protocol_error (c, s) = (c\<lparr>awaiting := Ended\<rparr>, s)"
| "proceed cfg iter h Never_returns (c, s) = (c\<lparr>awaiting := Stuck\<rparr>, s)"
| "proceed cfg iter h Failed (c, s) = (c\<lparr>awaiting := Ended\<rparr>, s)"
| "proceed cfg iter h (Read_exactly n) (c, s) =
     ((set_timeout (timeout_content cfg) c)\<lparr>awaiting := Content_read n\<rparr>, s)"
| "proceed cfg iter h Read_chunked (c, s) =
     (read_chunked_transfer_encoded cfg (c\<lparr>chunks_streambuf := []\<rparr>), s)"
| "proceed cfg iter h Find_resource (c, s) = dispatch cfg h (c, s)"

text \<open>The number of bytes up to and including the first occurrence of a text.\<close>

fun until_text :: "string \<Rightarrow> string \<Rightarrow> nat option" where
  "until_text d [] = (if d = [] then Some 0 else None)"
| "until_text d (x # s) =
     (if take (length d) (x # s) = d then Some (length d) else map_option Suc (until_text d s))"

definition head_completed :: "Config \<Rightarrow> (fields \<Rightarrow> fields) \<Rightarrow> 's handler \<Rightarrow> asio_error \<Rightarrow>
    Connection \<times> 's \<Rightarrow> Connection \<times> 's" where
  "head_completed cfg iter h ec = (\<lambda>(c, s).
     let bytes_transferred = (case until_text (CRLF @ CRLF) (streambuf c) of None \<Rightarrow> 0 | Some k \<Rightarrow> k)
     in case read_head iter (max_request_streambuf_size cfg) ec bytes_transferred (streambuf c) (request c) of
          (next, r, rest) \<Rightarrow> proceed cfg iter h next (c\<lparr>request := r, streambuf := rest\<rparr>, s))"

text \<open>\<open>read_chunked_transfer_encoded_chunk\<close>: a chunk of the given size is in the buffer.\<close>

definition chunk_completed :: "Config \<Rightarrow> (fields \<Rightarrow> fields) \<Rightarrow> 's handler \<Rightarrow> nat \<Rightarrow>
    Connection \<times> 's \<Rightarrow> Connection \<times> 's" where
  "chunk_completed cfg iter h len = (\<lambda>(c, s).
     if 2 ^ 63 \<le> len then (c\<lparr>awaiting := Exception_thrown\<rparr>, s)
     else
       let c = c\<lparr>streambuf := drop len (streambuf c),
           chunks_streambuf := take (max_request_streambuf_size cfg) (chunks_streambuf c @ take len (streambuf c))\<rparr>
       in if 0 < len \<and> length (chunks_streambuf c) = max_request_streambuf_size cfg
          then (payload_too_large cfg iter c, s)
          else
            let c = c\<lparr>streambuf := drop 2 (streambuf c)\<rparr>
            in if 0 < len then (read_chunked_transfer_encoded cfg c, s)
               else dispatch cfg h (c\<lparr>streambuf := streambuf c @ chunks_streambuf c\<rparr>, s))"

definition line_completed :: "Config \<Rightarrow> (fields \<Rightarrow> fields) \<Rightarrow> 's handler \<Rightarrow> asio_error \<Rightarrow>
    Connection \<times> 's \<Rightarrow> Connection \<times> 's" where
  "line_completed cfg iter h ec = (\<lambda>(c, s).
     if ec \<noteq> Other_error \<and> length (streambuf c) = max_request_streambuf_size cfg
     then (payload_too_large cfg iter c, s)
     else if ec \<noteq> No_error then (c\<lparr>awaiting := Ended\<rparr>, s)
     else
       case getline [] (streambuf c, True) of (line, rest, good) \<Rightarrow>
       let bytes_transferred = (case until_crlf (streambuf c) of None \<Rightarrow> 0 | Some k \<Rightarrow> k) - (length line + 1);
           c = c\<lparr>streambuf := rest\<rparr>
       in if line = [] then (c\<lparr>awaiting := Undefined_reached\<rparr>, s)
          else (case stoul16 (butlast line) of
            Inl e \<Rightarrow> (c\<lparr>awaiting := Ended\<rparr>, s)
          | Inr len \<Rightarrow>
              let num_additional_bytes = length rest - bytes_transferred
              in if num_additional_bytes < (2 + len) mod 2 ^ 64
                 then ((set_timeout (timeout_content cfg) c)
                     \<lparr>awaiting := Chunk_read len ((2 + len) mod 2 ^ 64 - num_additional_bytes)\<rparr>, s)
                 else chunk_completed cfg iter h len (c, s)))"

definition chunk_read :: "Config \<Rightarrow> (fields \<Rightarrow> fields) \<Rightarrow> 's handler \<Rightarrow> nat \<Rightarrow> asio_error \<Rightarrow>
    Connection \<times> 's \<Rightarrow> Connection \<times> 's" where
  "chunk_read cfg iter h len ec = (\<lambda>(c, s).
     if ec \<noteq> No_error then (c\<lparr>awaiting := Ended\<rparr>, s)
     else if length (streambuf c) = max_request_streambuf_size cfg then (payload_too_large cfg iter c, s)
     else chunk_completed cfg iter h len (c, s))"

text \<open>The callbacks of \<open>send\<close>: none, or the one of \<open>write\<close> that may read the next request.\<close>

definition response_written :: "Config \<Rightarrow> (fields \<Rightarrow> fields) \<Rightarrow> bool \<Rightarrow> asio_error \<Rightarrow> Connection \<Rightarrow> Connection" where
  "response_written cfg iter final ec c =
     (if \<not> final \<and> keep_connection iter (ec = No_error) False (request c)
      then read cfg (new_Session c) else c\<lparr>awaiting := Ended\<rparr>)"

text \<open>
  The end of the pending operation: the bytes \<open>new\<close> have come, or the response has gone
  out; \<open>locked\<close> says that the scope runner has granted the lock.
\<close>

definition complete :: "Config \<Rightarrow> (fields \<Rightarrow> fields) \<Rightarrow> 's handler \<Rightarrow> bool \<Rightarrow> asio_error \<Rightarrow> string \<Rightarrow>
    Connection \<times> 's \<Rightarrow> Connection \<times> 's" where
  "complete cfg iter h locked ec new = (\<lambda>(c, s).
     let c = cancel_timeout (c\<lparr>streambuf := streambuf c @ new,
         delivered := delivered c @ (case awaiting c of Response_write txt final \<Rightarrow> if ec = No_error then [txt] else [] | _ \<Rightarrow> [])\<rparr>)
     in if \<not> locked then (c\<lparr>awaiting := Ended\<rparr>, s)
        else case awaiting c of
          Head_read \<Rightarrow> head_completed cfg iter h ec (c, s)
        | Content_read n \<Rightarrow>
            proceed cfg iter h (read_content (max_request_streambuf_size cfg) ec (streambuf c)) (c, s)
        | Line_read \<Rightarrow> line_completed cfg iter h ec (c, s)
        | Chunk_read len n \<Rightarrow> chunk_read cfg iter h len ec (c, s)
        | Response_write txt final \<Rightarrow> (response_written cfg iter final ec c, s)
        | _ \<Rightarrow> (c, s))"

text \<open>
  When \<open>asio\<close> may end an operation: \<open>async_read_until\<close> without an error when the
  delimiter has come and with \<open>not_found\<close> when the buffer is full, \<open>async_read\<close> without
  an error when all the bytes have come or the buffer is full.  A buffer never exceeds its limit.
\<close>

fun completes :: "nat \<Rightarrow> pending \<Rightarrow> asio_error \<Rightarrow> string \<Rightarrow> string \<Rightarrow> bool" where
  "completes max_size (Response_write txt final) ec buf new \<longleftrightarrow> ec \<noteq> Not_found \<and> new = []"
| "completes max_size p Other_error buf new \<longleftrightarrow> reading p \<and> length (buf @ new) \<le> max_size"
| "completes max_size Head_read ec buf new \<longleftrightarrow> length (buf @ new) \<le> max_size \<and>
     (if ec = No_error then until_text (CRLF @ CRLF) (buf @ new) \<noteq> None else length (buf @ new) = max_size)"
| "completes max_size Line_read ec buf new \<longleftrightarrow> length (buf @ new) \<le> max_size \<and>
     (if ec = No_error then until_crlf (buf @ new) \<noteq> None else length (buf @ new) = max_size)"
| "completes max_size (Content_read n) ec buf new \<longleftrightarrow> ec = No_error \<and> length (buf @ new) \<le> max_size \<and>
     (length new = n \<or> length (buf @ new) = max_size)"
| "completes max_size (Chunk_read len n) ec buf new \<longleftrightarrow> ec = No_error \<and> length (buf @ new) \<le> max_size \<and>
     (length new = n \<or> length (buf @ new) = max_size)"
| "completes max_size _ ec buf new \<longleftrightarrow> False"


section \<open>Delimiters\<close>

lemma until_text_append: "until_text d s = Some k \<Longrightarrow> until_text d (s @ r) = Some k"
proof (induction s arbitrary: k)
  case (Cons x s)
  show ?case
  proof (cases "take (length d) (x # s) = d")
    case True
    then have "length d \<le> length (x # s)" by (metis length_take min_def nle_le)
    then have "take (length d) (x # s @ r) = take (length d) (x # s)"
      using take_append [of "length d" "x # s" r] by simp
    with True Cons.prems show ?thesis by simp
  next
    case False
    then obtain j where j: "until_text d s = Some j" "k = Suc j" using Cons.prems by auto
    show ?thesis
    proof (cases "take (length d) (x # s @ r) = d")
      case True
      have "length d \<le> j" using j(1)
        by (induction s arbitrary: j) (force split: if_splits)+
      moreover have "j \<le> length s" using j(1)
        by (induction s arbitrary: j) (force split: if_splits)+
      ultimately have "take (length d) (x # s @ r) = take (length d) (x # s)"
        using take_append [of "length d" "x # s" r] by simp
      with True False show ?thesis by simp
    next
      case F: False
      then show ?thesis using Cons.IH [OF j(1)] j(2) by simp
    qed
  qed
qed (cases r; auto split: if_splits)

lemma until_crlf_append: "until_crlf s = Some k \<Longrightarrow> until_crlf (s @ r) = Some k"
  by (induction s arbitrary: k rule: until_crlf.induct) (auto split: if_splits)

text \<open>The blank line at the end of a head, which the parser of the fields needs.\<close>

lemma until_head_Cons:
  "until_text (CRLF @ CRLF) (x # s) =
     (if x = CHR 13 \<and> take 3 s = [CHR 10, CHR 13, CHR 10] then Some 4
      else map_option Suc (until_text (CRLF @ CRLF) s))"
  by (simp add: CRLF_def eval_nat_numeral)

declare until_text.simps(2) [simp del]

lemma last_line: "last (l @ CHR 10 # r) = CHR 10 \<Longrightarrow> r = [] \<or> last r = CHR 10"
  by (cases "r = []") auto

lemma until_blank_split:
  "until_text (CRLF @ CRLF) s = Some k \<Longrightarrow>
    \<exists>a b. s = a @ [CHR 13, CHR 10, CHR 13, CHR 10] @ b \<and> k = length a + 4"
proof (induction s arbitrary: k)
  case (Cons x s)
  show ?case
  proof (cases "x = CHR 13 \<and> take 3 s = [CHR 10, CHR 13, CHR 10]")
    case True
    then have "x # s = [] @ [CHR 13, CHR 10, CHR 13, CHR 10] @ drop 3 s"
      by (metis append_Cons append_Nil append_take_drop_id)
    moreover have "k = length ([] :: string) + 4" using True Cons.prems by (simp add: until_head_Cons)
    ultimately show ?thesis by blast
  next
    case False
    then obtain j where "until_text (CRLF @ CRLF) s = Some j" "k = Suc j"
      using Cons.prems by (auto simp: until_head_Cons)
    then show ?thesis using Cons.IH [of j] by (metis append_Cons length_Cons add_Suc)
  qed
qed (simp add: CRLF_def)

lemma header_loop_blank:
  assumes "inp = pre @ [CHR 13, CHR 10] @ b" "pre = [] \<or> last pre = CHR 10"
  shows "\<exists>hdr rest. header_loop line (inp, True) acc = Some (hdr, (rest, True))"
  using assms
proof (induction "length inp" arbitrary: inp pre line acc rule: less_induct)
  case less
  show ?case
  proof (cases "find_char (CHR '':'') line")
    case None
    then show ?thesis by (simp add: header_loop.simps [of line])
  next
    case (Some p)
    show ?thesis
    proof (cases "pre = []")
      case True
      have "find_char (CHR '':'') [CHR 13] = None" by simp
      then show ?thesis
        using Some True less.prems(1)
        by (simp add: header_loop.simps [of line] header_loop.simps [of "[CHR 13]"] getline_def)
    next
      case False
      then obtain l r where l: "pre = l @ CHR 10 # r" "CHR 10 \<notin> set l"
        using less.prems(2) by (metis last_in_set split_list_first)
      have "r = [] \<or> last r = CHR 10" using less.prems(2) l(1) last_line False by blast
      then obtain hdr rest where "header_loop l (r @ [CHR 13, CHR 10] @ b, True) (acc @ header_field line p) =
          Some (hdr, (rest, True))"
        using less.hyps [of "r @ [CHR 13, CHR 10] @ b" r l "acc @ header_field line p"] less.prems(1) l(1)
        by auto
      moreover have "getline line (inp, True) = (l, (r @ [CHR 13, CHR 10] @ b, True))"
        using getline_line [OF l(2), of line "r @ [CHR 13, CHR 10] @ b"] less.prems(1) l(1) by simp
      ultimately show ?thesis using Some by (simp add: header_loop.simps [of line])
    qed
  qed
qed

lemma request_parse_head:
  assumes "until_text (CRLF @ CRLF) buf \<noteq> None"
  shows "\<exists>b r rest. request_parse (buf, True) r0 = Some (b, r, (rest, True))"
proof -
  obtain a b where buf: "buf = a @ [CHR 13, CHR 10, CHR 13, CHR 10] @ b"
    using assms until_blank_split by blast
  then have "CHR 10 \<in> set (a @ [CHR 13, CHR 10])" by simp
  then obtain l r where l: "a @ [CHR 13, CHR 10] = l @ CHR 10 # r" "CHR 10 \<notin> set l"
    using split_list_first [of "CHR 10" "a @ [CHR 13, CHR 10]"] by blast
  have "last (l @ CHR 10 # r) = CHR 10" using arg_cong [OF l(1), of last] by simp
  then have "r = [] \<or> last r = CHR 10" by (rule last_line)
  then have "\<exists>hdr rest. header_parse (r @ [CHR 13, CHR 10] @ b, True) = Some (hdr, (rest, True))" if "r \<noteq> []"
  proof -
    have "CHR 10 \<in> set r" using \<open>r = [] \<or> last r = CHR 10\<close> that last_in_set [of r] by auto
    then obtain l' r' where l': "r = l' @ CHR 10 # r'" "CHR 10 \<notin> set l'"
      using split_list_first [of "CHR 10" r] by blast
    have "r' = [] \<or> last r' = CHR 10" using \<open>r = [] \<or> last r = CHR 10\<close> l'(1) that last_line by blast
    then show ?thesis
      using header_loop_blank [of "r' @ [CHR 13, CHR 10] @ b" r' b l' "[]"]
        getline_line [OF l'(2), of "[]" "r' @ [CHR 13, CHR 10] @ b"] l'(1)
      by (simp add: header_parse_def)
  qed
  moreover have "header_parse (r @ [CHR 13, CHR 10] @ b, True) = Some ([], (b, True))" if "r = []"
    using that by (simp add: header_parse_def getline_def header_loop.simps)
  moreover have "getline [] (buf, True) = (l, (r @ [CHR 13, CHR 10] @ b, True))"
  proof -
    have "buf = l @ CHR 10 # r @ [CHR 13, CHR 10] @ b"
      using buf l(1) by (metis append.assoc append_Cons append_Nil)
    then show ?thesis using getline_line [OF l(2)] by simp
  qed
  ultimately obtain hdr rest where g: "getline [] (buf, True) = (l, (r @ [CHR 13, CHR 10] @ b, True))"
      "header_parse (r @ [CHR 13, CHR 10] @ b, True) = Some (hdr, (rest, True))" by blast
  then show ?thesis
    by (auto simp: request_parse_def Let_def split: option.split prod.split)
qed

lemma until_head_line:
  "CHR 10 \<notin> set l \<Longrightarrow> until_text (CRLF @ CRLF) (l @ CHR 10 # r) =
     (if l \<noteq> [] \<and> last l = CHR 13 \<and> take 2 r = [CHR 13, CHR 10] then Some (length l + 3)
      else map_option ((+) (length l + 1)) (until_text (CRLF @ CRLF) r))"
proof (induction l)
  case (Cons a l)
  show ?case
  proof (cases l)
    case Nil
    then show ?thesis by (auto simp: until_head_Cons option.map_comp comp_def)
  next
    case (Cons b l')
    then show ?thesis using Cons.IH Cons.prems by (auto simp: until_head_Cons option.map_comp comp_def)
  qed
qed (cases "until_text (CRLF @ CRLF) r"; simp add: until_head_Cons)

lemma until_head_fields:
  assumes "\<forall>f \<in> set fs. plain_field f" "CHR 10 \<notin> set l" "l \<noteq> []" "last l = CHR 13"
  shows "until_text (CRLF @ CRLF) (l @ CHR 10 # header_text fs @ CRLF @ r) =
    Some (length (l @ CHR 10 # header_text fs @ CRLF))"
  using assms
proof (induction fs arbitrary: l)
  case Nil
  then show ?case using until_head_line [of l "CRLF @ r"] by (simp add: header_text_def CRLF_def)
next
  case (Cons f fs)
  let ?r = "header_text (f # fs) @ CRLF @ r"
  have f: "CHR 10 \<notin> set (header_line f)" "header_line f \<noteq> []" "last (header_line f) = CHR 13"
    using Cons.prems(1) by (auto simp: plain_field_def header_line_def)
  have r: "?r = header_line f @ CHR 10 # header_text fs @ CRLF @ r" by (simp add: header_text_def)
  have "take 2 ?r \<noteq> [CHR 13, CHR 10]"
    unfolding r using Cons.prems(1)
    by (cases f; cases "fst f" rule: until_crlf.cases) (auto simp: header_line_def plain_field_def)
  then show ?case
    using Cons.prems Cons.IH [OF _ f] by (simp add: until_head_line r) (simp add: header_text_def)
qed


end
