(* ===== verification/HttpService.thy ===== *)
theory HttpService
  imports HttpConnection
begin

text \<open>
  The server around its connections: \<open>ServerBase::start\<close>, \<open>accept\<close>, \<open>create_connection\<close>,
  the destruction of a connection, \<open>stop\<close>, and the destructor.  The server knows its connections by raw
  pointers only; the objects live as long as a completion handler holds them.  A step is the
  call of one handler or timer, the destruction of an object that nothing holds, \<open>stop\<close>, or the destructor.
\<close>

section \<open>State\<close>

text \<open>
  \<open>acceptor\<close> is a null pointer before \<open>start\<close>, then it is open or closed; \<open>accepting\<close> is the
  object that \<open>async_accept\<close> holds; \<open>handlers_stopped\<close> is the scope runner of the handlers after its
  \<open>stop\<close>; \<open>app\<close> is the state that the handlers of the requests change.
\<close>

record 'a Service =
  acceptor :: "bool option"
  io_running :: bool
  allocated :: nat
  accepting :: "nat option"
  objects :: "(nat, Connection) omap"
  connections :: "(nat, unit) omap"
  handlers_stopped :: bool
  app :: 'a

definition new_Service :: "'a \<Rightarrow> 'a Service" where
  "new_Service a = \<lparr>acceptor = None, io_running = False, allocated = 0, accepting = None,
     objects = [], connections = [], handlers_stopped = False, app = a\<rparr>"

section \<open>Operations\<close>

text \<open>A new object, at an address that is not in use.\<close>

definition create_connection :: "'a Service \<Rightarrow> nat \<times> 'a Service" where
  "create_connection s =
     (let k = allocated s
      in (k, s\<lparr>allocated := k + 1, objects := om_emplace k new_Connection (objects s),
             connections := om_emplace k () (connections s)\<rparr>))"

definition accept :: "'a Service \<Rightarrow> 'a Service" where
  "accept s = (let (k, s) = create_connection s in s\<lparr>accepting := Some k\<rparr>)"

text \<open>
  \<open>bind\<close> throws when the port cannot be had; \<open>bound\<close> says whether it can.  What
  \<open>run\<close> does after \<open>accept_and_run\<close> has started it are the steps below.
\<close>

definition bind :: "bool \<Rightarrow> ('a Service, unit) op" where
  "bind bound s =
     (let s = s\<lparr>acceptor := Some True\<rparr>
      in if bound then (Return (), s) else (Throw (Runtime_error ''bind''), s))"

definition accept_and_run :: "('a Service, unit) op" where
  "accept_and_run = change (\<lambda>s. (accept s)\<lparr>io_running := True\<rparr>)"

definition start :: "bool \<Rightarrow> ('a Service, unit) op" where
  "start bound = andthen (bind bound) (\<lambda>_. accept_and_run)"

datatype accept_error = Accepted | Aborted | Accept_failed

text \<open>The handler of \<open>async_accept\<close> for the object \<open>k\<close>.\<close>

definition accepted :: "Config \<Rightarrow> bool \<Rightarrow> accept_error \<Rightarrow> nat \<Rightarrow> 'a Service \<Rightarrow> 'a Service" where
  "accepted cfg locked ec k s =
     (let s = s\<lparr>accepting := None\<rparr>
      in if \<not> locked then s
         else
           let s = (if ec \<noteq> Aborted then accept s else s)
           in if ec = Accepted
              then (case om_find k (objects s) of
                  None \<Rightarrow> s
                | Some c \<Rightarrow> s\<lparr>objects := om_assign k (read cfg (new_Session c)) (objects s)\<rparr>)
              else s)"

text \<open>A completion handler or the timer of a connection.\<close>

definition connection_completed :: "Config \<Rightarrow> (fields \<Rightarrow> fields) \<Rightarrow> 'a handler \<Rightarrow> bool \<Rightarrow> asio_error \<Rightarrow>
    string \<Rightarrow> nat \<Rightarrow> Connection \<Rightarrow> 'a Service \<Rightarrow> 'a Service" where
  "connection_completed cfg iter h locked ec new k c s =
     (case complete cfg iter h locked ec new (c, app s) of
        (c', a) \<Rightarrow> s\<lparr>objects := om_assign k c' (objects s), app := a\<rparr>)"

definition timer_expired :: "nat \<Rightarrow> Connection \<Rightarrow> 'a Service \<Rightarrow> 'a Service" where
  "timer_expired k c s = s\<lparr>objects := om_assign k (close (c\<lparr>timer := None\<rparr>)) (objects s)\<rparr>"

text \<open>The deleter that \<open>create_connection\<close> gives to the pointer.\<close>

definition delete_connection :: "nat \<Rightarrow> 'a Service \<Rightarrow> 'a Service" where
  "delete_connection k s =
     s\<lparr>connections := om_erase k (connections s), objects := om_erase k (objects s)\<rparr>"

text \<open>The loop of \<open>stop\<close>: a pointer to an object that is gone must not be followed.\<close>

fun close_all :: "nat list \<Rightarrow> (nat, Connection) omap \<Rightarrow> (nat, Connection) omap option" where
  "close_all [] objs = Some objs"
| "close_all (k # ks) objs =
     (case om_find k objs of
        None \<Rightarrow> None
      | Some c \<Rightarrow> close_all ks (om_assign k (close c) objs))"

definition stop :: "('a Service, unit) op" where
  "stop s =
     (if acceptor s = None then (Return (), s)
      else case close_all (om_keys (connections s)) (objects s) of
             None \<Rightarrow> (Undefined, s\<lparr>acceptor := Some False\<rparr>)
           | Some objs \<Rightarrow>
               (Return (), s\<lparr>acceptor := Some False, objects := objs, connections := [], io_running := False\<rparr>))"

text \<open>The destructor: from now on no handler is granted the lock of the scope runner.\<close>

definition destroy_server :: "('a Service, unit) op" where
  "destroy_server s = stop (s\<lparr>handlers_stopped := True\<rparr>)"

section \<open>Steps\<close>

text \<open>
  A connection is held as long as it waits for an operation or to be accepted.  A handler is
  called when its operation may end; on a socket that is closed it ends with an error.
  \<open>allowed\<close> says what the handlers of the requests are.
\<close>

definition pending_operation :: "pending \<Rightarrow> bool" where
  "pending_operation p \<longleftrightarrow> reading p \<or> (case p of Response_write _ _ \<Rightarrow> True | _ \<Rightarrow> False)"

inductive service_event :: "Config \<Rightarrow> (fields \<Rightarrow> fields) \<Rightarrow> ('a handler \<Rightarrow> bool) \<Rightarrow> 'a Service \<Rightarrow> 'a Service \<Rightarrow> bool"
  for cfg iter allowed where
  accepted: "io_running s \<Longrightarrow> accepting s = Some k \<Longrightarrow>
     service_event cfg iter allowed s (accepted cfg (\<not> handlers_stopped s) ec k s)"
| completed: "io_running s \<Longrightarrow> om_find k (objects s) = Some c \<Longrightarrow> allowed h \<Longrightarrow>
     completes (max_request_streambuf_size cfg) (awaiting c) ec (streambuf c) new \<Longrightarrow>
     socket_open c \<or> ec = Other_error \<Longrightarrow>
     service_event cfg iter allowed s (connection_completed cfg iter h (\<not> handlers_stopped s) ec new k c s)"
| expired: "io_running s \<Longrightarrow> om_find k (objects s) = Some c \<Longrightarrow> timer c \<noteq> None \<Longrightarrow>
     service_event cfg iter allowed s (timer_expired k c s)"
| deleted: "om_find k (objects s) = Some c \<Longrightarrow> \<not> pending_operation (awaiting c) \<Longrightarrow> accepting s \<noteq> Some k \<Longrightarrow>
     service_event cfg iter allowed s (delete_connection k s)"

text \<open>The steps of the thread that runs the server, and those of the thread that stops it.\<close>

inductive service_step :: "Config \<Rightarrow> (fields \<Rightarrow> fields) \<Rightarrow> ('a handler \<Rightarrow> bool) \<Rightarrow> 'a Service \<Rightarrow> 'a Service \<Rightarrow> bool"
  for cfg iter allowed where
  event: "service_event cfg iter allowed s s' \<Longrightarrow> service_step cfg iter allowed s s'"
| stopped: "stop s = (Return (), s') \<Longrightarrow> service_step cfg iter allowed s s'"
| destroyed: "destroy_server s = (Return (), s') \<Longrightarrow> service_step cfg iter allowed s s'"

inductive service_reachable :: "Config \<Rightarrow> (fields \<Rightarrow> fields) \<Rightarrow> ('a handler \<Rightarrow> bool) \<Rightarrow> 'a \<Rightarrow> 'a Service \<Rightarrow> bool"
  for cfg iter allowed a where
  started: "start True (new_Service a) = (Return (), s) \<Longrightarrow> service_reachable cfg iter allowed a s"
| step: "service_reachable cfg iter allowed a s \<Longrightarrow> service_step cfg iter allowed s s' \<Longrightarrow>
     service_reachable cfg iter allowed a s'"


section \<open>A connection never waits without a limit\<close>

definition time_limit :: "Config \<Rightarrow> pending \<Rightarrow> int" where
  "time_limit cfg p = (if p = Head_read then timeout_request cfg else timeout_content cfg)"

definition connection_ok :: "Config \<Rightarrow> Connection \<Rightarrow> bool" where
  "connection_ok cfg c \<longleftrightarrow> awaiting c \<noteq> Stuck \<and>
     (pending_operation (awaiting c) \<longrightarrow> timer c = Some (time_limit cfg (awaiting c)) \<or> \<not> socket_open c)"

definition limited :: "Config \<Rightarrow> bool" where
  "limited cfg \<longleftrightarrow> timeout_request cfg \<noteq> 0 \<and> timeout_content cfg \<noteq> 0"

lemma connection_ok_started:
  assumes "limited cfg"
  shows "connection_ok cfg (read cfg c)" "connection_ok cfg (send cfg txt final c)"
    "connection_ok cfg (read_chunked_transfer_encoded cfg c)" "connection_ok cfg (payload_too_large cfg iter c)"
    "connection_ok cfg ((set_timeout (timeout_content cfg) c)\<lparr>awaiting := Content_read n\<rparr>)"
    "connection_ok cfg ((set_timeout (timeout_content cfg) c)\<lparr>awaiting := Chunk_read len n\<rparr>)"
    "connection_ok cfg (c\<lparr>awaiting := Ended\<rparr>)" "connection_ok cfg (c\<lparr>awaiting := Undefined_reached\<rparr>)"
    "connection_ok cfg (c\<lparr>awaiting := Exception_thrown\<rparr>)"
  using assms
  by (simp_all add: connection_ok_def limited_def time_limit_def read_def send_def set_timeout_def
      read_chunked_transfer_encoded_def payload_too_large_def pending_operation_def)

text \<open>Every handler leaves the connection so and keeps what the request handlers keep.\<close>

definition keeps_ok :: "Config \<Rightarrow> ('a \<Rightarrow> bool) \<Rightarrow> Connection \<times> 'a \<Rightarrow> bool" where
  "keeps_ok cfg I cs \<longleftrightarrow> connection_ok cfg (fst cs) \<and> I (snd cs)"

lemma completes_pending: "completes m p ec buf new \<Longrightarrow> pending_operation p"
  by (cases ec; cases p) (auto simp: pending_operation_def)

locale http_application =
  fixes allowed :: "'a handler \<Rightarrow> bool" and I :: "'a \<Rightarrow> bool"
  assumes handler_keeps: "allowed h \<Longrightarrow> keeps I (h r txt)"
begin

lemma dispatch_ok: "limited cfg \<Longrightarrow> allowed h \<Longrightarrow> I a \<Longrightarrow> keeps_ok cfg I (dispatch cfg h (c, a))"
  using keepsD [OF handler_keeps, of h a "request c" "streambuf c"] connection_ok_started [of cfg]
  by (auto simp: dispatch_def keeps_ok_def split: outcome.split option.split prod.split)

lemma proceed_ok:
  "limited cfg \<Longrightarrow> allowed h \<Longrightarrow> I a \<Longrightarrow> next \<noteq> Never_returns \<Longrightarrow> keeps_ok cfg I (proceed cfg iter h next (c, a))"
  using dispatch_ok connection_ok_started [of cfg] by (cases "next") (simp_all add: keeps_ok_def)

lemma chunk_completed_ok:
  "limited cfg \<Longrightarrow> allowed h \<Longrightarrow> I a \<Longrightarrow> keeps_ok cfg I (chunk_completed cfg iter h len (c, a))"
  using dispatch_ok connection_ok_started [of cfg] by (simp add: chunk_completed_def keeps_ok_def Let_def)

lemma line_completed_ok:
  "limited cfg \<Longrightarrow> allowed h \<Longrightarrow> I a \<Longrightarrow> keeps_ok cfg I (line_completed cfg iter h ec (c, a))"
  using chunk_completed_ok connection_ok_started [of cfg]
  by (auto simp: line_completed_def keeps_ok_def Let_def split: prod.split sum.split)

lemma head_completed_ok:
  assumes "limited cfg" "allowed h" "I a" "ec = No_error \<longrightarrow> until_text (CRLF @ CRLF) (streambuf c) \<noteq> None"
  shows "keeps_ok cfg I (head_completed cfg iter h ec (c, a))"
proof -
  have "fst (read_head iter m ec k (streambuf c) r) \<noteq> Never_returns" for m k r
    using assms(4) request_parse_head [of "streambuf c" r]
    by (auto simp: read_head_def Let_def split: option.split sum.split bool.split)
  then show ?thesis
    using proceed_ok [OF assms(1-3)] by (auto simp: head_completed_def Let_def split: prod.split) (metis fst_conv)
qed

lemma complete_ok:
  assumes "limited cfg" "allowed h" "I a" "completes (max_request_streambuf_size cfg) (awaiting c) ec (streambuf c) new"
  shows "keeps_ok cfg I (complete cfg iter h locked ec new (c, a))"
proof -
  note started = connection_ok_started [OF assms(1)]
  have "keeps_ok cfg I (response_written cfg iter final ec c', a)" for final c'
    using assms(3) started by (simp add: keeps_ok_def response_written_def)
  moreover have "keeps_ok cfg I (c'\<lparr>awaiting := Ended\<rparr>, a)" for c'
    using assms(3) started by (simp add: keeps_ok_def)
  moreover have "read_content m ec b \<noteq> Never_returns" for m b by (simp add: read_content_def)
  moreover have "keeps_ok cfg I (chunk_read cfg iter h len ec (c', a))" for len c'
    using assms(1-3) started chunk_completed_ok by (simp add: keeps_ok_def chunk_read_def)
  moreover have "ec = No_error \<longrightarrow> until_text (CRLF @ CRLF) (streambuf c @ new) \<noteq> None" if "awaiting c = Head_read"
    using assms(4) that by auto
  moreover have "pending_operation (awaiting c)" using assms(4) by (rule completes_pending)
  ultimately show ?thesis
    using assms proceed_ok [OF assms(1-3)] line_completed_ok [OF assms(1-3)] head_completed_ok [OF assms(1-3)]
    by (cases "awaiting c") (simp_all add: complete_def cancel_timeout_def pending_operation_def Let_def)
qed

end

section \<open>Pointers\<close>

text \<open>
  Every pointer of the server is to an object that lives, and while the service runs every
  object is known to the server.
\<close>

definition pointers_ok :: "'a Service \<Rightarrow> bool" where
  "pointers_ok s \<longleftrightarrow> ordered (objects s) \<and> ordered (connections s) \<and>
     set (om_keys (connections s)) \<subseteq> set (om_keys (objects s)) \<and>
     (\<forall>k \<in> set (om_keys (objects s)). k < allocated s) \<and>
     (\<forall>k. accepting s = Some k \<longrightarrow> k \<in> set (om_keys (objects s))) \<and>
     (io_running s \<longrightarrow> set (om_keys (objects s)) \<subseteq> set (om_keys (connections s)))"

definition all_connections_ok :: "Config \<Rightarrow> 'a Service \<Rightarrow> bool" where
  "all_connections_ok cfg s \<longleftrightarrow> (\<forall>k c. om_find k (objects s) = Some c \<longrightarrow> connection_ok cfg c)"

lemma om_keys_simps [simp]:
  "set (om_keys (om_emplace k v m)) = insert k (set (om_keys m))"
  "om_keys (om_assign k v m) = om_keys m"
  "set (om_keys (om_erase k m)) = set (om_keys m) - {k}"
  "om_keys [] = []"
  using om_emplace_keys [of k v m] by (auto simp: om_keys_def om_erase_def)

lemma close_all_closes:
  assumes "set ks \<subseteq> set (om_keys objs)"
  shows "\<exists>objs'. close_all ks objs = Some objs' \<and> om_keys objs' = om_keys objs \<and>
    (\<forall>k. om_find k objs' = (if k \<in> set ks then map_option close (om_find k objs) else om_find k objs))"
  using assms
proof (induction ks arbitrary: objs)
  case (Cons k ks)
  then obtain c where c: "om_find k objs = Some c" using om_find_keys [of k objs] by auto
  let ?objs = "om_assign k (close c) objs"
  obtain objs' where "close_all ks ?objs = Some objs'" "om_keys objs' = om_keys objs"
      "\<forall>k'. om_find k' objs' = (if k' \<in> set ks then map_option close (om_find k' ?objs) else om_find k' ?objs)"
    using Cons.IH [of ?objs] Cons.prems by auto
  then show ?case using c by (auto simp: om_find_assign close_def)
qed simp

lemma stop_defined:
  assumes "pointers_ok s" "acceptor s \<noteq> None"
  shows "\<exists>objs. stop s = (Return (), s\<lparr>acceptor := Some False, objects := objs, connections := [], io_running := False\<rparr>) \<and>
    om_keys objs = om_keys (objects s) \<and>
    (\<forall>k. om_find k objs = (if k \<in> set (om_keys (connections s)) then map_option close (om_find k (objects s))
       else om_find k (objects s)))"
proof -
  have "set (om_keys (connections s)) \<subseteq> set (om_keys (objects s))" using assms(1) by (simp add: pointers_ok_def)
  from close_all_closes [OF this] show ?thesis using assms(2) by (auto simp: stop_def)
qed

lemma pointers_accept: "pointers_ok s \<Longrightarrow> pointers_ok (accept s)"
  by (auto simp: pointers_ok_def accept_def create_connection_def Let_def)

lemma pointers_assign:
  "pointers_ok s \<Longrightarrow> pointers_ok (s\<lparr>objects := om_assign k c (objects s)\<rparr>)"
  "pointers_ok s \<Longrightarrow> pointers_ok (s\<lparr>objects := om_assign k c (objects s), app := a\<rparr>)"
  "pointers_ok s \<Longrightarrow> pointers_ok (s\<lparr>accepting := None\<rparr>)"
  "pointers_ok (s\<lparr>handlers_stopped := b\<rparr>) = pointers_ok s"
  by (auto simp: pointers_ok_def)

lemma pointers_accepted: "pointers_ok s \<Longrightarrow> pointers_ok (accepted cfg locked ec k s)"
  by (auto simp: accepted_def Let_def intro!: pointers_assign pointers_accept split: option.split)

lemma pointers_delete: "pointers_ok s \<Longrightarrow> accepting s \<noteq> Some k \<Longrightarrow> pointers_ok (delete_connection k s)"
  by (auto simp: pointers_ok_def delete_connection_def)

lemma pointers_stop:
  assumes "pointers_ok s" "stop s = (Return (), s')"
  shows "pointers_ok s'"
proof (cases "acceptor s = None")
  case True
  then show ?thesis using assms by (simp add: stop_def)
next
  case False
  obtain objs where objs: "stop s = (Return (), s\<lparr>acceptor := Some False, objects := objs, connections := [], io_running := False\<rparr>)"
      "om_keys objs = om_keys (objects s)"
    using stop_defined [OF assms(1) False] by blast
  then have "ordered objs" using assms(1) by (simp add: pointers_ok_def ordered_def flip: om_keys_def)
  then show ?thesis using assms objs by (auto simp: pointers_ok_def)
qed

lemma pointers_event: "service_event cfg iter allowed s s' \<Longrightarrow> pointers_ok s \<Longrightarrow> pointers_ok s'"
  by (induction rule: service_event.induct)
    (auto simp: pointers_accepted pointers_delete connection_completed_def timer_expired_def pointers_assign
      split: prod.split)

lemma pointers_step: "service_step cfg iter allowed s s' \<Longrightarrow> pointers_ok s \<Longrightarrow> pointers_ok s'"
  by (induction rule: service_step.induct)
    (auto simp: destroy_server_def pointers_assign(4)
      intro: pointers_event pointers_stop pointers_stop [OF pointers_assign(4) [THEN iffD2]])

section \<open>The invariant of the service\<close>

lemma start_apply: "start True s = (Return (), (accept (s\<lparr>acceptor := Some True\<rparr>))\<lparr>io_running := True\<rparr>)"
  by (simp add: start_def andthen_def bind_def accept_and_run_def)

lemma start_ok:
  assumes "start True (new_Service a) = (Return (), s)"
  shows "pointers_ok s" "all_connections_ok cfg s" "app s = a" "acceptor s = Some True" "io_running s" "accepting s = Some 0"
    "\<not> handlers_stopped s"
proof -
  have s: "s = \<lparr>acceptor = Some True, io_running = True, allocated = 1, accepting = Some 0,
      objects = [(0, new_Connection)], connections = [(0, ())], handlers_stopped = False, app = a\<rparr>"
    using assms by (simp add: start_apply accept_def create_connection_def new_Service_def Let_def)
  show "pointers_ok s" by (simp add: s pointers_ok_def ordered_def om_keys_def)
  show "all_connections_ok cfg s"
    by (simp add: s all_connections_ok_def om_find_def connection_ok_def new_Connection_def pending_operation_def)
  show "app s = a" "acceptor s = Some True" "io_running s" "accepting s = Some 0"
    "\<not> handlers_stopped s" by (simp_all add: s)
qed

definition service_ok :: "Config \<Rightarrow> ('a \<Rightarrow> bool) \<Rightarrow> 'a Service \<Rightarrow> bool" where
  "service_ok cfg I s \<longleftrightarrow> pointers_ok s \<and> all_connections_ok cfg s \<and> I (app s)"

lemma new_connection_ok: "connection_ok cfg new_Connection"
  by (simp add: connection_ok_def new_Connection_def pending_operation_def)

lemma all_connections_assign:
  "all_connections_ok cfg s \<Longrightarrow> connection_ok cfg c \<Longrightarrow> all_connections_ok cfg (s\<lparr>objects := om_assign k c (objects s)\<rparr>)"
  "all_connections_ok cfg s \<Longrightarrow> connection_ok cfg c \<Longrightarrow>
    all_connections_ok cfg (s\<lparr>objects := om_assign k c (objects s), app := a\<rparr>)"
  "all_connections_ok cfg (s\<lparr>accepting := x\<rparr>) = all_connections_ok cfg s"
  "all_connections_ok cfg (s\<lparr>handlers_stopped := b\<rparr>) = all_connections_ok cfg s"
  by (auto simp: all_connections_ok_def om_find_assign split: if_splits)

lemma all_connections_accept: "pointers_ok s \<Longrightarrow> all_connections_ok cfg s \<Longrightarrow> all_connections_ok cfg (accept s)"
  using new_connection_ok [of cfg] om_find_keys [of "allocated s" "objects s"]
  by (auto simp: all_connections_ok_def accept_def create_connection_def pointers_ok_def om_find_emplace Let_def
      split: if_splits option.splits)

lemma all_connections_accepted:
  assumes "limited cfg" "pointers_ok s" "all_connections_ok cfg s"
  shows "all_connections_ok cfg (accepted cfg locked ec k s)"
proof -
  let ?s = "s\<lparr>accepting := None\<rparr>"
  have "all_connections_ok cfg ?s" using assms(3) by (simp add: all_connections_assign(3))
  moreover have "all_connections_ok cfg (HttpService.accept ?s)"
    using assms(2,3) by (intro all_connections_accept) (simp_all add: pointers_assign(3) all_connections_assign(3))
  ultimately show ?thesis
    using all_connections_assign(1) [OF _ connection_ok_started(1) [OF assms(1)]]
    by (auto simp: accepted_def Let_def split: option.split)
qed

lemma close_ok: "connection_ok cfg (close c)" if "awaiting c \<noteq> Stuck"
  using that by (simp add: connection_ok_def close_def)

lemma all_connections_stop:
  assumes "pointers_ok s" "all_connections_ok cfg s" "stop s = (Return (), s')"
  shows "all_connections_ok cfg s'" 
proof (cases "acceptor s = None")
  case False
  obtain objs where objs: "s' = s\<lparr>acceptor := Some False, objects := objs, connections := [], io_running := False\<rparr>"
      "\<forall>k. om_find k objs = (if k \<in> set (om_keys (connections s)) then map_option close (om_find k (objects s))
         else om_find k (objects s))"
    using stop_defined [OF assms(1) False] assms(3) by auto
  then show ?thesis
    using assms(2) by (auto simp: all_connections_ok_def connection_ok_def close_def split: if_splits)
qed (use assms in \<open>simp add: stop_def\<close>)

lemma app_frame [simp]: "app (accept s) = app s" "app (accepted cfg locked ec k s) = app s"
  "app (delete_connection k s) = app s" "app (timer_expired k c s) = app s"
  by (auto simp: accept_def create_connection_def accepted_def delete_connection_def timer_expired_def Let_def
      split: option.split)

lemma app_stop: "stop s = (r, s') \<Longrightarrow> app s' = app s"
  by (auto simp: stop_def split: if_splits option.splits)

lemma service_ok_stop:
  assumes "service_ok cfg I s" "stop s = (Return (), s')"
  shows "service_ok cfg I s'"
  using assms pointers_stop all_connections_stop app_stop by (metis service_ok_def)

context http_application
begin

lemma service_event_ok:
  assumes "service_event cfg iter allowed s s'" "limited cfg" "service_ok cfg I s"
  shows "service_ok cfg I s'"
proof -
  have p: "pointers_ok s" "all_connections_ok cfg s" "I (app s)" using assms(3) by (simp_all add: service_ok_def)
  from assms(1) have "all_connections_ok cfg s' \<and> I (app s')"
  proof cases
    case (accepted k ec)
    then show ?thesis using p all_connections_accepted [OF assms(2)] by simp
  next
    case (completed k c h ec new)
    have "keeps_ok cfg I (complete cfg iter h (\<not> handlers_stopped s) ec new (c, app s))"
      using assms(2) completed p(3) by (intro complete_ok)
    then show ?thesis
      using completed p(2) all_connections_assign(2) by (auto simp: connection_completed_def keeps_ok_def split: prod.splits)
  next
    case (expired k c)
    have "connection_ok cfg (close (c\<lparr>timer := None\<rparr>))"
      using expired p(2) by (intro close_ok) (auto simp: all_connections_ok_def connection_ok_def)
    then show ?thesis using expired p all_connections_assign(1) by (auto simp: timer_expired_def)
  next
    case (deleted k c)
    then show ?thesis using p by (auto simp: all_connections_ok_def delete_connection_def om_find_erase)
  qed
  then show ?thesis using pointers_event [OF assms(1) p(1)] by (simp add: service_ok_def)
qed

lemma service_step_ok:
  assumes "service_step cfg iter allowed s s'" "limited cfg" "service_ok cfg I s"
  shows "service_ok cfg I s'"
  using assms(1)
proof cases
  case event
  then show ?thesis using assms(2,3) by (rule service_event_ok)
next
  case stopped
  then show ?thesis using assms(3) service_ok_stop by blast
next
  case destroyed
  then have "stop (s\<lparr>handlers_stopped := True\<rparr>) = (Return (), s')" by (simp add: destroy_server_def)
  moreover have "service_ok cfg I (s\<lparr>handlers_stopped := True\<rparr>)"
    using assms(3) by (simp add: service_ok_def pointers_assign(4) all_connections_assign(4))
  ultimately show ?thesis by (rule service_ok_stop [rotated])
qed

lemma service_reachable_ok:
  assumes "service_reachable cfg iter allowed a s" "limited cfg" "I a"
  shows "service_ok cfg I s"
  using assms(1)
proof induction
  case (started s)
  then show ?case using assms(3) start_ok by (metis service_ok_def)
next
  case (step s s')
  then show ?case using service_step_ok assms(2) by blast
qed

end

lemma stop_closes:
  assumes "pointers_ok s" "acceptor s \<noteq> None" "io_running s"
  shows "\<exists>s'. stop s = (Return (), s') \<and> connections s' = [] \<and> acceptor s' = Some False \<and> \<not> io_running s' \<and>
    om_keys (objects s') = om_keys (objects s) \<and>
    (\<forall>k c. om_find k (objects s') = Some c \<longrightarrow> \<not> socket_open c)"
proof -
  obtain objs where objs: "stop s = (Return (), s\<lparr>acceptor := Some False, objects := objs, connections := [], io_running := False\<rparr>)"
      "om_keys objs = om_keys (objects s)"
      "\<forall>k. om_find k objs = (if k \<in> set (om_keys (connections s)) then map_option close (om_find k (objects s))
         else om_find k (objects s))"
    using stop_defined [OF assms(1,2)] by blast
  have "set (om_keys (objects s)) \<subseteq> set (om_keys (connections s))" using assms(1,3) by (simp add: pointers_ok_def)
  then have "\<not> socket_open c" if "om_find k objs = Some c" for k c
    using that objs(3) om_find_keys [of k "objects s"] by (auto simp: close_def split: if_splits)
  then show ?thesis using objs(1,2) by auto
qed

lemma pointers_reachable: "service_reachable cfg iter allowed a s \<Longrightarrow> pointers_ok s"
proof (induction rule: service_reachable.induct)
  case (started s)
  then show ?case by (rule start_ok(1))
qed (rule pointers_step)

lemma acceptor_frame [simp]:
  "acceptor (accept s) = acceptor s" "acceptor (accepted cfg locked ec k s) = acceptor s"
  "acceptor (connection_completed cfg iter h locked ec' new k c s) = acceptor s"
  "acceptor (timer_expired k c s) = acceptor s" "acceptor (delete_connection k s) = acceptor s"
  by (auto simp: accept_def create_connection_def accepted_def connection_completed_def delete_connection_def
      timer_expired_def Let_def split: option.split prod.split)

lemma acceptor_event: "service_event cfg iter allowed s s' \<Longrightarrow> acceptor s' = acceptor s"
  by (induction rule: service_event.induct) simp_all

lemma acceptor_reachable: "service_reachable cfg iter allowed a s \<Longrightarrow> acceptor s \<noteq> None"
proof (induction rule: service_reachable.induct)
  case (step s s')
  from step.hyps(2) step.IH show ?case
    by cases (auto simp: acceptor_event stop_def destroy_server_def split: if_splits option.splits)
qed (simp add: start_ok(4))

lemma first_accepted:
  assumes "start True (new_Service a) = (Return (), s)"
  shows "service_reachable cfg iter allowed a (accepted cfg True ec 0 s)"
  using service_reachable.step [OF service_reachable.started [OF assms] service_step.event [OF service_event.accepted [OF start_ok(5,6) [OF assms], of cfg iter allowed ec]]]
    start_ok(7) [OF assms] by simp

text \<open>A \<open>stop\<close> that comes before the thread of the server has called \<open>start\<close> is lost.\<close>

lemma stop_before_start_lost:
  "stop (new_Service a) = (Return (), new_Service a) \<and> io_running (snd (start True (snd (stop (new_Service a)))))"
  by (simp add: stop_def new_Service_def start_apply)

text \<open>Nothing but the destruction of objects is left to do after \<open>stop\<close>.\<close>

lemma stopped_event:
  "service_event cfg iter allowed s s' \<Longrightarrow> \<not> io_running s \<Longrightarrow> app s' = app s \<and> \<not> io_running s'"
  by (induction rule: service_event.induct) (simp_all add: delete_connection_def)

lemma stopped_step:
  "service_step cfg iter allowed s s' \<Longrightarrow> \<not> io_running s \<Longrightarrow> app s' = app s \<and> \<not> io_running s'"
  by (induction rule: service_step.induct)
    (auto simp: destroy_server_def stop_def dest: stopped_event split: if_splits option.splits)

inductive service_run :: "Config \<Rightarrow> (fields \<Rightarrow> fields) \<Rightarrow> ('a handler \<Rightarrow> bool) \<Rightarrow> 'a Service \<Rightarrow> 'a Service \<Rightarrow> bool"
  for cfg iter allowed where
  none: "service_run cfg iter allowed s s"
| more: "service_run cfg iter allowed s s' \<Longrightarrow> service_step cfg iter allowed s' s'' \<Longrightarrow>
     service_run cfg iter allowed s s''"

lemma stopped_run:
  "service_run cfg iter allowed s s' \<Longrightarrow> \<not> io_running s \<Longrightarrow> app s' = app s \<and> \<not> io_running s'"
  by (induction rule: service_run.induct) (auto dest: stopped_step)

section \<open>Properties\<close>

text \<open>
  C22: Whenever the running server is stopped, whatever handlers, timers and destructions have
  come before, every pointer that it follows is to an object that lives, every socket is closed
  and no connection is kept; and whatever comes afterwards, no request changes the station any more.
\<close>

theorem stop_ends_service:
  assumes "service_reachable cfg iter allowed a s" "io_running s"
  shows "\<exists>s'. stop s = (Return (), s') \<and> connections s' = [] \<and> acceptor s' = Some False \<and>
    (\<forall>k c. om_find k (objects s') = Some c \<longrightarrow> \<not> socket_open c) \<and>
    (\<forall>s''. service_run cfg iter allowed s' s'' \<longrightarrow> app s'' = app s)"
proof -
  obtain s' where s': "stop s = (Return (), s')" "connections s' = []" "acceptor s' = Some False" "\<not> io_running s'"
      "\<forall>k c. om_find k (objects s') = Some c \<longrightarrow> \<not> socket_open c"
    using stop_closes [OF pointers_reachable [OF assms(1)] acceptor_reachable [OF assms(1)] assms(2)] by blast
  then show ?thesis using app_stop [OF s'(1)] stopped_run by metis
qed

theorem stop_ends_service_witness:
  "\<exists>s s'. start True (new_Service ()) = (Return (), s) \<and>
    stop (accepted (new_Config 80) True Accepted 0 s) = (Return (), s') \<and> connections s' = []"
proof -
  obtain s :: "unit Service" where s: "start True (new_Service ()) = (Return (), s)" by (simp add: start_apply)
  have "service_reachable (new_Config 80) rev (\<lambda>_. True) () (accepted (new_Config 80) True Accepted 0 s)"
    by (rule first_accepted [OF s])
  moreover have "io_running (accepted (new_Config 80) True Accepted 0 s)"
    using start_ok(5) [OF s] by (simp add: accepted_def accept_def create_connection_def Let_def split: option.split)
  ultimately show ?thesis
    using s stop_ends_service [of "new_Config 80" rev "\<lambda>_. True" "()"] by blast
qed

end
