(* ===== verification/HttpRequests.thy ===== *)
theory HttpRequests
  imports HttpConnection
begin

text \<open>
  What a connection makes of the bytes of a request: whatever pieces they arrive in, the
  handler is called once with the whole of it.  For chunks, the chain of the completion
  handlers is shown to do what \<open>read_chunks\<close> does on all the bytes at once.
\<close>

section \<open>Runs of arrivals\<close>

text \<open>
  The bytes of a request as they arrive, one piece for each operation that they end without
  an error; the run is over as soon as nothing more is read.
\<close>

fun arrive :: "Config \<Rightarrow> (fields \<Rightarrow> fields) \<Rightarrow> 's handler \<Rightarrow> string list \<Rightarrow> Connection \<times> 's \<Rightarrow> Connection \<times> 's" where
  "arrive cfg iter h [] cs = cs"
| "arrive cfg iter h (w # ws) cs = arrive cfg iter h ws (complete cfg iter h True No_error w cs)"

definition can_complete :: "Config \<Rightarrow> string \<Rightarrow> Connection \<times> 's \<Rightarrow> bool" where
  "can_complete cfg new cs \<longleftrightarrow> reading (awaiting (fst cs)) \<and>
     completes (max_request_streambuf_size cfg) (awaiting (fst cs)) No_error (streambuf (fst cs)) new"

fun arrivals :: "Config \<Rightarrow> (fields \<Rightarrow> fields) \<Rightarrow> 's handler \<Rightarrow> string list \<Rightarrow> Connection \<times> 's \<Rightarrow> bool" where
  "arrivals cfg iter h [] cs = True"
| "arrivals cfg iter h (w # ws) cs \<longleftrightarrow> can_complete cfg w cs \<and>
     arrivals cfg iter h ws (complete cfg iter h True No_error w cs)"

lemma dispatch_awaiting: "dispatch cfg h (c\<lparr>awaiting := p\<rparr>, s) = dispatch cfg h (c, s)"
  by (auto simp: dispatch_def send_def set_timeout_def split: outcome.split option.split prod.split)

lemma dispatch_not_reading: "\<not> reading (awaiting (fst (dispatch cfg h (c, s))))"
  by (auto simp: dispatch_def send_def split: outcome.split option.split prod.split)

lemma not_reading_arrivals: "\<not> reading (awaiting (fst cs)) \<Longrightarrow> arrivals cfg iter h ws cs \<Longrightarrow> ws = []"
  by (cases ws) (auto simp: can_complete_def)

lemma dispatch_final: "arrivals cfg iter h ws (dispatch cfg h (c, s)) \<Longrightarrow> ws = []"
  using not_reading_arrivals [of "dispatch cfg h (c, s)", OF dispatch_not_reading] by simp

subsection \<open>Chunks\<close>

text \<open>What is left to do for a chunk of a known size; the rest of \<open>read_chunks\<close>.\<close>

definition chunk_rest :: "nat \<Rightarrow> nat \<Rightarrow> string \<Rightarrow> string \<Rightarrow> chunk_result" where
  "chunk_rest max_size len inp acc =
     (if 2 ^ 63 \<le> len then Chunks_bad_alloc
      else if 0 < len \<and> max_size \<le> length (acc @ take len inp) then Chunks_too_large
      else if 0 < len then read_chunks max_size (drop (len + 2) inp) (acc @ take len inp)
      else Chunks_done (drop 2 inp @ acc))"

text \<open>What \<open>read_chunks\<close> makes of the bytes that are still to come.\<close>

definition remaining :: "Config \<Rightarrow> Connection \<Rightarrow> string \<Rightarrow> chunk_result" where
  "remaining cfg c inp =
     (case awaiting c of
        Chunk_read len n \<Rightarrow>
          if length inp < n then Chunks_failed
          else chunk_rest (max_request_streambuf_size cfg) len (streambuf c @ inp) (chunks_streambuf c)
      | _ \<Rightarrow> read_chunks (max_request_streambuf_size cfg) (streambuf c @ inp) (chunks_streambuf c))"

lemma until_crlf_bounds:
  "until_crlf s = Some k \<Longrightarrow> \<exists>i. find_char (CHR 10) s = Some i \<and> i + 1 \<le> k \<and> k \<le> length s"
proof (induction s arbitrary: k rule: until_crlf.induct)
  case (1 a b s)
  show ?case
  proof (cases "a = CHR 13 \<and> b = CHR 10")
    case False
    then obtain j where j: "until_crlf (b # s) = Some j" "k = Suc j" using 1(2) by auto
    obtain i where "find_char (CHR 10) (b # s) = Some i" "i + 1 \<le> j" "j \<le> length (b # s)"
      using 1(1) [OF False j(1)] by blast
    then show ?thesis using j(2) by (cases "a = CHR 10") auto
  qed (use 1(2) in auto)
qed simp_all


lemma find_char_append_Some: "find_char c s = Some i \<Longrightarrow> find_char c (s @ r) = Some i \<and> i < length s"
  by (induction s arbitrary: i) (auto split: if_splits)

lemma read_chunks_line:
  assumes "until_crlf inp = Some k" "find_char (CHR 10) inp = Some i"
  shows "read_chunks max_size inp acc =
    (if take i inp = [] then Chunks_undefined
     else case stoul16 (butlast (take i inp)) of
       Inl e \<Rightarrow> Chunks_protocol_error
     | Inr len \<Rightarrow> if length (drop (i + 1) inp) < (k - (i + 1)) + (2 + len) mod 2 ^ 64 then Chunks_failed
         else chunk_rest max_size len (drop (i + 1) inp) acc)"
  using assms by (subst read_chunks.simps) (simp add: chunk_rest_def Let_def split: sum.split)

lemma chunk_rest_done: "chunk_rest max_size len inp acc = Chunks_done body \<Longrightarrow> len < 2 ^ 63"
  by (auto simp: chunk_rest_def not_le split: if_splits)

lemma read_chunks_prefix:
  assumes "until_crlf B = Some k" "find_char (CHR 10) B = Some i" "read_chunks max_size (B @ inp) acc = Chunks_done body"
  shows "\<exists>len. take i B \<noteq> [] \<and> stoul16 (butlast (take i B)) = Inr len \<and> (2 + len) mod 2 ^ 64 = 2 + len \<and>
    (k - (i + 1)) + (2 + len) \<le> length (drop (i + 1) B) + length inp \<and>
    chunk_rest max_size len (drop (i + 1) B @ inp) acc = Chunks_done body"
proof -
  have i: "find_char (CHR 10) (B @ inp) = Some i" "i < length B"
    using find_char_append_Some [OF assms(2)] by auto
  have parts: "take i (B @ inp) = take i B" "drop (i + 1) (B @ inp) = drop (i + 1) B @ inp"
    using i(2) by simp_all
  have "(if take i B = [] then Chunks_undefined
     else case stoul16 (butlast (take i B)) of
       Inl e \<Rightarrow> Chunks_protocol_error
     | Inr len \<Rightarrow> if length (drop (i + 1) B @ inp) < (k - (i + 1)) + (2 + len) mod 2 ^ 64 then Chunks_failed
         else chunk_rest max_size len (drop (i + 1) B @ inp) acc) = Chunks_done body"
    using read_chunks_line [OF until_crlf_append [OF assms(1)] i(1), of max_size acc] assms(3) by (simp only: parts)
  then obtain len where len: "take i B \<noteq> []" "stoul16 (butlast (take i B)) = Inr len"
      "\<not> length (drop (i + 1) B @ inp) < (k - (i + 1)) + (2 + len) mod 2 ^ 64"
      "chunk_rest max_size len (drop (i + 1) B @ inp) acc = Chunks_done body"
    by (auto simp del: take_eq_Nil split: if_splits sum.splits)
  moreover have "(2 + len) mod 2 ^ 64 = 2 + len" using chunk_rest_done [OF len(4)] by simp
  ultimately show ?thesis by (auto simp del: take_eq_Nil)
qed

text \<open>A change of the buffers, the timer and the operation only.\<close>

definition same_request :: "Connection \<Rightarrow> Connection \<Rightarrow> bool" where
  "same_request c c' \<longleftrightarrow> (\<exists>p t b a. c' = c\<lparr>awaiting := p, timer := t, streambuf := b, chunks_streambuf := a\<rparr>)"

lemma same_requestI:
  "c' = c\<lparr>awaiting := p, timer := t, streambuf := b, chunks_streambuf := a\<rparr> \<Longrightarrow> same_request c c'"
  by (auto simp: same_request_def)

lemma same_request_trans: "same_request c c' \<Longrightarrow> same_request c' c'' \<Longrightarrow> same_request c c''"
  by (auto simp: same_request_def) metis

text \<open>A connection in the middle of a body of which \<open>inp\<close> has not come, and the call of the
  handler with the whole of it.\<close>

definition in_chunks :: "Config \<Rightarrow> Connection \<Rightarrow> string \<Rightarrow> string \<Rightarrow> bool" where
  "in_chunks cfg c inp body \<longleftrightarrow>
     (awaiting c = Line_read \<or>
      (\<exists>len n. awaiting c = Chunk_read len n \<and> (len < 2 ^ 63 \<longrightarrow> len + 2 \<le> n + length (streambuf c)))) \<and>
     remaining cfg c inp = Chunks_done body \<and> length (chunks_streambuf c) \<le> max_request_streambuf_size cfg"

definition dispatched :: "Config \<Rightarrow> 's handler \<Rightarrow> Connection \<Rightarrow> 's \<Rightarrow> string \<Rightarrow> string \<Rightarrow> Connection \<times> 's \<Rightarrow> bool" where
  "dispatched cfg h c s inp body cs \<longleftrightarrow>
     (\<exists>b a. cs = dispatch cfg h (c\<lparr>streambuf := b @ a, chunks_streambuf := a, timer := None\<rparr>, s) \<and> body = b @ inp @ a)"

lemma complete_read:
  assumes "reading (awaiting c)" and "c' = c\<lparr>timer := None, streambuf := streambuf c @ new\<rparr>"
  shows "complete cfg iter h True ec new (c, s) =
    (case awaiting c of
       Head_read \<Rightarrow> head_completed cfg iter h ec (c', s)
     | Content_read n \<Rightarrow> proceed cfg iter h (read_content (max_request_streambuf_size cfg) ec (streambuf c')) (c', s)
     | Line_read \<Rightarrow> line_completed cfg iter h ec (c', s)
     | Chunk_read len n \<Rightarrow> chunk_read cfg iter h len ec (c', s)
     | _ \<Rightarrow> (c', s))"
  unfolding assms(2) using assms(1)
  by (cases c; cases "awaiting c") (simp_all add: complete_def cancel_timeout_def Let_def)

text \<open>One chunk that is in the buffer.\<close>

lemma chunk_completed_step:
  assumes "chunk_rest (max_request_streambuf_size cfg) len (streambuf c @ inp) (chunks_streambuf c) = Chunks_done body"
    and "len + 2 \<le> length (streambuf c)" "length (chunks_streambuf c) \<le> max_request_streambuf_size cfg"
    and "timer c = None"
  shows "(\<exists>c'. chunk_completed cfg iter h len (c, s) = (c', s) \<and> in_chunks cfg c' inp body \<and>
      same_request c c' \<and> length (streambuf c') \<le> length (streambuf c)) \<or>
    dispatched cfg h c s inp body (chunk_completed cfg iter h len (c, s))"
proof (cases "len = 0")
  case True
  have "chunk_completed cfg iter h len (c, s) = dispatch cfg h (c\<lparr>streambuf := drop 2 (streambuf c) @ chunks_streambuf c,
      chunks_streambuf := chunks_streambuf c, timer := None\<rparr>, s)"
    using True assms(3,4) by (cases c) (simp add: chunk_completed_def Let_def)
  moreover have "body = drop 2 (streambuf c) @ inp @ chunks_streambuf c"
    using True assms(1,2) by (simp add: chunk_rest_def)
  ultimately show ?thesis unfolding dispatched_def by blast
next
  case False
  let ?a = "chunks_streambuf c @ take len (streambuf c)"
  have small: "len < 2 ^ 63" "length ?a < max_request_streambuf_size cfg"
    and rest: "read_chunks (max_request_streambuf_size cfg) (drop (len + 2) (streambuf c) @ inp) ?a = Chunks_done body"
    using False assms(1,2) by (auto simp: chunk_rest_def not_le split: if_splits)
  let ?c = "read_chunked_transfer_encoded cfg (c\<lparr>chunks_streambuf := ?a, streambuf := drop (len + 2) (streambuf c)\<rparr>)"
  have "chunk_completed cfg iter h len (c, s) = (?c, s)"
    using False small take_all [of ?a "max_request_streambuf_size cfg"]
    by (simp add: chunk_completed_def Let_def add.commute del: take_append take_take)
  moreover have "in_chunks cfg ?c inp body" "length (streambuf ?c) \<le> length (streambuf c)"
    using rest small(2) by (simp_all add: read_chunked_transfer_encoded_def set_timeout_def remaining_def in_chunks_def)
  moreover have "same_request c ?c"
    by (rule same_requestI [where p = Line_read and t = "timer ?c" and b = "streambuf ?c" and a = "chunks_streambuf ?c"])
      (cases c; simp add: read_chunked_transfer_encoded_def set_timeout_def)
  ultimately show ?thesis by blast
qed

lemma dispatched_same:
  "same_request c c' \<Longrightarrow> dispatched cfg h c' s inp body cs \<Longrightarrow> dispatched cfg h c s inp body cs"
proof -
  assume "same_request c c'" "dispatched cfg h c' s inp body cs"
  then obtain p t b a b' a' where c': "c' = c\<lparr>awaiting := p, timer := t, streambuf := b', chunks_streambuf := a'\<rparr>"
    and d: "cs = dispatch cfg h (c'\<lparr>streambuf := b @ a, chunks_streambuf := a, timer := None\<rparr>, s)" "body = b @ inp @ a"
    by (auto simp: same_request_def dispatched_def)
  have "c'\<lparr>streambuf := b @ a, chunks_streambuf := a, timer := None\<rparr> =
      (c\<lparr>streambuf := b @ a, chunks_streambuf := a, timer := None\<rparr>)\<lparr>awaiting := p\<rparr>"
    by (cases c) (simp add: c')
  then show ?thesis using d dispatch_awaiting unfolding dispatched_def by metis
qed

text \<open>The line with the size of a chunk, when it can be read.\<close>

lemma line_completed_size:
  assumes "until_crlf (streambuf c) = Some k" "find_char (CHR 10) (streambuf c) = Some i"
    and "take i (streambuf c) \<noteq> []" "stoul16 (butlast (take i (streambuf c))) = Inr len"
    and "(2 + len) mod 2 ^ 64 = 2 + len" "length (streambuf c) < max_request_streambuf_size cfg"
    and "rest = drop (i + 1) (streambuf c)" "num = length rest - (k - (i + 1))"
  shows "line_completed cfg iter h No_error (c, s) =
    (if num < 2 + len
     then ((set_timeout (timeout_content cfg) (c\<lparr>streambuf := rest\<rparr>))\<lparr>awaiting := Chunk_read len (2 + len - num)\<rparr>, s)
     else chunk_completed cfg iter h len (c\<lparr>streambuf := rest\<rparr>, s))"
proof -
  define l where "l = take i (streambuf c)"
  have "getline [] (streambuf c, True) = (l, rest, True)"
    using assms(2,7) by (simp add: getline_def l_def)
  moreover have "length l = i"
    using find_char_append_Some [OF assms(2)] by (simp add: l_def)
  moreover have "l \<noteq> []" unfolding l_def by (rule assms(3))
  moreover have "stoul16 (butlast l) = Inr len" unfolding l_def by (rule assms(4))
  ultimately show ?thesis
    using assms(1,5,6,8) by (auto simp: line_completed_def)
qed

lemma chunk_step:
  assumes "in_chunks cfg c (w @ inp) body" "can_complete cfg w (c, s)"
    and "length (streambuf c @ w) < max_request_streambuf_size cfg"
  shows "(\<exists>c'. complete cfg iter h True No_error w (c, s) = (c', s) \<and> in_chunks cfg c' inp body \<and>
      same_request c c' \<and> length (streambuf c') \<le> length (streambuf c @ w)) \<or>
    dispatched cfg h c s inp body (complete cfg iter h True No_error w (c, s))"
proof -
  let ?B = "streambuf c @ w" and ?max = "max_request_streambuf_size cfg" and ?acc = "chunks_streambuf c"
  let ?c = "c\<lparr>timer := None, streambuf := ?B\<rparr>"
  have same: "same_request c (?c\<lparr>streambuf := b\<rparr>)" for b
    by (rule same_requestI [where p = "awaiting c" and t = None and b = b and a = ?acc]) (cases c; simp)
  have step: ?thesis
    if "chunk_rest ?max len (b @ inp) ?acc = Chunks_done body" "len + 2 \<le> length b" "length b \<le> length ?B"
      "complete cfg iter h True No_error w (c, s) = chunk_completed cfg iter h len (?c\<lparr>streambuf := b\<rparr>, s)" for len b
    using chunk_completed_step [of cfg len "?c\<lparr>streambuf := b\<rparr>" inp body iter h s] that assms(1)
      same_request_trans [OF same] dispatched_same [OF same] by (fastforce simp: in_chunks_def)
  consider (line) "awaiting c = Line_read" | (chunk) len n where "awaiting c = Chunk_read len n"
    using assms(1) by (auto simp: in_chunks_def)
  then show ?thesis
  proof cases
    case chunk
    have "length w = n" using assms(2,3) chunk by (auto simp: can_complete_def)
    moreover have r: "chunk_rest ?max len (?B @ inp) ?acc = Chunks_done body"
      using assms(1) chunk by (auto simp: in_chunks_def remaining_def split: if_splits)
    moreover have "len < 2 ^ 63" using r by (auto simp: chunk_rest_def not_le split: if_splits)
    ultimately have "len + 2 \<le> length ?B" using assms(1) chunk by (auto simp: in_chunks_def)
    moreover have "complete cfg iter h True No_error w (c, s) = chunk_completed cfg iter h len (?c, s)"
      using complete_read [of c ?c w cfg iter h No_error s] chunk assms(3) by (simp add: chunk_read_def)
    ultimately show ?thesis using step [OF r] by simp
  next
    case line
    obtain k where k: "until_crlf ?B = Some k" using assms(2) line by (auto simp: can_complete_def)
    then obtain i where i: "find_char (CHR 10) ?B = Some i" "i + 1 \<le> k" "k \<le> length ?B"
      using until_crlf_bounds by blast
    have "read_chunks ?max (?B @ inp) ?acc = Chunks_done body"
      using assms(1) line by (simp add: in_chunks_def remaining_def)
    from read_chunks_prefix [OF k i(1) this] obtain len where len: "take i ?B \<noteq> []" "stoul16 (butlast (take i ?B)) = Inr len"
        "(2 + len) mod 2 ^ 64 = 2 + len" "(k - (i + 1)) + (2 + len) \<le> length (drop (i + 1) ?B) + length inp"
        "chunk_rest ?max len (drop (i + 1) ?B @ inp) ?acc = Chunks_done body" by blast
    define rest where "rest = drop (i + 1) ?B"
    define num where "num = length rest - (k - (i + 1))"
    have rest: "chunk_rest ?max len (rest @ inp) ?acc = Chunks_done body" "length rest \<le> length ?B"
        "(k - (i + 1)) + (2 + len) \<le> length rest + length inp" "k - (i + 1) \<le> length rest"
      using len(4,5) i by (auto simp: rest_def)
    have l: "complete cfg iter h True No_error w (c, s) =
      (if num < 2 + len
       then ((set_timeout (timeout_content cfg) (?c\<lparr>streambuf := rest\<rparr>))\<lparr>awaiting := Chunk_read len (2 + len - num)\<rparr>, s)
       else chunk_completed cfg iter h len (?c\<lparr>streambuf := rest\<rparr>, s))"
      using complete_read [of c ?c w cfg iter h No_error s] line
        line_completed_size [of ?c k i len cfg rest num iter h s] k i(1) len(1-3) assms(3) rest_def num_def
      by (simp del: take_eq_Nil take_append)
    show ?thesis
    proof (cases "num < 2 + len")
      case True
      let ?c' = "(set_timeout (timeout_content cfg) (?c\<lparr>streambuf := rest\<rparr>))\<lparr>awaiting := Chunk_read len (2 + len - num)\<rparr>"
      have "in_chunks cfg ?c' inp body"
        using assms(1) rest True by (auto simp: in_chunks_def remaining_def set_timeout_def num_def)
      moreover have "same_request c ?c'"
        by (rule same_requestI [where p = "awaiting ?c'" and t = "timer ?c'" and b = rest and a = ?acc])
          (cases c; simp add: set_timeout_def)
      ultimately show ?thesis using l True rest(2) by (auto simp: set_timeout_def)
    next
      case False
      then show ?thesis using step [OF rest(1) _ rest(2)] l num_def by simp
    qed
  qed
qed


text \<open>
  Whatever pieces a body in chunks arrives in, the connection is still in the middle of it
  or has called the handler with the whole of it.
\<close>

lemma chunks_arrive:
  assumes "in_chunks cfg c (concat ws @ inp) body" "arrivals cfg iter h ws (c, s)"
    and "length (streambuf c @ concat ws) < max_request_streambuf_size cfg"
  shows "(\<exists>c'. arrive cfg iter h ws (c, s) = (c', s) \<and> in_chunks cfg c' inp body \<and> same_request c c' \<and>
      length (streambuf c') \<le> length (streambuf c @ concat ws)) \<or>
    dispatched cfg h c s inp body (arrive cfg iter h ws (c, s))"
  using assms
proof (induction ws arbitrary: c)
  case Nil
  have "same_request c c"
    by (rule same_requestI [where p = "awaiting c" and t = "timer c" and b = "streambuf c" and a = "chunks_streambuf c"]) simp
  then show ?case using Nil by auto
next
  case (Cons w ws)
  have "in_chunks cfg c (w @ concat ws @ inp) body" "can_complete cfg w (c, s)"
      "length (streambuf c @ w) < max_request_streambuf_size cfg"
    using Cons.prems by simp_all
  from chunk_step [OF this, of iter h] consider (go) c' where "complete cfg iter h True No_error w (c, s) = (c', s)"
        "in_chunks cfg c' (concat ws @ inp) body" "same_request c c'" "length (streambuf c') \<le> length (streambuf c @ w)"
    | (called) "dispatched cfg h c s (concat ws @ inp) body (complete cfg iter h True No_error w (c, s))"
    by blast
  then show ?case
  proof cases
    case go
    then have "(\<exists>c''. arrive cfg iter h ws (c', s) = (c'', s) \<and> in_chunks cfg c'' inp body \<and> same_request c' c'' \<and>
          length (streambuf c'') \<le> length (streambuf c' @ concat ws)) \<or>
        dispatched cfg h c' s inp body (arrive cfg iter h ws (c', s))"
      using Cons.prems by (intro Cons.IH) auto
    then show ?thesis
      using go(1,4) same_request_trans [OF go(3)] dispatched_same [OF go(3)] by fastforce
  next
    case called
    then have "ws = []" using Cons.prems(2) dispatch_final by (auto simp: dispatched_def)
    then show ?thesis using called by auto
  qed
qed


subsection \<open>A whole request\<close>

text \<open>The head of a request as a client writes it, and the parts that are read from it.\<close>

definition plain_head :: "string \<Rightarrow> string \<Rightarrow> string \<Rightarrow> string \<Rightarrow> fields \<Rightarrow> bool" where
  "plain_head m p qs v fs \<longleftrightarrow> CHR '' '' \<notin> set m \<and> CHR 10 \<notin> set m \<and> plain_target p \<and> plain_target qs \<and>
     CHR 10 \<notin> set v \<and> list_all plain_field fs"

definition head_text :: "string \<Rightarrow> string \<Rightarrow> string \<Rightarrow> string \<Rightarrow> fields \<Rightarrow> string" where
  "head_text m p qs v fs = request_line m p qs v @ [CHR 10] @ header_text fs @ CRLF"

definition head_parts :: "string \<Rightarrow> string \<Rightarrow> string \<Rightarrow> string \<Rightarrow> fields \<Rightarrow> RequestHead" where
  "head_parts m p qs v fs = \<lparr>req_method = m, req_path = p, req_query_string = qs, req_http_version = v, req_header = fs\<rparr>"

lemma until_head_text:
  "plain_head m p qs v fs \<Longrightarrow>
    until_text (CRLF @ CRLF) (head_text m p qs v fs @ r) = Some (length (head_text m p qs v fs))"
  using until_head_fields [of fs "request_line m p qs v" r]
  by (auto simp: head_text_def plain_head_def list_all_iff request_line_def plain_target_def)

lemma parse_head_text:
  "plain_head m p qs v fs \<Longrightarrow> request_parse (head_text m p qs v fs @ r, True) new_Request =
    Some (True, head_parts m p qs v fs, (r, True))"
  using request_parse_plain [of m p qs v fs r new_Request]
  by (auto simp: head_text_def head_parts_def new_Request_def plain_head_def list_all_iff CRLF_def)

text \<open>What follows the head.\<close>

definition after_head :: "(fields \<Rightarrow> fields) \<Rightarrow> fields \<Rightarrow> nat \<Rightarrow> next_step" where
  "after_head iter fs additional =
     (case mm_find iter ''Content-Length'' fs of
        Some v \<Rightarrow> (case stoull v of
             Inl e \<Rightarrow> Protocol_error
           | Inr len \<Rightarrow> if additional < len then Read_exactly (len - additional) else Find_resource)
      | None \<Rightarrow> if mm_find iter ''Transfer-Encoding'' fs = Some ''chunked'' then Read_chunked else Find_resource)"

definition fresh :: "Config \<Rightarrow> Connection \<Rightarrow> bool" where
  "fresh cfg c \<longleftrightarrow> (\<exists>c0. c = read cfg (new_Session c0))"

lemma head_arrives:
  assumes "plain_head m p qs v fs" "fresh cfg c"
    and "length (head_text m p qs v fs @ w) < max_request_streambuf_size cfg"
  shows "complete cfg iter h True No_error (head_text m p qs v fs @ w) (c, s) =
    proceed cfg iter h (after_head iter fs (length w))
      (c\<lparr>timer := None, request := head_parts m p qs v fs, streambuf := w\<rparr>, s)"
proof -
  let ?H = "head_text m p qs v fs"
  have c: "awaiting c = Head_read" "streambuf c = []" "request c = new_Request"
    using assms(2) by (auto simp: fresh_def read_def new_Session_def set_timeout_def)
  have "read_head iter (max_request_streambuf_size cfg) No_error (length ?H) (?H @ w) new_Request =
      (after_head iter fs (length w), head_parts m p qs v fs, w)"
    using assms(3) parse_head_text [OF assms(1)]
    by (simp add: read_head_def Let_def after_head_def head_parts_def split: option.split sum.split)
  then show ?thesis
    using complete_read [of c "c\<lparr>timer := None, streambuf := ?H @ w\<rparr>" "?H @ w" cfg iter h No_error s]
      c until_head_text [OF assms(1), of w]
    by (simp add: head_completed_def Let_def)
qed

lemma first_arrival:
  assumes "plain_head m p qs v fs" "fresh cfg c" "can_complete cfg w (c, s)"
    and "w @ inp = head_text m p qs v fs @ body"
  shows "\<exists>part. w = head_text m p qs v fs @ part \<and> part @ inp = body"
proof -
  have "awaiting c = Head_read" "streambuf c = []"
    using assms(2) by (auto simp: fresh_def read_def new_Session_def set_timeout_def)
  then obtain k where k: "until_text (CRLF @ CRLF) w = Some k"
    using assms(3) by (auto simp: can_complete_def)
  then have "k = length (head_text m p qs v fs)"
    using until_text_append [OF k, of inp] until_head_text [OF assms(1), of body] assms(4) by simp
  moreover have "k \<le> length w" using until_blank_split [OF k] by auto
  ultimately have "take (length (head_text m p qs v fs)) w = head_text m p qs v fs"
    using arg_cong [OF assms(4), of "take k"] by simp
  then have "w = head_text m p qs v fs @ drop (length (head_text m p qs v fs)) w"
    by (metis append_take_drop_id)
  then show ?thesis using assms(4) by (metis append.assoc same_append_eq)
qed


definition has_content :: "(fields \<Rightarrow> fields) \<Rightarrow> fields \<Rightarrow> string \<Rightarrow> bool" where
  "has_content iter fs content \<longleftrightarrow>
     (case mm_find iter ''Content-Length'' fs of
        Some v \<Rightarrow> stoull v = Inr (length content)
      | None \<Rightarrow> mm_find iter ''Transfer-Encoding'' fs \<noteq> Some ''chunked'' \<and> content = [])"

lemma after_head_content:
  "has_content iter fs content \<Longrightarrow>
    after_head iter fs k = (if k < length content then Read_exactly (length content - k) else Find_resource)"
  by (auto simp: has_content_def after_head_def split: option.splits)

lemma content_arrives:
  assumes "plain_head m p qs v fs" "has_content iter fs content" "fresh cfg c"
    and "arrivals cfg iter h ws (c, s)" "concat ws = head_text m p qs v fs @ content"
    and "length (concat ws) < max_request_streambuf_size cfg"
  shows "arrive cfg iter h ws (c, s) =
    dispatch cfg h (c\<lparr>timer := None, request := head_parts m p qs v fs, streambuf := content\<rparr>, s)"
proof -
  let ?H = "head_text m p qs v fs" and ?r = "head_parts m p qs v fs"
  have "?H \<noteq> []" by (simp add: head_text_def)
  then obtain w ws' where ws: "ws = w # ws'" using assms(5) by (cases ws) auto
  then obtain part where part: "w = ?H @ part" "part @ concat ws' = content"
    using first_arrival [OF assms(1,3), of w s "concat ws'" content] assms(4,5) by auto
  let ?c = "c\<lparr>timer := None, request := ?r, streambuf := part\<rparr>"
  have "length (?H @ part) < max_request_streambuf_size cfg" using part(2) assms(5,6) by auto
  then have first: "complete cfg iter h True No_error w (c, s) =
      proceed cfg iter h (after_head iter fs (length part)) (?c, s)"
    using head_arrives [OF assms(1,3), of part iter h s] part(1) by simp
  show ?thesis
  proof (cases "length part < length content")
    case False
    then have "concat ws' = []" "content = part" using part(2) by auto
    moreover have "ws' = []"
      using assms(4) ws first False dispatch_final by (auto simp: after_head_content [OF assms(2)])
    ultimately show ?thesis using ws first False by (simp add: after_head_content [OF assms(2)])
  next
    case True
    let ?n = "length content - length part"
    let ?c1 = "(set_timeout (timeout_content cfg) ?c)\<lparr>awaiting := Content_read ?n\<rparr>"
    have c1: "complete cfg iter h True No_error w (c, s) = (?c1, s)"
      using first True by (simp add: after_head_content [OF assms(2)])
    obtain w2 ws2 where ws2: "ws' = w2 # ws2" using True part(2) by (cases ws') auto
    have "can_complete cfg w2 (?c1, s)" using assms(4) ws ws2 c1 by simp
    then have "length w2 = ?n"
      using assms(6) ws ws2 part by (auto simp: can_complete_def set_timeout_def)
    then have rest: "w2 = drop (length part) content" "concat ws2 = []" "part @ w2 = content"
      using part(2) ws2 by auto
    have "complete cfg iter h True No_error w2 (?c1, s) =
        dispatch cfg h (?c1\<lparr>timer := None, streambuf := content\<rparr>, s)"
      using complete_read [of ?c1 "?c1\<lparr>timer := None, streambuf := content\<rparr>" w2 cfg iter h No_error s]
        rest(3) assms(5,6) by (simp add: set_timeout_def read_content_def)
    also have "?c1\<lparr>timer := None, streambuf := content\<rparr> =
        (c\<lparr>timer := None, request := ?r, streambuf := content\<rparr>)\<lparr>awaiting := Content_read ?n\<rparr>"
      by (cases c) (simp add: set_timeout_def)
    finally have second: "complete cfg iter h True No_error w2 (?c1, s) =
        dispatch cfg h (c\<lparr>timer := None, request := ?r, streambuf := content\<rparr>, s)"
      by (simp only: dispatch_awaiting)
    moreover have "ws2 = []" using assms(4) ws ws2 c1 second dispatch_final by auto
    ultimately show ?thesis using ws ws2 c1 by simp
  qed
qed

lemma in_chunks_can_complete:
  assumes "in_chunks cfg c [] body" "length (streambuf c) \<le> max_request_streambuf_size cfg"
  shows "can_complete cfg [] (c, s)"
proof -
  have "until_crlf (streambuf c) \<noteq> None" if "awaiting c = Line_read"
    using assms(1) that
    by (subst (asm) in_chunks_def, subst (asm) remaining_def, subst (asm) (2) read_chunks.simps) (auto split: option.splits)
  then show ?thesis
    using assms by (auto simp: in_chunks_def can_complete_def remaining_def split: if_splits)
qed

lemma chunks_arrive_whole:
  assumes "plain_head m p qs v fs" "mm_find iter ''Content-Length'' fs = None"
    and "mm_find iter ''Transfer-Encoding'' fs = Some ''chunked''" "fresh cfg c"
    and "arrivals cfg iter h ws (c, s)" "concat ws = head_text m p qs v fs @ inp"
    and "read_chunks (max_request_streambuf_size cfg) inp [] = Chunks_done body"
    and "length (concat ws) < max_request_streambuf_size cfg" "\<not> can_complete cfg [] (arrive cfg iter h ws (c, s))"
  shows "\<exists>a. arrive cfg iter h ws (c, s) = dispatch cfg h
      (c\<lparr>request := head_parts m p qs v fs, streambuf := body, chunks_streambuf := a, timer := None\<rparr>, s)"
proof -
  let ?H = "head_text m p qs v fs" and ?r = "head_parts m p qs v fs"
  have "?H \<noteq> []" by (simp add: head_text_def)
  then obtain w ws' where ws: "ws = w # ws'" using assms(6) by (cases ws) auto
  then obtain part where part: "w = ?H @ part" "part @ concat ws' = inp"
    using first_arrival [OF assms(1,4), of w s "concat ws'" inp] assms(5,6) by auto
  let ?c = "read_chunked_transfer_encoded cfg (c\<lparr>timer := None, request := ?r, streambuf := part, chunks_streambuf := []\<rparr>)"
  have "length (?H @ part) < max_request_streambuf_size cfg" using part(2) assms(6,8) by auto
  then have first: "complete cfg iter h True No_error w (c, s) = (?c, s)"
    using head_arrives [OF assms(1,4), of part iter h s] assms(2,3) part(1) by (simp add: after_head_def)
  have same: "same_request (c\<lparr>request := ?r\<rparr>) ?c"
    by (rule same_requestI [where p = Line_read and t = "timer ?c" and b = part and a = "[]"])
      (cases c; simp add: read_chunked_transfer_encoded_def set_timeout_def)
  have c: "streambuf ?c = part" "in_chunks cfg ?c (concat ws' @ []) body"
    using assms(7) part(2)
    by (simp_all add: in_chunks_def remaining_def read_chunked_transfer_encoded_def set_timeout_def)
  have arr: "arrivals cfg iter h ws' (?c, s)" "arrive cfg iter h ws (c, s) = arrive cfg iter h ws' (?c, s)"
    using assms(5) ws first by simp_all
  have len: "length (streambuf ?c @ concat ws') < max_request_streambuf_size cfg"
    using assms(8) ws part c(1) by simp
  from chunks_arrive [OF c(2) arr(1) len] consider
      (go) c' where "arrive cfg iter h ws (c, s) = (c', s)" "in_chunks cfg c' [] body"
        "length (streambuf c') \<le> length (streambuf ?c @ concat ws')"
    | (called) "dispatched cfg h ?c s [] body (arrive cfg iter h ws (c, s))"
    using arr(2) by auto
  then show ?thesis
  proof cases
    case go
    then have "can_complete cfg [] (c', s)" using len by (intro in_chunks_can_complete) auto
    then show ?thesis using assms(9) go(1) by simp
  next
    case called
    from dispatched_same [OF same this] obtain b a where "arrive cfg iter h ws (c, s) = dispatch cfg h
        (c\<lparr>request := ?r, streambuf := b @ a, chunks_streambuf := a, timer := None\<rparr>, s)" "body = b @ [] @ a"
      unfolding dispatched_def by blast
    then show ?thesis by auto
  qed
qed


section \<open>Properties\<close>

text \<open>
  C19: A request with a content of known length (or none) is handed to its handler as a whole:
  whatever pieces the bytes of the head and the content arrive in, once all of them have come
  the handler has been called with the parts of the head and exactly the content.
\<close>

theorem request_in_any_segmentation:
  assumes "plain_head m p qs v fs" "has_content iter fs content" "fresh cfg c"
    and "arrivals cfg iter h ws (c, s)" "concat ws = head_text m p qs v fs @ content"
    and "length (concat ws) < max_request_streambuf_size cfg"
  shows "arrive cfg iter h ws (c, s) =
    dispatch cfg h (c\<lparr>timer := None, request := head_parts m p qs v fs, streambuf := content\<rparr>, s)"
  using assms by (rule content_arrives)

definition example_head :: "fields \<Rightarrow> string" where
  "example_head fs = head_text ''POST'' ''/RoSA/sensor'' [] ''1.1'' fs"

lemma example_head_plain:
  "list_all plain_field fs \<Longrightarrow> plain_head ''POST'' ''/RoSA/sensor'' [] ''1.1'' fs"
  by (simp add: plain_head_def plain_target_def)

theorem request_in_any_segmentation_witness:
  "fst (arrive (new_Config 80) rev (\<lambda>r txt. ret (Some txt))
      [example_head [(''Content-Length'', ''3'')] @ ''a'', ''bc''] (read (new_Config 80) (new_Session new_Connection), ())) =
    new_Connection\<lparr>awaiting := Response_write ''abc'' False, timer := Some 300, streambuf := ''abc'',
      request := head_parts ''POST'' ''/RoSA/sensor'' [] ''1.1'' [(''Content-Length'', ''3'')]\<rparr>"
proof -
  let ?fs = "[(''Content-Length'', ''3'')]" and ?cfg = "new_Config 80" and ?h = "\<lambda>r txt. ret (Some txt)"
  let ?c = "read ?cfg (new_Session new_Connection)" let ?H = "example_head ?fs"
  have plain: "plain_head ''POST'' ''/RoSA/sensor'' [] ''1.1'' ?fs"
    by (rule example_head_plain) (simp add: plain_field_def)
  have three: "stoull ''3'' = Inr 3"
    by (simp add: stoull_def stoul_of_def is_space_def number_def is_digit_def hex_value_def to_lower_def)
  then have content: "has_content rev ?fs ''abc''"
    by (simp add: has_content_def mm_find_def case_insensitive_equal_def)
  have fresh: "fresh ?cfg ?c" by (auto simp: fresh_def)
  have len: "length (?H @ ''abc'') < max_request_streambuf_size ?cfg"
    by (simp add: example_head_def head_text_def request_line_def header_text_def header_line_def CRLF_def new_Config_def)
  have first: "complete ?cfg rev ?h True No_error (?H @ ''a'') (?c, ()) =
      ((set_timeout 300 (?c\<lparr>timer := None, request := head_parts ''POST'' ''/RoSA/sensor'' [] ''1.1'' ?fs,
        streambuf := ''a''\<rparr>))\<lparr>awaiting := Content_read 2\<rparr>, ())"
    using head_arrives [OF plain fresh, of "''a''" rev ?h "()"] len after_head_content [OF content, of 1]
    by (simp add: example_head_def new_Config_def)
  have "arrivals ?cfg rev ?h [?H @ ''a'', ''bc''] (?c, ())"
    using first len until_head_text [OF plain, of "''a''"]
    by (simp add: can_complete_def set_timeout_def read_def new_Session_def example_head_def)
  from request_in_any_segmentation [OF plain content fresh this] len show ?thesis
    by (simp add: example_head_def dispatch_def send_def set_timeout_def read_def new_Session_def
        new_Connection_def new_Config_def)
qed

text \<open>
  C20: A body in chunks is put together the same way in whatever pieces it arrives: once all
  of the request has come and nothing that has come can end a read any more, the handler
  has been called with the contents of the chunks in order.
\<close>

theorem chunked_in_any_segmentation:
  assumes "plain_head m p qs v fs" "mm_find iter ''Content-Length'' fs = None"
    and "mm_find iter ''Transfer-Encoding'' fs = Some ''chunked''" "fresh cfg c"
    and "arrivals cfg iter h ws (c, s)" "concat ws = head_text m p qs v fs @ chunked_body bs"
    and "\<forall>b \<in> set bs. b \<noteq> [] \<and> length b < 2 ^ 63" "length (concat ws) < max_request_streambuf_size cfg"
    and "\<not> can_complete cfg [] (arrive cfg iter h ws (c, s))"
  shows "\<exists>a. arrive cfg iter h ws (c, s) = dispatch cfg h
      (c\<lparr>request := head_parts m p qs v fs, streambuf := concat bs, chunks_streambuf := a, timer := None\<rparr>, s)"
proof -
  have "length (concat bs) \<le> length (chunked_body bs)"
    by (induction bs) (simp_all add: chunked_body_def chunk_text_def)
  then have "read_chunks (max_request_streambuf_size cfg) (chunked_body bs @ []) [] = Chunks_done ([] @ [] @ concat bs)"
    using assms(6-8) by (intro read_chunks_body) auto
  then show ?thesis using chunks_arrive_whole [OF assms(1-6) _ assms(8,9)] by simp
qed

theorem chunked_in_any_segmentation_witness:
  "\<exists>a. arrive (new_Config 80) rev (\<lambda>r txt. ret (Some txt))
      [example_head [(''Transfer-Encoding'', ''chunked'')] @ ''2'', CRLF @ ''ab'' @ CRLF, ''0'' @ CRLF @ CRLF]
      (read (new_Config 80) (new_Session new_Connection), ()) =
    dispatch (new_Config 80) (\<lambda>r txt. ret (Some txt))
      ((read (new_Config 80) (new_Session new_Connection))
        \<lparr>request := head_parts ''POST'' ''/RoSA/sensor'' [] ''1.1'' [(''Transfer-Encoding'', ''chunked'')],
         streambuf := ''ab'', chunks_streambuf := a, timer := None\<rparr>, ())"
proof -
  let ?fs = "[(''Transfer-Encoding'', ''chunked'')]" and ?cfg = "new_Config 80"
  let ?h = "\<lambda>r txt. ret (Some txt) :: (unit, string option) op"
  let ?c = "read ?cfg (new_Session new_Connection)" let ?H = "example_head ?fs"
  let ?r = "head_parts ''POST'' ''/RoSA/sensor'' [] ''1.1'' ?fs"
  let ?ws = "[?H @ ''2'', CRLF @ ''ab'' @ CRLF, ''0'' @ CRLF @ CRLF]"
  have plain: "plain_head ''POST'' ''/RoSA/sensor'' [] ''1.1'' ?fs"
    by (rule example_head_plain) (simp add: plain_field_def)
  have fresh: "fresh ?cfg ?c" by (auto simp: fresh_def)
  have find: "mm_find rev ''Content-Length'' ?fs = None" "mm_find rev ''Transfer-Encoding'' ?fs = Some ''chunked''"
    by (simp_all add: mm_find_def case_insensitive_equal_def to_lower_def)
  have body: "''2'' @ CRLF @ ''ab'' @ CRLF @ ''0'' @ CRLF @ CRLF = chunked_body [''ab'']"
    by (simp add: chunked_body_def chunk_text_def CRLF_def show_hex.simps hex_chars_def)
  have len: "length (?H @ ''2'') < max_request_streambuf_size ?cfg" "length (concat ?ws) < max_request_streambuf_size ?cfg"
    by (simp_all add: example_head_def head_text_def request_line_def header_text_def header_line_def CRLF_def new_Config_def)
  define c1 where "c1 = read_chunked_transfer_encoded ?cfg
    (?c\<lparr>timer := None, request := ?r, streambuf := ''2'', chunks_streambuf := []\<rparr>)"
  have first: "complete ?cfg rev ?h True No_error (?H @ ''2'') (?c, ()) = (c1, ())"
    using head_arrives [OF plain fresh, of "''2''" rev ?h "()"] len(1) find
    by (simp add: example_head_def after_head_def c1_def)
  have digit: "stoul16 ''2'' = Inr 2" "stoul16 ''0'' = Inr 0"
    using stoul16_show_hex [of 2] stoul16_show_hex [of 0] by (simp_all add: show_hex.simps hex_chars_def)
  define c2 where "c2 = read_chunked_transfer_encoded ?cfg
    (c1\<lparr>timer := None, streambuf := [], chunks_streambuf := ''ab''\<rparr>)"
  have second: "complete ?cfg rev ?h True No_error (CRLF @ ''ab'' @ CRLF) (c1, ()) = (c2, ())"
    using digit
    by (simp add: complete_def c1_def c2_def read_chunked_transfer_encoded_def set_timeout_def cancel_timeout_def
        line_completed_def chunk_completed_def getline_def CRLF_def new_Config_def Let_def)
  define c3 where "c3 = c2\<lparr>timer := None, streambuf := ''ab''\<rparr>"
  have third: "complete ?cfg rev ?h True No_error (''0'' @ CRLF @ CRLF) (c2, ()) = dispatch ?cfg ?h (c3, ())"
    using digit
    by (simp add: complete_def c1_def c2_def c3_def read_chunked_transfer_encoded_def set_timeout_def cancel_timeout_def
        line_completed_def chunk_completed_def getline_def CRLF_def new_Config_def Let_def
        read_def new_Session_def new_Connection_def)
  have arr: "arrivals ?cfg rev ?h ?ws (?c, ())"
    using first second third len until_head_text [OF plain, of "''2''"]
    by (simp add: can_complete_def example_head_def c1_def c2_def read_chunked_transfer_encoded_def set_timeout_def
        read_def new_Session_def CRLF_def new_Config_def)
  have idle: "\<not> can_complete ?cfg [] (arrive ?cfg rev ?h ?ws (?c, ()))"
    using first second third dispatch_not_reading [of ?cfg ?h c3 "()"] by (simp add: can_complete_def)
  have whole: "concat ?ws = head_text ''POST'' ''/RoSA/sensor'' [] ''1.1'' ?fs @ chunked_body [''ab'']"
    unfolding body [symmetric] by (simp add: example_head_def)
  show ?thesis
    by (rule chunked_in_any_segmentation [OF plain find fresh arr whole _ len(2) idle, simplified concat.simps append_Nil2])
      simp
qed

text \<open>
  C25: The bytes that come with a request beyond its content are not kept for the next one:
  the handler is given all of them as its content, and after the response a new request is
  read from an empty buffer.  A second request that a client sends without waiting is lost.
\<close>

theorem surplus_bytes_taken:
  assumes "plain_head m p qs v fs" "has_content iter fs content" "fresh cfg c"
    and "length (head_text m p qs v fs @ content @ surplus) < max_request_streambuf_size cfg"
    and "h (head_parts m p qs v fs) (content @ surplus) s = (Return (Some answer), s')"
    and "keep_connection iter True False (head_parts m p qs v fs)"
  shows "\<exists>c'. arrive cfg iter h [head_text m p qs v fs @ content @ surplus, []] (c, s) = (c', s') \<and>
    awaiting c' = Head_read \<and> streambuf c' = [] \<and> delivered c' = delivered c @ [answer]"
proof -
  have "complete cfg iter h True No_error (head_text m p qs v fs @ content @ surplus) (c, s) =
      dispatch cfg h (c\<lparr>timer := None, request := head_parts m p qs v fs, streambuf := content @ surplus\<rparr>, s)"
    using head_arrives [OF assms(1,3,4), of iter h s] by (simp add: after_head_content [OF assms(2)])
  then show ?thesis
    using assms(5,6)
    by (simp add: dispatch_def send_def complete_def response_written_def read_def new_Session_def
        set_timeout_def cancel_timeout_def Let_def)
qed

theorem surplus_bytes_taken_witness:
  "\<exists>c'. arrive (new_Config 80) rev (\<lambda>r txt. ret (Some txt)) [example_head [] @ ''GET /'', []]
      (read (new_Config 80) (new_Session new_Connection), ()) = (c', ()) \<and>
    awaiting c' = Head_read \<and> streambuf c' = [] \<and> delivered c' = [''GET /'']"
proof -
  have "plain_head ''POST'' ''/RoSA/sensor'' [] ''1.1'' []" by (rule example_head_plain) simp
  moreover have "has_content rev [] []" by (simp add: has_content_def mm_find_def)
  moreover have "fresh (new_Config 80) (read (new_Config 80) (new_Session new_Connection))" by (auto simp: fresh_def)
  moreover have "length (example_head [] @ [] @ ''GET /'') < max_request_streambuf_size (new_Config 80)"
    by (simp add: example_head_def head_text_def request_line_def header_text_def CRLF_def new_Config_def)
  moreover have "keep_connection rev True False (head_parts ''POST'' ''/RoSA/sensor'' [] ''1.1'' [])"
    by (simp add: keep_connection_def head_parts_def)
  ultimately show ?thesis
    using surplus_bytes_taken [where h = "\<lambda>r txt. ret (Some txt)" and iter = rev and fs = "[]" and content = "[]" and
        surplus = "''GET /''" and s = "()" and cfg = "new_Config 80" and answer = "''GET /''" and s' = "()" and
        c = "read (new_Config 80) (new_Session new_Connection)"]
    by (simp add: example_head_def read_def new_Session_def new_Connection_def set_timeout_def)
qed

end
