(* ===== verification/HttpSequence.thy ===== *)
theory HttpSequence
  imports HttpRequests
begin

text \<open>
  A client that waits for each response before it sends the next request, on one connection
  that is kept.  The chain of the completion handlers is shown to do what a plain loop does
  that calls the handlers of the requests in turn and collects their responses.
\<close>

section \<open>The reference\<close>

text \<open>A request as its client sends it: the parts of the head and the content, in chunks or not.\<close>

datatype body = Whole string | In_chunks "string list"

fun body_text :: "body \<Rightarrow> string" where
  "body_text (Whole str) = str"
| "body_text (In_chunks bs) = chunked_body bs"

fun body_content :: "body \<Rightarrow> string" where
  "body_content (Whole str) = str"
| "body_content (In_chunks bs) = concat bs"

fun announced :: "(fields \<Rightarrow> fields) \<Rightarrow> fields \<Rightarrow> body \<Rightarrow> bool" where
  "announced iter fs (Whole str) \<longleftrightarrow> has_content iter fs str"
| "announced iter fs (In_chunks bs) \<longleftrightarrow> mm_find iter ''Content-Length'' fs = None \<and>
     mm_find iter ''Transfer-Encoding'' fs = Some ''chunked'' \<and> (\<forall>b \<in> set bs. b \<noteq> [] \<and> length b < 2 ^ 63)"

definition request_text :: "RequestHead \<Rightarrow> body \<Rightarrow> string" where
  "request_text r b =
     head_text (req_method r) (req_path r) (req_query_string r) (req_http_version r) (req_header r) @ body_text b"

definition proper_request :: "(fields \<Rightarrow> fields) \<Rightarrow> RequestHead \<Rightarrow> body \<Rightarrow> bool" where
  "proper_request iter r b \<longleftrightarrow>
     plain_head (req_method r) (req_path r) (req_query_string r) (req_http_version r) (req_header r) \<and>
     announced iter (req_header r) b"

text \<open>The requests with the handler of each, run in turn; one that sends nothing is the last.\<close>

type_synonym 's exchange = "'s handler \<times> RequestHead \<times> body"

fun serve_in_turn :: "'s exchange list \<Rightarrow> ('s, string list) op" where
  "serve_in_turn [] = ret []"
| "serve_in_turn ((h, r, b) # xs) =
     andthen (h r (body_content b)) (\<lambda>answer.
       case answer of
         None \<Rightarrow> ret []
       | Some str \<Rightarrow> andthen (serve_in_turn xs) (\<lambda>answers. ret (str # answers)))"

section \<open>The connection\<close>

text \<open>The pieces of each request arrive, then its response has gone out.\<close>

fun exchanges :: "Config \<Rightarrow> (fields \<Rightarrow> fields) \<Rightarrow> ('s exchange \<times> string list) list \<Rightarrow>
    Connection \<times> 's \<Rightarrow> Connection \<times> 's" where
  "exchanges cfg iter [] cs = cs"
| "exchanges cfg iter (((h, r, b), ws) # xs) cs =
     exchanges cfg iter xs (complete cfg iter h True No_error [] (arrive cfg iter h ws cs))"

text \<open>
  What the client and the network do: every request is sent whole, in any pieces that end a read
  when they arrive, and the next one only when the connection is to be kept.
\<close>

fun in_turn :: "Config \<Rightarrow> (fields \<Rightarrow> fields) \<Rightarrow> ('s exchange \<times> string list) list \<Rightarrow>
    Connection \<times> 's \<Rightarrow> bool" where
  "in_turn cfg iter [] cs = True"
| "in_turn cfg iter (((h, r, b), ws) # xs) cs \<longleftrightarrow>
     proper_request iter r b \<and> concat ws = request_text r b \<and>
     length (request_text r b) < max_request_streambuf_size cfg \<and>
     arrivals cfg iter h ws cs \<and> \<not> can_complete cfg [] (arrive cfg iter h ws cs) \<and>
     (xs \<noteq> [] \<longrightarrow> keep_connection iter True False r) \<and>
     in_turn cfg iter xs (complete cfg iter h True No_error [] (arrive cfg iter h ws cs))"

lemma head_parts_id:
  "head_parts (req_method r) (req_path r) (req_query_string r) (req_http_version r) (req_header r) = r"
  by (simp add: head_parts_def)

lemma request_arrives:
  assumes "proper_request iter r b" "fresh cfg c" "arrivals cfg iter h ws (c, s)"
    and "concat ws = request_text r b" "length (request_text r b) < max_request_streambuf_size cfg"
    and "\<not> can_complete cfg [] (arrive cfg iter h ws (c, s))"
  shows "\<exists>c'. arrive cfg iter h ws (c, s) = dispatch cfg h (c', s) \<and> request c' = r \<and>
    streambuf c' = body_content b \<and> delivered c' = delivered c"
proof (cases b)
  case (Whole str)
  then show ?thesis
    using content_arrives [of _ _ _ _ _ iter str cfg c h ws s] assms
    by (fastforce simp: proper_request_def request_text_def head_parts_id)
next
  case (In_chunks bs)
  have "length (concat bs) \<le> length (chunked_body bs)"
    by (induction bs) (simp_all add: chunked_body_def chunk_text_def)
  then have "read_chunks (max_request_streambuf_size cfg) (chunked_body bs @ []) [] = Chunks_done ([] @ [] @ concat bs)"
    using assms(1,4,5) In_chunks
    by (intro read_chunks_body) (auto simp: proper_request_def request_text_def)
  then show ?thesis
    using chunks_arrive_whole [of _ _ _ _ _ iter cfg c h ws s "chunked_body bs" "concat bs"] assms In_chunks
    by (fastforce simp: proper_request_def request_text_def head_parts_id)
qed

lemma next_session_delivered [simp]: "delivered (read cfg (new_Session c)) = delivered c"
  by (simp add: read_def set_timeout_def new_Session_def)

lemma response_sent:
  assumes "h (request c) (streambuf c) s = (Return (Some str), s')"
  shows "\<exists>c'. complete cfg iter h' True No_error [] (dispatch cfg h (c, s)) = (c', s') \<and>
    delivered c' = delivered c @ [str] \<and>
    (if keep_connection iter True False (request c) then fresh cfg c' else awaiting c' = Ended)"
  using assms
  by (auto simp: dispatch_def send_def complete_def response_written_def set_timeout_def cancel_timeout_def
      fresh_def Let_def)

lemma serve_in_turn_cons:
  assumes "serve_in_turn ((h, r, b) # xs) s = (Return answers, s')" "length answers = Suc (length xs)"
  obtains str answers' s1 where "h r (body_content b) s = (Return (Some str), s1)"
    "serve_in_turn xs s1 = (Return answers', s')" "answers = str # answers'" "length answers' = length xs"
  using assms by (auto simp: andthen_def split: prod.splits outcome.splits option.splits)

lemma exchanges_in_turn:
  assumes "fresh cfg c" "in_turn cfg iter xs (c, s)"
    and "serve_in_turn (map fst xs) s = (Return answers, s')" "length answers = length xs"
  shows "\<exists>c'. exchanges cfg iter xs (c, s) = (c', s') \<and> delivered c' = delivered c @ answers \<and>
    (if xs = [] \<or> keep_connection iter True False (fst (snd (fst (last xs)))) then fresh cfg c'
     else awaiting c' = Ended)"
  using assms
proof (induction xs arbitrary: c s answers)
  case Nil
  then show ?case by simp
next
  case (Cons x xs)
  obtain h r b ws where x: "x = ((h, r, b), ws)" by (cases x) auto
  have "serve_in_turn ((h, r, b) # map fst xs) s = (Return answers, s')" "length answers = Suc (length (map fst xs))"
    using Cons.prems(3,4) by (simp_all add: x)
  from serve_in_turn_cons [OF this] obtain str answers' s1 where a: "h r (body_content b) s = (Return (Some str), s1)"
      "serve_in_turn (map fst xs) s1 = (Return answers', s')" "answers = str # answers'" "length answers' = length xs"
    by (metis length_map)
  obtain c1 where c1: "arrive cfg iter h ws (c, s) = dispatch cfg h (c1, s)" "request c1 = r"
      "streambuf c1 = body_content b" "delivered c1 = delivered c"
    using request_arrives [of iter r b cfg c h ws s] Cons.prems(1,2) x by auto
  obtain c2 where c2: "complete cfg iter h True No_error [] (arrive cfg iter h ws (c, s)) = (c2, s1)"
      "delivered c2 = delivered c @ [str]" "if keep_connection iter True False r then fresh cfg c2 else awaiting c2 = Ended"
    using response_sent [of h c1 s str s1 cfg iter h] a(1) c1 by auto
  show ?case
  proof (cases "xs = []")
    case True
    then show ?thesis using c2 a x by simp
  next
    case False
    then have "fresh cfg c2" "in_turn cfg iter xs (c2, s1)" using Cons.prems(2) x c2 by auto
    from Cons.IH [OF this a(2,4)] show ?thesis using False x c2 a(3) by auto
  qed
qed

text \<open>Requests that come in one piece each are such a run.\<close>

definition one_piece :: "'s exchange \<Rightarrow> 's exchange \<times> string list" where
  "one_piece x = (x, [request_text (fst (snd x)) (snd (snd x))])"

definition short_request :: "Config \<Rightarrow> (fields \<Rightarrow> fields) \<Rightarrow> 's exchange \<Rightarrow> bool" where
  "short_request cfg iter x \<longleftrightarrow> proper_request iter (fst (snd x)) (snd (snd x)) \<and>
     (\<exists>str. snd (snd x) = Whole str) \<and> keep_connection iter True False (fst (snd x)) \<and>
     length (request_text (fst (snd x)) (snd (snd x))) < max_request_streambuf_size cfg"

lemma one_piece_arrives:
  assumes "short_request cfg iter (h, r, b)" "fresh cfg c"
  shows "arrivals cfg iter h [request_text r b] (c, s)" "\<not> can_complete cfg [] (arrive cfg iter h [request_text r b] (c, s))"
proof -
  obtain str where b: "b = Whole str" using assms(1) by (auto simp: short_request_def)
  have c: "awaiting c = Head_read" "streambuf c = []"
    using assms(2) by (auto simp: fresh_def read_def new_Session_def set_timeout_def)
  have p: "plain_head (req_method r) (req_path r) (req_query_string r) (req_http_version r) (req_header r)"
      "has_content iter (req_header r) str" "length (request_text r b) < max_request_streambuf_size cfg"
    using assms(1) b by (simp_all add: short_request_def proper_request_def)
  have "complete cfg iter h True No_error (request_text r b) (c, s) =
      dispatch cfg h (c\<lparr>timer := None, request := r, streambuf := str\<rparr>, s)"
    using head_arrives [OF p(1) assms(2), of str iter h s] p(3) b
    by (simp add: request_text_def after_head_content [OF p(2)] head_parts_id)
  then show "\<not> can_complete cfg [] (arrive cfg iter h [request_text r b] (c, s))"
    by (simp add: can_complete_def dispatch_not_reading)
  show "arrivals cfg iter h [request_text r b] (c, s)"
    using c p(3) until_head_text [OF p(1), of str] by (simp add: can_complete_def request_text_def b)
qed

lemma in_turn_one_piece:
  assumes "fresh cfg c" "list_all (short_request cfg iter) xs"
    and "serve_in_turn xs s = (Return answers, s')" "length answers = length xs"
  shows "in_turn cfg iter (map one_piece xs) (c, s)"
  using assms
proof (induction xs arbitrary: c s answers)
  case (Cons x xs)
  obtain h r b where x: "x = (h, r, b)" by (cases x)
  have "serve_in_turn ((h, r, b) # xs) s = (Return answers, s')" "length answers = Suc (length xs)"
    using Cons.prems(3,4) by (simp_all add: x)
  from serve_in_turn_cons [OF this] obtain str answers' s1 where a: "h r (body_content b) s = (Return (Some str), s1)"
      "serve_in_turn xs s1 = (Return answers', s')" "answers = str # answers'" "length answers' = length xs"
    by metis
  have short: "short_request cfg iter (h, r, b)" using Cons.prems(2) x by simp
  note arr = one_piece_arrives [OF short Cons.prems(1), of s]
  obtain c1 where c1: "arrive cfg iter h [request_text r b] (c, s) = dispatch cfg h (c1, s)" "request c1 = r"
      "streambuf c1 = body_content b"
    using request_arrives [OF _ Cons.prems(1) arr(1) _ _ arr(2)] short by (auto simp: short_request_def)
  then obtain c2 where c2: "complete cfg iter h True No_error [] (arrive cfg iter h [request_text r b] (c, s)) = (c2, s1)"
      "fresh cfg c2"
    using response_sent [of h c1 s str s1 cfg iter h] a(1) short by (auto simp: short_request_def)
  have "in_turn cfg iter (map one_piece xs) (c2, s1)"
    using Cons.IH [OF c2(2) _ a(2,4)] Cons.prems(2) by simp
  then show ?case
    using short arr c2(1) by (simp add: x one_piece_def [of "(h, r, b)"] short_request_def del: arrive.simps arrivals.simps)
qed simp

section \<open>Properties\<close>

text \<open>
  C21: On a connection that is kept, a client that waits for each response gets exactly what the
  handlers answer when they are called one after the other: every request, with a content
  of known length or in chunks and in whatever pieces, is given whole to its handler, no
  request changes another one, the responses come in order, and then the connection reads on or ends
  as the last request says.
\<close>

theorem http_serves_in_order:
  assumes "fresh cfg c" "in_turn cfg iter xs (c, s)"
    and "serve_in_turn (map fst xs) s = (Return answers, s')" "length answers = length xs"
  shows "\<exists>c'. exchanges cfg iter xs (c, s) = (c', s') \<and> delivered c' = delivered c @ answers \<and>
    awaiting c' = (if xs = [] \<or> keep_connection iter True False (fst (snd (fst (last xs)))) then Head_read else Ended)"
proof -
  have "awaiting c' = Head_read" if "fresh cfg c'" for c'
    using that by (auto simp: fresh_def read_def)
  then show ?thesis using exchanges_in_turn [OF assms] by (auto split: if_splits)
qed

definition counting :: "int handler" where
  "counting = (\<lambda>r content n. (Return (Some (show_int n @ content)), n + 1))"

theorem http_serves_in_order_witness:
  "\<exists>c'. exchanges (new_Config 80) rev (map one_piece
      [(counting, head_parts ''GET'' ''/'' [] ''1.1'' [], Whole []),
       (counting, head_parts ''POST'' ''/'' [] ''1.1'' [(''Content-Length'', ''1'')], Whole ''a'')])
      (read (new_Config 80) (new_Session new_Connection), 7) = (c', 9) \<and>
    delivered c' = [''7'', ''8a''] \<and> awaiting c' = Head_read"
proof -
  let ?cfg = "new_Config 80"
  let ?c = "read ?cfg (new_Session new_Connection)"
  let ?xs = "[(counting, head_parts ''GET'' ''/'' [] ''1.1'' [], Whole []),
    (counting, head_parts ''POST'' ''/'' [] ''1.1'' [(''Content-Length'', ''1'')], Whole ''a'')]"
  have c: "fresh ?cfg ?c" "delivered ?c = []" by (auto simp: fresh_def new_Connection_def)
  have one: "stoull ''1'' = Inr 1"
    by (simp add: stoull_def stoul_of_def is_space_def number_def is_digit_def hex_value_def to_lower_def)
  have "list_all (short_request ?cfg rev) ?xs"
    by (simp add: short_request_def proper_request_def head_parts_def plain_head_def plain_target_def plain_field_def
        has_content_def mm_find_def one keep_connection_def case_insensitive_equal_map to_lower_def
        request_text_def head_text_def request_line_def header_text_def header_line_def CRLF_def new_Config_def)
  note short = this
  have run: "serve_in_turn ?xs 7 = (Return [''7'', ''8a''], 9)"
    by (simp add: counting_def andthen_def show_int_def show_nat_eval digit_char_def)
  have "in_turn ?cfg rev (map one_piece ?xs) (?c, 7)"
    by (rule in_turn_one_piece [OF c(1) short run]) simp
  moreover have "map fst (map one_piece ?xs) = ?xs" by (simp add: one_piece_def)
  ultimately show ?thesis
    using http_serves_in_order [of ?cfg ?c rev "map one_piece ?xs" 7 "[''7'', ''8a'']" 9] c run
    by (simp add: one_piece_def keep_connection_def head_parts_def case_insensitive_equal_map to_lower_def
        del: exchanges.simps serve_in_turn.simps)
qed

end
