(* ===== verification/Store.thy ===== *)
theory Store
  imports Prelude
begin

text \<open>
  The contract of a store of names, as \<open>SensorList\<close> and \<open>SessionList\<close> provide it:
  \<open>add\<close> never fails and keeps what is there, \<open>remove\<close> throws
  \<open>std::invalid_argument\<close> for a name that is not there.  A client sees a set of
  names; \<open>run_store\<close> runs a history of additions and removals.
\<close>

datatype store_op = Add string | Remove string

fun run_store :: "(string \<Rightarrow> ('s, unit) op) \<Rightarrow> (string \<Rightarrow> ('s, unit) op) \<Rightarrow>
    store_op list \<Rightarrow> 's \<Rightarrow> 's" where
  "run_store add remove [] s = s"
| "run_store add remove (Add a # ops) s = run_store add remove ops (snd (add a s))"
| "run_store add remove (Remove a # ops) s = run_store add remove ops (snd (remove a s))"

fun names_after :: "store_op list \<Rightarrow> string set \<Rightarrow> string set" where
  "names_after [] A = A"
| "names_after (Add a # ops) A = names_after ops (insert a A)"
| "names_after (Remove a # ops) A = names_after ops (A - {a})"

locale keyed_store =
  fixes member :: "'s \<Rightarrow> string \<Rightarrow> bool"
    and add :: "string \<Rightarrow> ('s, unit) op"
    and remove :: "string \<Rightarrow> ('s, unit) op"
    and invar :: "'s \<Rightarrow> bool"
  assumes add_returns: "fst (add a s) = Return ()"
    and add_invar: "invar s \<Longrightarrow> invar (snd (add a s))"
    and add_member: "invar s \<Longrightarrow> member (snd (add a s)) k \<longleftrightarrow> k = a \<or> member s k"
    and remove_invar: "invar s \<Longrightarrow> invar (snd (remove a s))"
    and remove_member: "invar s \<Longrightarrow> member (snd (remove a s)) k \<longleftrightarrow> k \<noteq> a \<and> member s k"
    and remove_hit: "invar s \<Longrightarrow> member s a \<Longrightarrow> fst (remove a s) = Return ()"
    and remove_miss: "invar s \<Longrightarrow> \<not> member s a \<Longrightarrow>
      \<exists>e. is_invalid_argument e \<and> remove a s = (Throw e, s)"
begin

lemma run_invar: "invar s \<Longrightarrow> invar (run_store add remove ops s)"
proof (induction ops arbitrary: s)
  case (Cons x ops)
  then show ?case by (cases x) (simp_all add: add_invar remove_invar)
qed simp

lemma run_refines:
  "invar s \<Longrightarrow> {k. member (run_store add remove ops s) k} = names_after ops {k. member s k}"
proof (induction ops arbitrary: s)
  case (Cons x ops)
  show ?case
  proof (cases x)
    case (Add a)
    have "{k. member (snd (add a s)) k} = insert a {k. member s k}"
      using Cons.prems by (auto simp: add_member)
    with Add Cons show ?thesis by (simp add: add_invar)
  next
    case (Remove a)
    have "{k. member (snd (remove a s)) k} = {k. member s k} - {a}"
      using Cons.prems by (auto simp: remove_member)
    with Remove Cons show ?thesis by (simp add: remove_invar)
  qed
qed simp

lemma remove_outcome:
  "invar s \<Longrightarrow> fst (remove a s) = Return () \<longleftrightarrow> member s a"
  using remove_hit remove_miss by fastforce

lemma remove_twice:
  assumes "invar s" "member s a"
  shows "\<exists>e. is_invalid_argument e \<and> fst (remove a (snd (remove a s))) = Throw e"
proof -
  have "\<not> member (snd (remove a s)) a" using assms by (simp add: remove_member)
  then show ?thesis using remove_miss [OF remove_invar [OF assms(1)]] by fastforce
qed

end

end
