(* ===== verification/SensorList.thy ===== *)
theory SensorList
  imports Float32 Store
begin

text \<open>
  \<open>SensorList\<close> and \<open>Sensor\<close> of the central station: the table of known sensors,
  keyed by host address, with the last values received, the alarm threshold and
  the bookkeeping of unanswered questions, and the rendering of an entry as JSON.
  Every member function holds the mutex for the whole of its access, so each is
  one atomic operation here.  A function that calls \<open>std::time\<close> takes the
  successive readings of the clock as \<open>t 0\<close>, \<open>t 1\<close> and so on.  The records are
  extensible: the communicator state contains a sensor list.
\<close>

section \<open>Data\<close>

type_synonym time_t = int
type_synonym clock = "nat \<Rightarrow> time_t"

record log_state =
  logs :: "string list"

definition log_msg :: "string \<Rightarrow> ('a log_state_scheme, unit) op" where
  "log_msg message = change (\<lambda>s. s\<lparr>logs := logs s @ [message]\<rparr>)"

datatype SensorStatus = CORRECT | NOCOMMUNICATION

record SensorState =
  st_current_value :: float32
  st_typical_value :: float32
  st_threshold :: float32
  st_status :: SensorStatus

record SensorInfo =
  current_value :: float32
  typical_value :: float32
  threshold :: float32
  flag :: bool
  time_setting_flag :: time_t
  last_value_question :: time_t
  last_threshold_question :: time_t

text \<open>
  \<open>SensorInfo()\<close> is value-initialised: the members without a default initialiser
  are zero.
\<close>

definition new_SensorInfo :: SensorInfo where
  "new_SensorInfo = \<lparr>current_value = f32_of_int 0, typical_value = f32_of_int 0,
     threshold = f32_of_int 100, flag = True, time_setting_flag = 0,
     last_value_question = 0, last_threshold_question = 0\<rparr>"

record SensorList = log_state +
  max_answer_time :: int
  sensors :: "(string, SensorInfo) omap"

definition new_SensorList :: "int \<Rightarrow> SensorList" where
  "new_SensorList mat = \<lparr>logs = [], max_answer_time = mat, sensors = []\<rparr>"

definition no_sensor :: "string \<Rightarrow> exn" where
  "no_sensor address = Invalid_argument (''sensor with address '' @ address @ '' doesn't exist'')"

section \<open>Operations\<close>

definition add_sensor :: "string \<Rightarrow> ('a SensorList_scheme, unit) op" where
  "add_sensor address =
     change (\<lambda>s. s\<lparr>sensors := om_emplace address new_SensorInfo (sensors s)\<rparr>)"

definition erase_sensor :: "string \<Rightarrow> ('a SensorList_scheme, unit) op" where
  "erase_sensor address = (\<lambda>s.
     let i = (case om_find address (sensors s) of None \<Rightarrow> 0 | Some _ \<Rightarrow> (1::int));
         s' = s\<lparr>sensors := om_erase address (sensors s)\<rparr>
     in if i = 0 then (Throw (no_sensor address), s') else (Return (), s'))"

text \<open>The lookup that most functions begin with, and the write through its iterator.\<close>

definition find_sensor :: "string \<Rightarrow> ('a SensorList_scheme, SensorInfo) op" where
  "find_sensor address = (\<lambda>s. case om_find address (sensors s) of
      None \<Rightarrow> (Throw (no_sensor address), s)
    | Some info \<Rightarrow> (Return info, s))"

definition put_sensor :: "string \<Rightarrow> SensorInfo \<Rightarrow> ('a SensorList_scheme, unit) op" where
  "put_sensor address info = change (\<lambda>s. s\<lparr>sensors := om_assign address info (sensors s)\<rparr>)"

definition set_threshold :: "string \<Rightarrow> float32 \<Rightarrow> ('a SensorList_scheme, unit) op" where
  "set_threshold address new_threshold =
     andthen (find_sensor address) (\<lambda>info.
       put_sensor address (info\<lparr>threshold := new_threshold, flag := False\<rparr>))"

definition set_values :: "string \<Rightarrow> float32 \<Rightarrow> float32 \<Rightarrow> ('a SensorList_scheme, unit) op" where
  "set_values address new_current_value new_typical_value =
     andthen (find_sensor address) (\<lambda>info.
       put_sensor address (info\<lparr>current_value := new_current_value,
         typical_value := new_typical_value, flag := False\<rparr>))"

definition status_at :: "int \<Rightarrow> time_t \<Rightarrow> SensorInfo \<Rightarrow> SensorStatus" where
  "status_at mat now info =
     (if \<not> flag info \<or> now - time_setting_flag info < mat then CORRECT else NOCOMMUNICATION)"

definition state_at :: "int \<Rightarrow> time_t \<Rightarrow> SensorInfo \<Rightarrow> SensorState" where
  "state_at mat now info = \<lparr>st_current_value = current_value info,
     st_typical_value = typical_value info, st_threshold = threshold info,
     st_status = status_at mat now info\<rparr>"

definition get_sensor_state :: "clock \<Rightarrow> string \<Rightarrow> ('a SensorList_scheme, SensorState) op" where
  "get_sensor_state t address =
     andthen (find_sensor address) (\<lambda>info. reads (\<lambda>s. state_at (max_answer_time s) (t 0) info))"

text \<open>The loop of \<open>get_sensors\<close>: the clock is read only for an entry whose flag is set.\<close>

fun get_sensors_loop :: "int \<Rightarrow> clock \<Rightarrow> nat \<Rightarrow> (string, SensorInfo) omap \<Rightarrow>
    (string \<times> SensorState) list" where
  "get_sensors_loop mat t i [] = []"
| "get_sensors_loop mat t i ((address, info) # m) =
     (address, state_at mat (t i) info) #
       get_sensors_loop mat t (if flag info then i + 1 else i) m"

definition get_sensors :: "clock \<Rightarrow> ('a SensorList_scheme, (string \<times> SensorState) list) op" where
  "get_sensors t = reads (\<lambda>s. get_sensors_loop (max_answer_time s) t 0 (sensors s))"

definition get_addresses :: "('a SensorList_scheme, string list) op" where
  "get_addresses = reads (\<lambda>s. om_keys (sensors s))"

definition get_time_flag_setting :: "string \<Rightarrow> ('a SensorList_scheme, time_t) op" where
  "get_time_flag_setting address =
     andthen (find_sensor address) (\<lambda>info. ret (time_setting_flag info))"

definition warn_silent :: "string \<Rightarrow> ('a SensorList_scheme, unit) op" where
  "warn_silent address = log_msg (''WARNING! Sensor '' @ address @ '' doesn't respond'')"

text \<open>What both question setters do after they have stored the time of the question.\<close>

definition raise_flag :: "clock \<Rightarrow> string \<Rightarrow> SensorInfo \<Rightarrow> ('a SensorList_scheme, unit) op" where
  "raise_flag t address info = (\<lambda>s.
     if \<not> flag info
     then put_sensor address (info\<lparr>flag := True, time_setting_flag := t 1\<rparr>) s
     else andthen (put_sensor address info) (\<lambda>_.
       if t 1 - time_setting_flag info > max_answer_time s
       then warn_silent address else ret ()) s)"

definition set_last_value_question :: "clock \<Rightarrow> string \<Rightarrow> ('a SensorList_scheme, unit) op" where
  "set_last_value_question t address =
     andthen (find_sensor address) (\<lambda>info.
       raise_flag t address (info\<lparr>last_value_question := t 0\<rparr>))"

definition get_last_value_question :: "string \<Rightarrow> ('a SensorList_scheme, time_t) op" where
  "get_last_value_question address =
     andthen (find_sensor address) (\<lambda>info. ret (last_value_question info))"

definition set_last_threshold_question :: "clock \<Rightarrow> string \<Rightarrow> ('a SensorList_scheme, unit) op" where
  "set_last_threshold_question t address =
     andthen (find_sensor address) (\<lambda>info.
       raise_flag t address (info\<lparr>last_threshold_question := t 0\<rparr>))"

definition get_last_threshold_question :: "string \<Rightarrow> ('a SensorList_scheme, time_t) op" where
  "get_last_threshold_question address =
     andthen (find_sensor address) (\<lambda>info. ret (last_threshold_question info))"

text \<open>
  The text that \<open>write_to_file\<close> leaves in \<open>data.txt\<close>, or \<open>None\<close> when the file cannot be opened: then
  nothing is written, and nobody notices.  \<open>home\<close> is the value of \<open>HOME\<close>; a string cannot be made
  from the null pointer of a variable that is not set.
\<close>

definition write_to_file :: "string option \<Rightarrow> bool \<Rightarrow> ('a SensorList_scheme, string option) op" where
  "write_to_file home opens =
     andthen (reads (\<lambda>s. map (\<lambda>(address, info). (address, threshold info)) (sensors s))) (\<lambda>addresses.
     case home of
       None \<Rightarrow> throw (Logic_error ''basic_string: construction from null is not valid'')
     | Some homeDir \<Rightarrow> ret (if opens
         then Some (concat (map (\<lambda>(address, x). address @ '' '' @ show_g x @ [CHR 10]) addresses)) else None))"

section \<open>Sensor: an entry as JSON\<close>

record Sensor =
  address :: string
  s_current_value :: float32
  s_typical_value :: float32
  s_threshold :: float32
  status :: string

definition new_Sensor :: "string \<Rightarrow> SensorState \<Rightarrow> Sensor" where
  "new_Sensor addr state = \<lparr>address = addr, s_current_value = st_current_value state,
     s_typical_value = st_typical_value state, s_threshold = st_threshold state,
     status = (case st_status state of
        CORRECT \<Rightarrow> ''CORRECT'' | NOCOMMUNICATION \<Rightarrow> ''NOCOMMUNICATION'')\<rparr>"

definition quoted :: "string \<Rightarrow> string" where
  "quoted s = CHR 34 # s @ [CHR 34]"

definition toJSONString :: "Sensor \<Rightarrow> string" where
  "toJSONString s = ''{'' @ [CHR 10] @
     quoted ''address'' @ '': '' @ quoted (address s) @ '','' @ [CHR 10] @
     quoted ''status'' @ '': '' @ quoted (status s) @ '','' @ [CHR 10] @
     quoted ''threshold'' @ '': '' @ to_string_f32 (s_threshold s) @ '','' @ [CHR 10] @
     quoted ''currentValue'' @ '': '' @ to_string_f32 (s_current_value s) @ '','' @ [CHR 10] @
     quoted ''typicalValue'' @ '': '' @ to_string_f32 (s_typical_value s) @ [CHR 10] @ ''}''"

section \<open>What the operations do\<close>

definition has_sensor :: "'a SensorList_scheme \<Rightarrow> string \<Rightarrow> bool" where
  "has_sensor s a \<longleftrightarrow> om_find a (sensors s) \<noteq> None"

definition sensors_ok :: "'a SensorList_scheme \<Rightarrow> bool" where
  "sensors_ok s \<longleftrightarrow> ordered (sensors s)"

lemma log_msg_apply [simp]: "log_msg m s = (Return (), s\<lparr>logs := logs s @ [m]\<rparr>)"
  by (simp add: log_msg_def)

lemma add_sensor_apply [simp]:
  "add_sensor a s = (Return (), s\<lparr>sensors := om_emplace a new_SensorInfo (sensors s)\<rparr>)"
  by (simp add: add_sensor_def)

lemma erase_sensor_apply:
  "erase_sensor a s =
     (if has_sensor s a then (Return (), s\<lparr>sensors := om_erase a (sensors s)\<rparr>)
      else (Throw (no_sensor a), s))"
  by (auto simp: erase_sensor_def has_sensor_def Let_def om_erase_absent split: option.splits)

lemma found_apply:
  assumes "om_find a (sensors s) = Some info"
  shows "andthen (find_sensor a) f s = f info s"
  using assms by (simp add: andthen_def find_sensor_def)

lemma missing_apply:
  assumes "om_find a (sensors s) = None"
  shows "andthen (find_sensor a) f s = (Throw (no_sensor a), s)"
  using assms by (simp add: andthen_def find_sensor_def)

lemma put_sensor_apply [simp]:
  "put_sensor a info s = (Return (), s\<lparr>sensors := om_assign a info (sensors s)\<rparr>)"
  by (simp add: put_sensor_def)

lemmas sensor_op_defs =
  set_threshold_def set_values_def get_sensor_state_def get_time_flag_setting_def
  set_last_value_question_def get_last_value_question_def
  set_last_threshold_question_def get_last_threshold_question_def

lemma no_sensor_simps [simp]:
  "is_logic_error (no_sensor a)" "is_invalid_argument (no_sensor a)"
  by (simp_all add: no_sensor_def)

lemma raise_flag_cases:
  "raise_flag t a info s =
     (Return (),
      (if \<not> flag info
       then s\<lparr>sensors := om_assign a (info\<lparr>flag := True, time_setting_flag := t 1\<rparr>) (sensors s)\<rparr>
       else if max_answer_time s < t 1 - time_setting_flag info
       then s\<lparr>sensors := om_assign a info (sensors s),
              logs := logs s @ [''WARNING! Sensor '' @ a @ '' doesn't respond'']\<rparr>
       else s\<lparr>sensors := om_assign a info (sensors s)\<rparr>))"
  by (simp add: raise_flag_def andthen_def warn_silent_def)

interpretation sensor_store: keyed_store has_sensor add_sensor erase_sensor sensors_ok
proof unfold_locales
  fix a and s :: "'a SensorList_scheme"
  assume "sensors_ok s" "\<not> has_sensor s a"
  then show "\<exists>e. is_invalid_argument e \<and> erase_sensor a s = (Throw e, s)"
    by (simp add: erase_sensor_apply)
qed (auto simp: has_sensor_def sensors_ok_def erase_sensor_apply omap_simps)

section \<open>Questions and answers\<close>

text \<open>
  The abstract view of an entry: every question has been answered, or some have
  not, and then only the time of the first of them counts.
\<close>

datatype phase = Answered | Waiting time_t

definition phase_of :: "SensorInfo \<Rightarrow> phase" where
  "phase_of info = (if flag info then Waiting (time_setting_flag info) else Answered)"

datatype sensor_event =
    Value_question clock
  | Threshold_question clock
  | Values float32 float32
  | Threshold float32

fun event_op :: "string \<Rightarrow> sensor_event \<Rightarrow> ('a SensorList_scheme, unit) op" where
  "event_op a (Value_question t) = set_last_value_question t a"
| "event_op a (Threshold_question t) = set_last_threshold_question t a"
| "event_op a (Values c v) = set_values a c v"
| "event_op a (Threshold x) = set_threshold a x"

fun run_events :: "string \<Rightarrow> sensor_event list \<Rightarrow> 'a SensorList_scheme \<Rightarrow> 'a SensorList_scheme" where
  "run_events a [] s = s"
| "run_events a (e # es) s = run_events a es (snd (event_op a e s))"

text \<open>The specification: the reading of the clock that set the flag, until an answer.\<close>

fun phase_step :: "sensor_event \<Rightarrow> phase \<Rightarrow> phase" where
  "phase_step (Value_question t) Answered = Waiting (t 1)"
| "phase_step (Threshold_question t) Answered = Waiting (t 1)"
| "phase_step (Value_question t) (Waiting u) = Waiting u"
| "phase_step (Threshold_question t) (Waiting u) = Waiting u"
| "phase_step (Values c v) p = Answered"
| "phase_step (Threshold x) p = Answered"

fun phase_status :: "int \<Rightarrow> time_t \<Rightarrow> phase \<Rightarrow> SensorStatus" where
  "phase_status mat now Answered = CORRECT"
| "phase_status mat now (Waiting u) = (if now - u < mat then CORRECT else NOCOMMUNICATION)"

lemma status_at_phase: "status_at mat now info = phase_status mat now (phase_of info)"
  by (simp add: status_at_def phase_of_def)

lemma event_op_phase:
  assumes "om_find a (sensors s) = Some info"
  shows "\<exists>info'. om_find a (sensors (snd (event_op a e s))) = Some info' \<and>
    phase_of info' = phase_step e (phase_of info) \<and>
    max_answer_time (snd (event_op a e s)) = max_answer_time s"
  using assms
  by (cases e)
     (auto simp: sensor_op_defs found_apply raise_flag_cases omap_simps phase_of_def)

lemma run_events_phase:
  assumes "om_find a (sensors s) = Some info"
  shows "\<exists>info'. om_find a (sensors (run_events a es s)) = Some info' \<and>
    phase_of info' = fold phase_step es (phase_of info) \<and>
    max_answer_time (run_events a es s) = max_answer_time s"
  using assms
proof (induction es arbitrary: s info)
  case (Cons e es)
  from event_op_phase [OF Cons.prems, of e] obtain info' where
    "om_find a (sensors (snd (event_op a e s))) = Some info'"
    "phase_of info' = phase_step e (phase_of info)"
    "max_answer_time (snd (event_op a e s)) = max_answer_time s" by blast
  with Cons.IH [of "snd (event_op a e s)" info'] show ?case by simp
qed simp

lemma get_sensor_state_found:
  "om_find a (sensors s) = Some info \<Longrightarrow>
     get_sensor_state t a s = (Return (state_at (max_answer_time s) (t 0) info), s)"
  by (simp add: get_sensor_state_def found_apply)

text \<open>An operation on one address leaves every other entry alone.\<close>

lemma event_op_frame:
  "b \<noteq> a \<Longrightarrow> om_find b (sensors (snd (event_op a e s))) = om_find b (sensors s)"
  by (cases e; cases "om_find a (sensors s)")
     (auto simp: sensor_op_defs found_apply missing_apply raise_flag_cases omap_simps)

lemma event_op_keys:
  "map fst (sensors (snd (event_op a e s))) = map fst (sensors s)"
  by (cases e; cases "om_find a (sensors s)")
     (auto simp: sensor_op_defs found_apply missing_apply raise_flag_cases)

lemma event_op_ok: "sensors_ok s \<Longrightarrow> sensors_ok (snd (event_op a e s))"
  by (simp add: sensors_ok_def ordered_def event_op_keys)

lemma run_events_frame:
  "b \<noteq> a \<Longrightarrow> om_find b (sensors (run_events a es s)) = om_find b (sensors s)"
  by (induction a es s rule: run_events.induct) (auto simp: event_op_frame)

section \<open>The list of all sensors\<close>

lemma get_sensors_loop_keys: "map fst (get_sensors_loop mat t i m) = map fst m"
  by (induction mat t i m rule: get_sensors_loop.induct) auto

lemma get_sensors_loop_nth:
  assumes "k < length m"
  shows "get_sensors_loop mat t i m ! k =
    (fst (m ! k), state_at mat (t (i + length (filter (\<lambda>p. flag (snd p)) (take k m)))) (snd (m ! k)))"
  using assms
proof (induction m arbitrary: i k)
  case (Cons p m)
  then show ?case by (cases p; cases k) auto
qed simp

section \<open>Properties\<close>

text \<open>
  C3: For a sensor in the table, any history of questions and answers leaves the
  status that the specification computes from the history alone: a sensor is
  shown as not communicating exactly when the first question since its last
  answer is at least \<open>max_answer_time\<close> old; no other entry changes.
\<close>

theorem sensor_status_refines_phase:
  assumes "om_find a (sensors s) = Some info"
  shows "(\<exists>st. get_sensor_state t a (run_events a es s) = (Return st, run_events a es s) \<and>
      st_status st = phase_status (max_answer_time s) (t 0) (fold phase_step es (phase_of info))) \<and>
    (\<forall>b. b \<noteq> a \<longrightarrow> om_find b (sensors (run_events a es s)) = om_find b (sensors s))"
proof -
  from run_events_phase [OF assms, of es] obtain info' where
    "om_find a (sensors (run_events a es s)) = Some info'"
    "phase_of info' = fold phase_step es (phase_of info)"
    "max_answer_time (run_events a es s) = max_answer_time s" by blast
  then show ?thesis
    by (simp add: get_sensor_state_found state_at_def status_at_phase run_events_frame)
qed

theorem sensor_status_refines_phase_witness:
  "\<exists>st. fst (get_sensor_state (\<lambda>_. 20) ''h'' (run_events ''h'' [Values (f32_of_int 1) (f32_of_int 2),
      Value_question (\<lambda>_. 10)] (snd (add_sensor ''h'' (new_SensorList 5))))) = Return st \<and>
    st_status st = NOCOMMUNICATION"
  using sensor_status_refines_phase [of "''h''" "snd (add_sensor ''h'' (new_SensorList 5))"
      new_SensorInfo "\<lambda>_. 20" "[Values (f32_of_int 1) (f32_of_int 2), Value_question (\<lambda>_. 10)]"]
  by (auto simp: new_SensorList_def om_find_def)

text \<open>
  The list of all sensors has one element for each entry, in the order of the
  addresses, and each element is the state that \<open>get_sensor_state\<close> reports for
  that address at one of the readings of the clock that the listing made.
\<close>

lemma get_sensors_lists_states:
  assumes "sensors_ok s"
  shows "\<exists>l. get_sensors t s = (Return l, s) \<and> map fst l = om_keys (sensors s) \<and>
    sorted_wrt (<) (map fst l) \<and>
    (\<forall>k < length l. \<exists>i \<le> k. get_sensor_state (\<lambda>_. t i) (fst (l ! k)) s = (Return (snd (l ! k)), s))"
proof -
  let ?l = "get_sensors_loop (max_answer_time s) t 0 (sensors s)"
  have keys: "map fst ?l = map fst (sensors s)" by (rule get_sensors_loop_keys)
  then have len: "length ?l = length (sensors s)" by (metis length_map)
  have "\<exists>i \<le> k. get_sensor_state (\<lambda>_. t i) (fst (?l ! k)) s = (Return (snd (?l ! k)), s)"
    if k: "k < length ?l" for k
  proof -
    let ?p = "sensors s ! k" and ?i = "length (filter (\<lambda>p. flag (snd p)) (take k (sensors s)))"
    have "?p \<in> set (sensors s)" using k len by simp
    then have "om_find (fst ?p) (sensors s) = Some (snd ?p)"
      using assms om_find_iff [of "sensors s" "fst ?p" "snd ?p"] by (simp add: sensors_ok_def)
    moreover have "?i \<le> k" using length_filter_le [of _ "take k (sensors s)"] k len by (metis length_take min.absorb2 less_imp_le)
    ultimately show ?thesis
      using k len by (intro exI [of _ ?i]) (simp add: get_sensors_loop_nth get_sensor_state_found)
  qed
  then show ?thesis
    using keys assms by (simp add: get_sensors_def om_keys_def sensors_ok_def ordered_def)
qed

text \<open>
  The addresses in the sensor table after any history of additions and
  removals are the set that the same history makes of the initial one; a removal
  succeeds exactly for an address that is there.
\<close>

lemma sensor_table_refines_set:
  assumes "sensors_ok s"
  shows "{k. has_sensor (run_store add_sensor erase_sensor ops s) k} = names_after ops {k. has_sensor s k} \<and>
    (fst (erase_sensor a (run_store add_sensor erase_sensor ops s)) = Return () \<longleftrightarrow>
      a \<in> names_after ops {k. has_sensor s k})"
  using sensor_store.run_refines [OF assms, of ops]
    sensor_store.remove_outcome [OF sensor_store.run_invar [OF assms], where a = a and ops1 = ops]
  by auto

end
