(* ===== verification/Address.thy ===== *)
theory Address
  imports Float32 "HOL-Library.Word"
begin

text \<open>
  \<open>common::AddressInfo\<close> and \<open>common::Address\<close>.  An address is the storage of a
  \<open>sockaddr_in6\<close> with its length; the port is kept in network byte order and the
  word at offset 4 is the flow information of an IPv6 address and the host of an
  IPv4 one, as in the code that reinterprets the storage.  What the operating
  system does is in the record \<open>net\<close>: byte swapping, name resolution in both
  directions and the result of \<open>sendto\<close>.
\<close>

datatype family = AF_UNSPEC | AF_INET | AF_INET6 | AF_other nat

fun family_number :: "family \<Rightarrow> nat" where
  "family_number AF_UNSPEC = 0"
| "family_number AF_INET = 2"
| "family_number AF_INET6 = 10"
| "family_number (AF_other n) = n"

record Address =
  sa_family :: family
  sin6_port :: "16 word"
  s_addr :: "32 word"
  sin6_addr :: "128 word"
  addressLength :: nat

text \<open>An error of the resolver: \<open>EAI_SYSTEM\<close> with the text for \<open>errno\<close>, or another code.\<close>

datatype gai_error = EAI_SYSTEM string | EAI string

record net =
  htons :: "16 word \<Rightarrow> 16 word"
  ntohs :: "16 word \<Rightarrow> 16 word"
  getaddrinfo :: "string \<Rightarrow> string \<Rightarrow> family \<Rightarrow> gai_error + Address list"
  getnameinfo :: "Address \<Rightarrow> gai_error + string"
  sendto :: "string \<Rightarrow> Address \<Rightarrow> int"
  strerror :: string

text \<open>Network byte order is an involution between the two functions.\<close>

definition byte_order_ok :: "'a net_scheme \<Rightarrow> bool" where
  "byte_order_ok n \<longleftrightarrow> (\<forall>p. ntohs n (htons n p) = p)"

definition c_str :: "string \<Rightarrow> string" where
  "c_str s = takeWhile (\<lambda>c. c \<noteq> CHR 0x00) s"

definition isalpha :: "char \<Rightarrow> bool" where
  "isalpha c \<longleftrightarrow> (CHR ''A'' \<le> c \<and> c \<le> CHR ''Z'') \<or> (CHR ''a'' \<le> c \<and> c \<le> CHR ''z'')"

fun gai_failure :: "string \<Rightarrow> gai_error \<Rightarrow> exn" where
  "gai_failure call (EAI_SYSTEM msg) = ExceptionInfo (call @ '' failed with errno: '' @ msg)"
| "gai_failure call (EAI msg) = ExceptionInfo (call @ '' failed with retval: '' @ msg)"

section \<open>Construction\<close>

definition AddressInfo :: "'a net_scheme \<Rightarrow> string \<Rightarrow> string \<Rightarrow> exn + Address list" where
  "AddressInfo n host port =
     (let ai_family = (if host \<noteq> [] \<and> isalpha (hd host) then AF_INET6 else AF_UNSPEC)
      in case getaddrinfo n (c_str host) (c_str port) ai_family of
           Inl e \<Rightarrow> Inl (gai_failure ''getaddrinfo'' e)
         | Inr ai \<Rightarrow> Inr ai)"

text \<open>\<open>Address (port)\<close>, and \<open>Address (host, port)\<close> with the first result of the resolver.\<close>

definition Address_any :: "'a net_scheme \<Rightarrow> 16 word \<Rightarrow> Address" where
  "Address_any n port = \<lparr>sa_family = AF_INET6, sin6_port = htons n port, s_addr = 0,
     sin6_addr = 0, addressLength = 28\<rparr>"

definition Address_host :: "'a net_scheme \<Rightarrow> string \<Rightarrow> string \<Rightarrow> ('s, Address) op" where
  "Address_host n host port =
     andthen (or_throw (AddressInfo n host port))
       (\<lambda>ai. case ai of [] \<Rightarrow> undefined_behaviour | a # _ \<Rightarrow> ret a)"

section \<open>Text\<close>

definition getPort :: "'a net_scheme \<Rightarrow> Address \<Rightarrow> exn + 16 word" where
  "getPort n a = (case sa_family a of
      AF_INET6 \<Rightarrow> Inr (ntohs n (sin6_port a))
    | AF_INET \<Rightarrow> Inr (ntohs n (sin6_port a))
    | f \<Rightarrow> Inl (Exception (''Address family ('' @ show_nat (family_number f) @
             '') does not match neither IPV6 nor IPV4'')))"

definition hostToString :: "'a net_scheme \<Rightarrow> Address \<Rightarrow> exn + string" where
  "hostToString n a = (case getnameinfo n a of
      Inl e \<Rightarrow> Inl (gai_failure ''getnameinfo'' e)
    | Inr address_str \<Rightarrow>
        Inr (if starts_with ''::ffff:'' address_str then drop 7 address_str else address_str))"

definition portToString :: "'a net_scheme \<Rightarrow> Address \<Rightarrow> exn + string" where
  "portToString n a = map_sum id (\<lambda>p. show_nat (unat p)) (getPort n a)"

definition toString :: "'a net_scheme \<Rightarrow> Address \<Rightarrow> exn + string" where
  "toString n a = (case hostToString n a of
      Inl e \<Rightarrow> Inl e
    | Inr h \<Rightarrow> map_sum id (\<lambda>p. h @ '' :'' @ p) (portToString n a))"

text \<open>The comparisons and the hash of a key are those of its text.\<close>

definition address_eq :: "'a net_scheme \<Rightarrow> Address \<Rightarrow> Address \<Rightarrow> exn + bool" where
  "address_eq n a b = (case toString n a of
      Inl e \<Rightarrow> Inl e
    | Inr s \<Rightarrow> map_sum id (\<lambda>t. s = t) (toString n b))"

definition address_less :: "'a net_scheme \<Rightarrow> Address \<Rightarrow> Address \<Rightarrow> exn + bool" where
  "address_less n a b = (case toString n a of
      Inl e \<Rightarrow> Inl e
    | Inr s \<Rightarrow> map_sum id (\<lambda>t. s < t) (toString n b))"

definition address_hash :: "'a net_scheme \<Rightarrow> (string \<Rightarrow> 64 word) \<Rightarrow> Address \<Rightarrow> exn + 64 word" where
  "address_hash n hasher a = map_sum id hasher (toString n a)"

section \<open>The special functions of the protocol\<close>

definition in6addr_loopback :: "128 word" where
  "in6addr_loopback = 1"

definition INADDR_LOOPBACK :: "32 word" where
  "INADDR_LOOPBACK = 0x7f000001"

definition isLoopback :: "'a net_scheme \<Rightarrow> Address \<Rightarrow> 16 word \<Rightarrow> bool" where
  "isLoopback n a port =
     (if sa_family a = AF_INET6
      then sin6_addr a = in6addr_loopback \<and> ntohs n (sin6_port a) = port
      else s_addr a = INADDR_LOOPBACK \<and> ntohs n (sin6_port a) = port)"

definition incrementPort :: "'a net_scheme \<Rightarrow> Address \<Rightarrow> exn + Address" where
  "incrementPort n a = (case sa_family a of
      AF_INET6 \<Rightarrow> Inr (a\<lparr>sin6_port := htons n (ntohs n (sin6_port a) + 1)\<rparr>)
    | AF_INET \<Rightarrow> Inr (a\<lparr>sin6_port := htons n (ntohs n (sin6_port a) + 1)\<rparr>)
    | f \<Rightarrow> Inl (Exception (''Address family ('' @ show_nat (family_number f) @
             '') does not match neither IPV6 nor IPV4'')))"

section \<open>C strings\<close>

lemma c_str_Nil [simp]: "c_str [] = []"
  by (simp add: c_str_def)

lemma c_str_plain: "CHR 0x00 \<notin> set s \<Longrightarrow> c_str s = s"
  by (auto simp: c_str_def takeWhile_eq_all_conv)

lemma c_str_append_nul: "CHR 0x00 \<notin> set s \<Longrightarrow> c_str (s @ CHR 0x00 # r) = s"
  by (auto simp: c_str_def takeWhile_tail)

lemma c_str_no_nul: "CHR 0x00 \<notin> set (c_str s)"
  by (auto simp: c_str_def dest: set_takeWhileD)

lemma c_str_idem [simp]: "c_str (c_str s) = c_str s"
  by (simp add: c_str_plain c_str_no_nul)

section \<open>What they do\<close>

lemma getPort_any: "byte_order_ok n \<Longrightarrow> getPort n (Address_any n p) = Inr p"
  by (simp add: getPort_def Address_any_def byte_order_ok_def)

lemma getPort_known: "getPort n a = Inr p \<Longrightarrow> sa_family a = AF_INET6 \<or> sa_family a = AF_INET"
  by (simp add: getPort_def split: family.splits)

lemma incrementPort_fails: "incrementPort n a = Inl e \<longleftrightarrow> getPort n a = Inl e"
  by (simp add: incrementPort_def getPort_def split: family.split)

lemma hostToString_throws:
  "hostToString n a = Inl e \<Longrightarrow> is_exception_info e"
  by (cases "getnameinfo n a"; cases "projl (getnameinfo n a)")
     (auto simp: hostToString_def)

section \<open>Concrete instances\<close>

text \<open>
  An environment and addresses to evaluate the definitions on: a little-endian
  machine on which every address has the name of its host word.
\<close>

definition swap_bytes :: "16 word \<Rightarrow> 16 word" where
  "swap_bytes p = or (push_bit 8 p) (drop_bit 8 p)"

definition loopback6 :: "16 word \<Rightarrow> Address" where
  "loopback6 p = \<lparr>sa_family = AF_INET6, sin6_port = swap_bytes p, s_addr = 0, sin6_addr = 1,
     addressLength = 28\<rparr>"

definition example_net :: net where
  "example_net = \<lparr>htons = swap_bytes, ntohs = swap_bytes,
     getaddrinfo = (\<lambda>h p _. if h = ''::1'' \<and> p = ''7000'' then Inr [loopback6 7000]
       else if h = ''::1'' \<and> p = ''7001'' then Inr [loopback6 7001] else Inl (EAI ''unknown'')),
     getnameinfo = (\<lambda>_. Inr ''::1''), sendto = (\<lambda>d _. int (length d)), strerror = []\<rparr>"

lemma swap_bytes_twice [simp]: "swap_bytes (swap_bytes p) = p"
  by (rule bit_word_eqI) (auto simp: swap_bytes_def bit_simps)

lemma example_byte_order: "byte_order_ok example_net"
  by (simp add: byte_order_ok_def example_net_def)

lemma example_simps [simp]:
  "sendto example_net d a = int (length d)"
  "incrementPort example_net (loopback6 p) = Inr (loopback6 (p + 1))"
  "getPort example_net (loopback6 p) = Inr p"
  "hostToString example_net (loopback6 p) = Inr ''::1''"
  "toString example_net (loopback6 p) = Inr (''::1 :'' @ show_nat (unat p))"
  by (simp_all add: example_net_def incrementPort_def loopback6_def getPort_def hostToString_def
      toString_def portToString_def starts_with_def)

section \<open>Properties\<close>

text \<open>
  \<open>incrementPort\<close>, which turns the address of a question into that of its
  answer, gives the next port modulo \<open>2^16\<close> of the same host, for an address that
  has a port; for any other it throws what \<open>getPort\<close> throws.
\<close>

lemma answer_port:
  assumes "byte_order_ok n"
  shows "case getPort n a of
      Inr p \<Rightarrow> \<exists>b. incrementPort n a = Inr b \<and> getPort n b = Inr (p + 1) \<and>
        sa_family b = sa_family a \<and> s_addr b = s_addr a \<and> sin6_addr b = sin6_addr a
    | Inl e \<Rightarrow> incrementPort n a = Inl e"
  using assms
  by (auto simp: incrementPort_def getPort_def byte_order_ok_def split: family.splits)

text \<open>
  Addresses that compare equal have equal hashes and none of them is less than
  the other, and what is below one is below the other, as maps keyed by addresses
  need.
\<close>

lemma address_hash_order:
  assumes "address_eq n a b = Inr True"
  shows "address_hash n hasher a = address_hash n hasher b \<and> address_less n a b = Inr False \<and>
    (address_less n c a = Inr True \<longleftrightarrow> address_less n c b = Inr True)"
proof -
  from assms have "toString n b = toString n a \<and> (\<exists>t. toString n a = Inr t)"
    by (cases "toString n a"; cases "toString n b") (auto simp: address_eq_def)
  then show ?thesis by (cases "toString n c") (auto simp: address_hash_def address_less_def)
qed

end
