(* ===== verification/Udp.thy ===== *)
theory Udp
  imports Address
begin

text \<open>
  \<open>common::UDPServer\<close>, which answers the client of the datagram it last received,
  and \<open>common::UDPClient\<close>, which sends a message and keeps a callback for the
  answer.  Both record the datagrams that \<open>sendto\<close> accepted.  \<open>recvfrom\<close> is an
  input: it delivers a datagram or fails.
\<close>

section \<open>The server\<close>

record UDPServer =
  clientAddress :: Address
  clientAddressIsCorrect :: bool
  replies :: "(string \<times> Address) list"

datatype recv_result = Recv_failed bool | Received string Address

text \<open>
  \<open>receive (buffer, size)\<close>: a datagram longer than the buffer is truncated; the
  bytes of the buffer behind the datagram keep their values.  The flag of
  \<open>Recv_failed\<close> says that \<open>errno\<close> is that of a timeout.
\<close>

definition new_UDPServer :: "Address \<Rightarrow> UDPServer" where
  "new_UDPServer uninitialised =
     \<lparr>clientAddress = uninitialised, clientAddressIsCorrect = False, replies = []\<rparr>"

fun server_receive :: "recv_result \<Rightarrow> string \<Rightarrow> nat \<Rightarrow> (UDPServer, int \<times> string) op" where
  "server_receive (Recv_failed timeout) buffer sz srv =
     (Return (- 1, buffer), srv\<lparr>clientAddressIsCorrect := False\<rparr>)"
| "server_receive (Received data addr) buffer sz srv =
     (let got = take sz data
      in (Return (int (length got), got @ drop (length got) buffer),
          srv\<lparr>clientAddress := addr, clientAddressIsCorrect := True\<rparr>))"

text \<open>
  \<open>send (data, size)\<close> reads \<open>size\<close> bytes from \<open>data\<close>, which is undefined when
  there are fewer.
\<close>

definition server_send :: "'a net_scheme \<Rightarrow> string \<Rightarrow> nat \<Rightarrow> (UDPServer, int) op" where
  "server_send n data sz = (\<lambda>srv.
     if \<not> clientAddressIsCorrect srv
     then (Throw (Exception ''attempt to send message from server before calling receive - client address is unknown''), srv)
     else case incrementPort n (clientAddress srv) of
            Inl e \<Rightarrow> (Throw e, srv)
          | Inr a \<Rightarrow>
              let srv' = srv\<lparr>clientAddress := a, clientAddressIsCorrect := False\<rparr> in
              if length data < sz then (Undefined, srv')
              else let retval = sendto n (take sz data) a
                   in (Return retval,
                       if retval < 0 then srv' else srv'\<lparr>replies := replies srv' @ [(take sz data, a)]\<rparr>))"

section \<open>The client\<close>

record 'cb UDPClient =
  callbackMap :: "(string, 'cb option) omap"
  sent :: "(string \<times> Address) list"
  sendPort :: "16 word"
  defaultCallback :: "'cb option"

definition new_UDPClient :: "16 word \<Rightarrow> 'cb option \<Rightarrow> 'cb UDPClient" where
  "new_UDPClient port default_callback =
     \<lparr>callbackMap = [], sent = [], sendPort = port, defaultCallback = default_callback\<rparr>"

definition client_send :: "'a net_scheme \<Rightarrow> string \<Rightarrow> Address \<Rightarrow> ('cb UDPClient, int) op" where
  "client_send n data a = (\<lambda>c.
     let retval = sendto n data a
     in (Return retval, if retval < 0 then c else c\<lparr>sent := sent c @ [(data, a)]\<rparr>))"

text \<open>The callback for an address replaces the one that is there.\<close>

definition save_callback :: "string \<Rightarrow> 'cb option \<Rightarrow> ('cb UDPClient, unit) op" where
  "save_callback key callback = change (\<lambda>c.
     c\<lparr>callbackMap :=
        (case om_find key (callbackMap c) of
           Some _ \<Rightarrow> om_assign key callback (callbackMap c)
         | None \<Rightarrow> om_emplace key callback (callbackMap c))\<rparr>)"

definition sendAndSaveCallback ::
  "'a net_scheme \<Rightarrow> string \<Rightarrow> Address \<Rightarrow> 'cb option \<Rightarrow> ('cb UDPClient, unit) op" where
  "sendAndSaveCallback n message a callback =
     andthen (client_send n message a) (\<lambda>retval.
       if retval < 0
       then andthen (or_throw (toString n a)) (\<lambda>s.
              throw (ExceptionInfo (''send to address '' @ s @ '' failed with retval: '' @
                show_int retval @ '' and errno: '' @ strerror n)))
       else andthen (or_throw (toString n a)) (\<lambda>key. save_callback key callback))"

text \<open>
  What the receiver thread does with a datagram: run the callback that was kept
  for its sender, end, run the default callback, or nothing.
\<close>

datatype 'cb reaction = Run 'cb | Ignore | End_thread

definition handleReceiveAndCheckIfEnd ::
  "'a net_scheme \<Rightarrow> Address \<Rightarrow> string \<Rightarrow> ('cb UDPClient, 'cb reaction) op" where
  "handleReceiveAndCheckIfEnd n addr message =
     andthen (or_throw (toString n addr)) (\<lambda>key c.
       let found = om_find key (callbackMap c);
           c' = (case found of None \<Rightarrow> c
                 | Some _ \<Rightarrow> c\<lparr>callbackMap := om_erase key (callbackMap c)\<rparr>)
       in case found of
            Some (Some callback) \<Rightarrow> (Return (Run callback), c')
          | _ \<Rightarrow>
              if c_str message = [] \<and> isLoopback n addr (sendPort c)
              then (Return End_thread, c')
              else (Return (case defaultCallback c of Some cb \<Rightarrow> Run cb | None \<Rightarrow> Ignore), c'))"

section \<open>Sockets\<close>

text \<open>
  \<open>UDPsocket\<close>.  What \<open>socket\<close>, \<open>setsockopt\<close> and \<open>bind\<close> return are arguments.
\<close>

record UDPsocket =
  fd :: int
  ownAddress :: Address
  send_timeout :: "int \<times> int"
  receive_timeout :: "int \<times> int"

definition new_UDPsocket :: "'a net_scheme \<Rightarrow> 16 word \<Rightarrow> int \<Rightarrow> int \<Rightarrow> int \<Rightarrow> exn + UDPsocket" where
  "new_UDPsocket n port descriptor reuse bound =
     (if descriptor < 0 then Inl (Exception (''creating socket failed with errno: '' @ strerror n))
      else if reuse < 0
      then Inl (Exception (''enabling setsockopt(SO_REUSEADDR) failed with errno: '' @ strerror n))
      else if bound < 0 then Inl (Exception (''binding socket failed with errno: '' @ strerror n))
      else Inr \<lparr>fd = descriptor, ownAddress = Address_any n port,
                send_timeout = (0, 0), receive_timeout = (0, 0)\<rparr>)"

text \<open>\<open>timeval\<close> of a number of milliseconds, and the two setters that differ in the option.\<close>

definition timeval_of :: "32 word \<Rightarrow> int \<times> int" where
  "timeval_of milliseconds = (uint (milliseconds div 1000), uint (1000 * (milliseconds mod 1000)))"

definition setSendTimeout :: "'a net_scheme \<Rightarrow> int \<Rightarrow> 32 word \<Rightarrow> (UDPsocket, unit) op" where
  "setSendTimeout n result milliseconds =
     (if result \<noteq> 0 then throw (Exception (''setsockopt(SO_SNDTIMEO) failed with errno '' @ strerror n))
      else change (\<lambda>s. s\<lparr>send_timeout := timeval_of milliseconds\<rparr>))"

definition setReceiveTimeout :: "'a net_scheme \<Rightarrow> int \<Rightarrow> 32 word \<Rightarrow> (UDPsocket, unit) op" where
  "setReceiveTimeout n result milliseconds =
     (if result \<noteq> 0 then throw (Exception (''setsockopt(SO_RCVTIMEO) failed with errno '' @ strerror n))
      else change (\<lambda>s. s\<lparr>receive_timeout := timeval_of milliseconds\<rparr>))"

section \<open>The life of a client\<close>

text \<open>
  The constructors with their receiver thread, which runs when there is a buffer, and the
  destructor.  \<open>warnings\<close> are the lines of \<open>ExceptionInfo::warning\<close>.
\<close>

record 'cb ClientProcess = "'cb UDPClient" +
  sendSocket :: UDPsocket
  receiveSocket :: UDPsocket
  inputBufferSize :: nat
  receiving :: bool
  warnings :: "string list"

definition client_on :: "UDPsocket \<Rightarrow> UDPsocket \<Rightarrow> nat \<Rightarrow> 16 word \<Rightarrow> 'cb option \<Rightarrow> 'cb ClientProcess" where
  "client_on snd_socket rcv_socket input_buffer_size port default_callback =
     UDPClient.extend (new_UDPClient port default_callback)
       \<lparr>sendSocket = snd_socket, receiveSocket = rcv_socket, inputBufferSize = input_buffer_size,
        receiving = (input_buffer_size \<noteq> 0),
        warnings = (if input_buffer_size = 0
          then [''initialized UDPClient without buffer - you will never receive answer to what you send'']
          else [])\<rparr>"

text \<open>\<open>UDPClient (port, ...)\<close>: the port of the second socket is computed in 16 bits.\<close>

definition construct_client ::
  "'a net_scheme \<Rightarrow> (16 word \<Rightarrow> exn + UDPsocket) \<Rightarrow> 16 word \<Rightarrow> nat \<Rightarrow> 'cb option \<Rightarrow> exn + 'cb ClientProcess" where
  "construct_client n open_socket port input_buffer_size default_callback =
     (case open_socket port of
        Inl e \<Rightarrow> Inl e
      | Inr snd_socket \<Rightarrow>
         (case open_socket (port + 1) of
            Inl e \<Rightarrow> Inl e
          | Inr rcv_socket \<Rightarrow> Inr (client_on snd_socket rcv_socket input_buffer_size port default_callback)))"

text \<open>
  \<open>UDPClient (send_socket, receive_socket, ...)\<close>: the ports are compared after the thread
  was started, and when the exception is thrown with a running thread the program ends,
  as the member \<open>receiverThread\<close> is destroyed without having been joined.
\<close>

datatype 'cb construction = Constructed "'cb ClientProcess" | Construction_throws exn | Program_ends

definition construct_client_on ::
  "'a net_scheme \<Rightarrow> UDPsocket \<Rightarrow> UDPsocket \<Rightarrow> nat \<Rightarrow> 'cb option \<Rightarrow> 'cb construction" where
  "construct_client_on n snd_socket rcv_socket input_buffer_size default_callback =
     (let failed = (\<lambda>e. if input_buffer_size = 0 then Construction_throws e else Program_ends)
      in case getPort n (ownAddress rcv_socket) of
           Inl e \<Rightarrow> failed e
         | Inr r \<Rightarrow>
            (case getPort n (ownAddress snd_socket) of
               Inl e \<Rightarrow> failed e
             | Inr p \<Rightarrow>
                 if uint r - uint p \<noteq> 1
                 then failed (Exception ''receiveSocket in UDPClient must be bound at port 1 greater than sendSocket'')
                 else Constructed (client_on snd_socket rcv_socket input_buffer_size p default_callback)))"

text \<open>
  The destructor up to the \<open>join\<close>: the message of one zero byte to the own receiver.
\<close>

definition destroy_client :: "'a net_scheme \<Rightarrow> ('cb ClientProcess, unit) op" where
  "destroy_client n = (\<lambda>c.
     if inputBufferSize c = 0 then (Return (), c)
     else
       let a = ownAddress (receiveSocket c); retval = sendto n [CHR 0x00] a
       in (Return (),
           if retval < 0
           then c\<lparr>warnings := warnings c @
             [''CRITICAL ERROR - could not send kill message to receiver thread - the program might lock down'']\<rparr>
           else c\<lparr>sent := sent c @ [([CHR 0x00], a)]\<rparr>))"

text \<open>
  \<open>receive\<close>: the bytes of the buffer behind the datagram keep their values; every failure
  but a timeout leaves a warning.
\<close>

fun client_receive ::
  "'a net_scheme \<Rightarrow> recv_result \<Rightarrow> string \<Rightarrow> nat \<Rightarrow> Address \<Rightarrow> ('cb ClientProcess, int \<times> string \<times> Address) op" where
  "client_receive n (Recv_failed timeout) buffer sz addr c =
     (Return (- 1, buffer, addr),
      if timeout then c else c\<lparr>warnings := warnings c @ [''receive failed with errno: '' @ strerror n]\<rparr>)"
| "client_receive n (Received data src) buffer sz addr c =
     (let got = take sz data in (Return (int (length got), got @ drop (length got) buffer, src), c))"

text \<open>
  The message that the thread makes of the buffer is the datagram, cut at the size of the
  buffer, whatever the one before has left there.
\<close>

lemma client_receive_message:
  assumes "client_receive n (Received data src) buffer sz addr c = (Return (retval, buffer', src'), c')"
  shows "take (nat retval) buffer' = take sz data" "src' = src" "c' = c"
    "length buffer = sz \<Longrightarrow> length buffer' = sz" "0 < sz \<Longrightarrow> 0 < retval \<longleftrightarrow> data \<noteq> []"
  using assms by (auto simp: Let_def min_def)

lemma client_receive_warns_once:
  "warnings (snd (client_receive n r buffer sz addr c)) =
    warnings c @ (if r = Recv_failed False then [''receive failed with errno: '' @ strerror n] else [])"
  by (cases r) (auto simp: Let_def)

text \<open>
  The receiver thread over the results of \<open>recvfrom\<close>, with what a callback does as an
  argument: \<open>True\<close> when it has ended, \<open>False\<close> when it still waits.
\<close>

fun receiver_thread ::
  "'a net_scheme \<Rightarrow> ('cb \<Rightarrow> Address \<Rightarrow> string \<Rightarrow> ('cb UDPClient, unit) op) \<Rightarrow> nat \<Rightarrow> recv_result list \<Rightarrow>
   ('cb UDPClient, bool) op" where
  "receiver_thread n run sz rs =
     (if sz = 0 then ret True
      else case rs of
        [] \<Rightarrow> ret False
      | Recv_failed timeout # rest \<Rightarrow> receiver_thread n run sz rest
      | Received data addr # rest \<Rightarrow>
          if data = [] then receiver_thread n run sz rest
          else andthen (handleReceiveAndCheckIfEnd n addr (take sz data)) (\<lambda>reaction.
            case reaction of
              Run cb \<Rightarrow> andthen (run cb addr (take sz data)) (\<lambda>_. receiver_thread n run sz rest)
            | Ignore \<Rightarrow> receiver_thread n run sz rest
            | End_thread \<Rightarrow> ret True))"

text \<open>
  The message of the destructor ends the thread, unless a callback is kept for the own
  address of the client, which would take the message.
\<close>

lemma destructor_ends_thread:
  assumes "0 < sz" "toString n src = Inr key" "om_find key (callbackMap c) = None" "isLoopback n src (sendPort c)"
  shows "receiver_thread n run sz (Received [CHR 0x00] src # rs) c = (Return True, c)"
proof -
  obtain k where "sz = Suc k" using assms(1) by (cases sz) auto
  then show ?thesis
    using assms(2-4) by (simp add: andthen_def handleReceiveAndCheckIfEnd_def Let_def c_str_def)
qed

lemma pending_takes_ending:
  assumes "0 < sz" "toString n src = Inr key" "om_find key (callbackMap c) = Some (Some cb)"
  shows "receiver_thread n run sz [Received [CHR 0x00] src] c =
    andthen (run cb src [CHR 0x00]) (\<lambda>_. ret False) (c\<lparr>callbackMap := om_erase key (callbackMap c)\<rparr>)"
proof -
  obtain k where "sz = Suc k" using assms(1) by (cases sz) auto
  then show ?thesis
    using assms(2,3) by (simp add: andthen_def handleReceiveAndCheckIfEnd_def Let_def c_str_def split: prod.split outcome.split)
qed

text \<open>The sockets of a client are at neighbouring ports modulo \<open>2^16\<close>.\<close>

lemma constructed_ports:
  assumes "byte_order_ok n" "\<And>p s. open_socket p = Inr s \<Longrightarrow> ownAddress s = Address_any n p"
    and "construct_client n open_socket port sz cb = Inr c"
  shows "getPort n (ownAddress (sendSocket c)) = Inr port"
    "getPort n (ownAddress (receiveSocket c)) = Inr (port + 1)" "sendPort c = port" "receiving c \<longleftrightarrow> sz \<noteq> 0"
  using assms getPort_any [OF assms(1)]
  by (auto simp: construct_client_def client_on_def UDPClient.defs new_UDPClient_def split: sum.splits)

section \<open>Properties\<close>

lemma new_server_cannot_send:
  "server_send n msg sz (new_UDPServer a) =
     (Throw (Exception ''attempt to send message from server before calling receive - client address is unknown''),
      new_UDPServer a)"
  by (simp add: server_send_def new_UDPServer_def)

text \<open>
  C30: A server answers each datagram at most once: after a datagram from \<open>addr\<close>
  the first \<open>send\<close> puts exactly the message on the wire, to the next port of
  \<open>addr\<close>; a second \<open>send\<close> throws and sends nothing, as does a \<open>send\<close> before any
  datagram has arrived or after a failed \<open>receive\<close>.
\<close>

theorem server_answers_once:
  assumes "incrementPort n addr = Inr b" "0 \<le> sendto n msg b"
  shows "\<exists>srv'. fst (server_receive (Received data addr) buffer sz srv) =
      Return (int (min sz (length data)), take sz data @ drop (min sz (length data)) buffer) \<and>
    server_send n msg (length msg) (snd (server_receive (Received data addr) buffer sz srv)) =
      (Return (sendto n msg b), srv') \<and>
    replies srv' = replies srv @ [(msg, b)] \<and>
    (\<forall>msg' sz'. \<exists>e. server_send n msg' sz' srv' = (Throw e, srv')) \<and>
    (\<forall>msg' sz'. \<exists>e. fst (server_send n msg' sz'
       (snd (server_receive (Recv_failed timeout) buffer sz srv'))) = Throw e)"
  using assms by (auto simp: server_send_def Let_def min.commute)

theorem server_answers_once_witness:
  "\<exists>srv'. server_send example_net ''hi'' 2
     (snd (server_receive (Received ''abc'' (loopback6 7500)) [] 9 (new_UDPServer (loopback6 0)))) =
       (Return 2, srv') \<and> replies srv' = [(''hi'', loopback6 7501)]"
  using server_answers_once [where n = example_net and addr = "loopback6 7500" and b = "loopback6 7501" and
      msg = "''hi''" and sz = 9 and data = "''abc''" and buffer = "[]" and srv = "new_UDPServer (loopback6 0)"]
  by (auto simp: new_UDPServer_def numeral_2_eq_2)

text \<open>
  C29: The callback kept for an address replaces the one kept before, is run for the
  first datagram that comes back from that address, and is gone afterwards: the
  next one from there goes to the default callback.
\<close>

theorem callback_runs_once:
  assumes "ordered (callbackMap c)" "toString n a = Inr key" "toString n addr = Inr key"
    and "0 \<le> sendto n question a" "defaultCallback c = Some d" "c_str msg' \<noteq> []"
  shows "\<exists>c1 c2. sendAndSaveCallback n question a (Some cb) c = (Return (), c1) \<and>
    sent c1 = sent c @ [(question, a)] \<and>
    handleReceiveAndCheckIfEnd n addr msg c1 = (Return (Run cb), c2) \<and>
    handleReceiveAndCheckIfEnd n addr msg' c2 = (Return (Run d), c2)"
proof -
  let ?m = "case om_find key (callbackMap c) of
      Some _ \<Rightarrow> om_assign key (Some cb) (callbackMap c)
    | None \<Rightarrow> om_emplace key (Some cb) (callbackMap c)"
  let ?c1 = "c\<lparr>sent := sent c @ [(question, a)], callbackMap := ?m\<rparr>"
  have found: "om_find key ?m = Some (Some cb)"
    using assms(1) by (auto simp: omap_simps split: option.split)
  have "sendAndSaveCallback n question a (Some cb) c = (Return (), ?c1)"
    using assms
    by (simp add: sendAndSaveCallback_def client_send_def save_callback_def andthen_def Let_def
        split: option.split)
  moreover have "handleReceiveAndCheckIfEnd n addr msg ?c1 =
      (Return (Run cb), ?c1\<lparr>callbackMap := om_erase key ?m\<rparr>)"
    using assms found by (simp add: handleReceiveAndCheckIfEnd_def andthen_def Let_def)
  moreover have "handleReceiveAndCheckIfEnd n addr msg' (?c1\<lparr>callbackMap := om_erase key ?m\<rparr>) =
      (Return (Run d), ?c1\<lparr>callbackMap := om_erase key ?m\<rparr>)"
    using assms by (simp add: handleReceiveAndCheckIfEnd_def andthen_def Let_def omap_simps)
  ultimately show ?thesis by force
qed

theorem callback_runs_once_witness:
  "\<exists>c1 c2. sendAndSaveCallback example_net ''q'' (loopback6 7000) (Some (1::nat))
      (new_UDPClient 7501 (Some 2)) = (Return (), c1) \<and>
    handleReceiveAndCheckIfEnd example_net (loopback6 7000) ''x'' c1 = (Return (Run 1), c2)"
  using callback_runs_once [where c = "new_UDPClient 7501 (Some 2)" and n = example_net and
      a = "loopback6 7000" and addr = "loopback6 7000" and question = "''q''" and
      key = "''::1 :'' @ show_nat (unat (7000 :: 16 word))" and d = 2 and cb = "1::nat" and
      msg = "''x''" and msg' = "''x''"]
  by (force simp: c_str_def new_UDPClient_def)

end
