(* ===== verification/Communicator.thy ===== *)
theory Communicator
  imports SensorList Udp
begin

text \<open>
  \<open>Communicator\<close> of the central station: it sends the questions to the sensors,
  keeps a callback for each answer and lets the callbacks update the sensor list.
  Its state is the sensor list, extended with the UDP client, the ports and the
  lines written to the standard output.  The environment \<open>env\<close> adds to \<open>net\<close>
  the function \<open>boost::split\<close> at blanks, of which \<open>split_ok\<close> states what its
  documentation promises.
\<close>

section \<open>Splitting at blanks\<close>

record env = net +
  split :: "string \<Rightarrow> string list"

fun join_blank :: "string list \<Rightarrow> string" where
  "join_blank [] = []"
| "join_blank [w] = w"
| "join_blank (w # ws) = w @ '' '' @ join_blank ws"

definition is_split :: "string \<Rightarrow> string list \<Rightarrow> bool" where
  "is_split msg ws \<longleftrightarrow> ws \<noteq> [] \<and> join_blank ws = msg \<and> list_all (\<lambda>w. CHR '' '' \<notin> set w) ws"

definition split_ok :: "'a env_scheme \<Rightarrow> bool" where
  "split_ok n \<longleftrightarrow> (\<forall>msg. is_split msg (split n msg))"

text \<open>A concrete splitter, for evaluation.\<close>

fun split_blank :: "string \<Rightarrow> string list" where
  "split_blank [] = [[]]"
| "split_blank (c # s) =
     (if c = CHR '' '' then [] # split_blank s
      else case split_blank s of [] \<Rightarrow> [[c]] | w # ws \<Rightarrow> (c # w) # ws)"

section \<open>State\<close>

datatype comm_callback = Callback_set_threshold | Callback_get_value | Callback string

record Communicator = SensorList +
  client :: "comm_callback UDPClient"
  sensor_port1 :: string
  sensor_port2 :: string
  comm_max_answer_time :: int
  cout :: "string list"

definition new_Communicator ::
  "SensorList \<Rightarrow> 16 word \<Rightarrow> string \<Rightarrow> string \<Rightarrow> int \<Rightarrow> Communicator" where
  "new_Communicator sl client_port port1 port2 mat =
     \<lparr>logs = logs sl, max_answer_time = max_answer_time sl, sensors = sensors sl,
        client = new_UDPClient client_port (Some (Callback ''default_callback'')),
        sensor_port1 = port1, sensor_port2 = port2, comm_max_answer_time = mat, cout = []\<rparr>"

definition on_client ::
  "(comm_callback UDPClient, 'r) op \<Rightarrow> ('a Communicator_scheme, 'r) op" where
  "on_client m = (\<lambda>s. case m (client s) of (r, c) \<Rightarrow> (r, s\<lparr>client := c\<rparr>))"

definition print_line :: "string \<Rightarrow> ('a Communicator_scheme, unit) op" where
  "print_line l = change (\<lambda>s. s\<lparr>cout := cout s @ [l]\<rparr>)"

section \<open>Operations\<close>

text \<open>The translation of an address that every operation begins with.\<close>

definition resolve :: "'n net_scheme \<Rightarrow> string \<Rightarrow> string \<Rightarrow> ('s, Address \<times> string) op" where
  "resolve n addr port =
     try_catch
       (andthen (Address_host n addr port) (\<lambda>server_address.
        andthen (or_throw (hostToString n server_address)) (\<lambda>translated_address.
        ret (server_address, translated_address))))
       is_exception_info (\<lambda>_. throw (Logic_error ''Incorrect address format''))"

definition out_of_scale :: "float32 \<Rightarrow> bool" where
  "out_of_scale x \<longleftrightarrow> f32_less x (f32_of_int 0) \<or> f32_less (f32_of_int 100) x"

text \<open>
  The guard of both questions: whether the last one is younger than
  \<open>max_answer_time\<close>; the functions return at once if so.
\<close>

definition asked_recently ::
  "('a Communicator_scheme, time_t) op \<Rightarrow> (exn \<Rightarrow> ('a Communicator_scheme, bool) op) \<Rightarrow>
   time_t \<Rightarrow> ('a Communicator_scheme, bool) op" where
  "asked_recently last_question on_error now =
     try_catch
       (andthen last_question (\<lambda>q. reads (\<lambda>s. now - q < comm_max_answer_time s)))
       is_logic_error on_error"

definition comm_set_threshold ::
  "'n net_scheme \<Rightarrow> clock \<Rightarrow> string \<Rightarrow> float32 \<Rightarrow> ('a Communicator_scheme, unit) op" where
  "comm_set_threshold n t addr new_threshold =
     (if out_of_scale new_threshold
      then throw (Invalid_argument ''Can't add sensor: invalid format of threshold'')
      else
        andthen (reads sensor_port1) (\<lambda>port.
        andthen (resolve n addr port) (\<lambda>(server_address, translated_address).
        andthen (asked_recently (get_last_threshold_question translated_address)
                   (\<lambda>_. throw (no_sensor translated_address)) (t 0)) (\<lambda>recent.
        if recent then ret ()
        else
          andthen (log_msg (''Sent message set_threshold to: '' @ translated_address)) (\<lambda>_.
          andthen (on_client (sendAndSaveCallback n
                     (''set_threshold '' @ to_string_f32 new_threshold) server_address
                     (Some Callback_set_threshold))) (\<lambda>_.
          set_last_threshold_question (\<lambda>i. t (i + 1)) translated_address))))))"

definition comm_add_sensor ::
  "'n net_scheme \<Rightarrow> clock \<Rightarrow> string \<Rightarrow> float32 \<Rightarrow> ('a Communicator_scheme, unit) op" where
  "comm_add_sensor n t addr threshold_value =
     andthen (reads sensor_port1) (\<lambda>port.
     andthen (resolve n addr port) (\<lambda>(_, translated_address).
     if out_of_scale threshold_value
     then throw (Invalid_argument ''Can't add sensor: valid format of threshold'')
     else
       andthen (add_sensor translated_address) (\<lambda>_.
       andthen (log_msg (''Sensor '' @ translated_address @ '' added'')) (\<lambda>_.
       comm_set_threshold n t addr threshold_value))))"

definition comm_erase_sensor ::
  "'n net_scheme \<Rightarrow> string \<Rightarrow> ('a Communicator_scheme, unit) op" where
  "comm_erase_sensor n addr =
     andthen (reads sensor_port1) (\<lambda>port.
     andthen (resolve n addr port) (\<lambda>(_, translated_address).
     andthen (erase_sensor translated_address) (\<lambda>_.
     log_msg (''Sensor '' @ translated_address @ '' erased''))))"

definition ask_for_values ::
  "'n net_scheme \<Rightarrow> clock \<Rightarrow> string \<Rightarrow> ('a Communicator_scheme, unit) op" where
  "ask_for_values n t addr =
     andthen (reads sensor_port2) (\<lambda>port.
     andthen (resolve n addr port) (\<lambda>(server_address, translated_address).
     andthen (asked_recently (get_last_value_question translated_address)
                (\<lambda>_. andthen (print_line (''don't exist: '' @ translated_address))
                       (\<lambda>_. throw (no_sensor translated_address))) (t 0)) (\<lambda>recent.
     if recent then ret ()
     else
       andthen (log_msg (''Sent message get_value to: '' @ translated_address)) (\<lambda>_.
       andthen (on_client (sendAndSaveCallback n ''get_value'' server_address
                  (Some Callback_get_value))) (\<lambda>_.
       set_last_value_question (\<lambda>i. t (i + 1)) translated_address)))))"

definition comm_get_sensor_state ::
  "'n net_scheme \<Rightarrow> clock \<Rightarrow> string \<Rightarrow> ('a Communicator_scheme, SensorState) op" where
  "comm_get_sensor_state n t addr =
     andthen (reads sensor_port1) (\<lambda>port.
     andthen (resolve n addr port) (\<lambda>(_, translated_address).
     get_sensor_state t translated_address))"

definition get_sensor_list :: "clock \<Rightarrow> ('a Communicator_scheme, (string \<times> SensorState) list) op" where
  "get_sensor_list t = get_sensors t"

definition send_server_terminating_msg ::
  "'n net_scheme \<Rightarrow> string \<Rightarrow> ('a Communicator_scheme, unit) op" where
  "send_server_terminating_msg n port =
     andthen (Address_host n ''localhost'' port) (\<lambda>a.
     andthen (on_client (client_send n [CHR 0xFF] a)) (\<lambda>_. ret ()))"

section \<open>Callbacks\<close>

text \<open>\<open>hostToString\<close> may throw an \<open>ExceptionInfo\<close>, which the callbacks do not catch.\<close>

definition print_error :: "exn \<Rightarrow> ('a Communicator_scheme, unit) op" where
  "print_error e = print_line (what e)"

definition set_threshold_received ::
  "'n env_scheme \<Rightarrow> Address \<Rightarrow> string \<Rightarrow> ('a Communicator_scheme, unit) op" where
  "set_threshold_received n addr msg =
     try_catch
       (let answer_splited = split n msg in
        if length answer_splited > 1 \<and> answer_splited ! 0 = ''threshold:'' then
          andthen (or_throw (stof (answer_splited ! 1))) (\<lambda>x.
          andthen (or_throw (hostToString n addr)) (\<lambda>host.
          andthen (set_threshold host x) (\<lambda>_.
          log_msg (''Answer message from: '' @ host @ '' set threshold to '' @ to_string_f32 x))))
        else
          andthen (or_throw (hostToString n addr)) (\<lambda>host.
          log_msg (''Invalid answer from '' @ host @ '': '' @ msg @
            ''. Expected: threshold: <value> '')))
       is_logic_error print_error"

definition get_value_received ::
  "'n env_scheme \<Rightarrow> Address \<Rightarrow> string \<Rightarrow> ('a Communicator_scheme, unit) op" where
  "get_value_received n addr msg =
     try_catch
       (let answer_splited = split n msg in
        if length answer_splited > 3 \<and> answer_splited ! 0 = ''current_value:'' \<and>
           answer_splited ! 2 = ''typical_value:'' then
          andthen (or_throw (stof (answer_splited ! 1))) (\<lambda>c.
          andthen (or_throw (stof (answer_splited ! 3))) (\<lambda>v.
          andthen (or_throw (hostToString n addr)) (\<lambda>host.
          andthen (set_values host c v) (\<lambda>_.
          log_msg (''Answer message from: '' @ host @ '' Set: current_value to '' @
            to_string_f32 c @ '', typical_value set to '' @ to_string_f32 v)))))
        else
          andthen (or_throw (hostToString n addr)) (\<lambda>host.
          log_msg (''Invalid answer from '' @ host @ '': '' @ msg @
            ''. Expected: current_value: <value> typical_value: <value> '')))
       is_logic_error print_error"

definition default_received ::
  "'n env_scheme \<Rightarrow> Address \<Rightarrow> string \<Rightarrow> ('a Communicator_scheme, unit) op" where
  "default_received n addr msg =
     andthen (or_throw (hostToString n addr)) (\<lambda>host.
     log_msg (''Unexpected callback, answer from '' @ host @ '': '' @ msg))"

fun callbackOnReceive ::
  "'n env_scheme \<Rightarrow> comm_callback \<Rightarrow> Address \<Rightarrow> string \<Rightarrow> ('a Communicator_scheme, unit) op" where
  "callbackOnReceive n Callback_set_threshold = set_threshold_received n"
| "callbackOnReceive n Callback_get_value = get_value_received n"
| "callbackOnReceive n (Callback name) = default_received n"

text \<open>
  One round of the receiver thread: a datagram of at most 512 bytes; an empty one
  is ignored.  The result says whether the thread should end.
\<close>

definition receiver_step ::
  "'n env_scheme \<Rightarrow> Address \<Rightarrow> string \<Rightarrow> ('a Communicator_scheme, bool) op" where
  "receiver_step n addr data =
     (let message = take 512 data in
      if message = [] then ret False
      else
        andthen (on_client (handleReceiveAndCheckIfEnd n addr message)) (\<lambda>reaction.
          case reaction of
            Run callback \<Rightarrow> andthen (callbackOnReceive n callback addr message) (\<lambda>_. ret False)
          | Ignore \<Rightarrow> ret False
          | End_thread \<Rightarrow> ret True))"

section \<open>The splitter\<close>

lemma is_split_Nil: "is_split [] ws \<Longrightarrow> ws = [[]]"
  by (cases ws rule: join_blank.cases) (auto simp: is_split_def)

lemma is_split_blank_Cons: "is_split (CHR '' '' # s) ws \<Longrightarrow> \<exists>ws'. ws = [] # ws' \<and> is_split s ws'"
  by (cases ws rule: join_blank.cases) (auto simp: is_split_def append_eq_Cons_conv)

lemma is_split_char_Cons:
  "is_split (c # s) ws \<Longrightarrow> c \<noteq> CHR '' '' \<Longrightarrow> \<exists>w ws'. ws = (c # w) # ws' \<and> is_split s (w # ws')"
  by (cases ws rule: join_blank.cases) (auto simp: is_split_def append_eq_Cons_conv)

lemma split_blank_nonempty: "split_blank s \<noteq> []"
  by (induction s) (auto split: list.split)

lemma join_blank_Cons: "ws \<noteq> [] \<Longrightarrow> join_blank ((c # w) # ws) = c # join_blank (w # ws)"
  by (cases ws) simp_all

lemma is_split_split_blank: "is_split s (split_blank s)"
proof (induction s)
  case (Cons c s)
  obtain w ws where w: "split_blank s = w # ws"
    using split_blank_nonempty [of s] by (cases "split_blank s") auto
  with Cons show ?case by (cases ws) (auto simp: is_split_def)
qed (simp add: is_split_def)

text \<open>The documented behaviour determines the result.\<close>

lemma is_split_unique: "is_split s ws \<Longrightarrow> ws = split_blank s"
proof (induction s arbitrary: ws)
  case Nil
  then show ?case by (auto dest: is_split_Nil)
next
  case (Cons c s)
  show ?case
  proof (cases "c = CHR '' ''")
    case True
    then show ?thesis using Cons by (auto dest!: is_split_blank_Cons)
  next
    case False
    then obtain w ws' where w: "ws = (c # w) # ws'" "is_split s (w # ws')"
      using Cons.prems by (blast dest: is_split_char_Cons)
    with Cons.IH have "split_blank s = w # ws'" by simp
    with w False show ?thesis by simp
  qed
qed

lemma split_ok_eq: "split_ok n \<Longrightarrow> split n msg = split_blank msg"
  using is_split_unique by (auto simp: split_ok_def)

lemma split_blank_word: "CHR '' '' \<notin> set w \<Longrightarrow> split_blank w = [w]"
  by (induction w) auto

lemma split_blank_cons:
  "CHR '' '' \<notin> set w \<Longrightarrow> split_blank (w @ CHR '' '' # r) = w # split_blank r"
  by (induction w) (auto split: list.split)

section \<open>Invariant\<close>

text \<open>The sensor table and the callback table are maps with increasing keys.\<close>

definition comm_ok :: "'a Communicator_scheme \<Rightarrow> bool" where
  "comm_ok s \<longleftrightarrow> ordered (sensors s) \<and> ordered (callbackMap (client s))"

definition client_ok :: "'cb UDPClient \<Rightarrow> bool" where
  "client_ok c \<longleftrightarrow> ordered (callbackMap c)"

lemma keeps_or_throw [intro, simp]: "keeps I (or_throw r)"
  by (cases r) auto

lemma keeps_client:
  "keeps client_ok (client_send n d a)"
  "keeps client_ok (save_callback key cb)"
  "keeps client_ok (sendAndSaveCallback n msg a cb)"
  "keeps client_ok (handleReceiveAndCheckIfEnd n a msg)"
proof -
  show 1: "keeps client_ok (client_send n d a)" for d
    by (rule keepsI) (simp add: client_send_def client_ok_def Let_def)
  show 2: "keeps client_ok (save_callback key cb)" for key
    by (rule keepsI) (auto simp: save_callback_def client_ok_def split: option.split)
  show "keeps client_ok (sendAndSaveCallback n msg a cb)"
    unfolding sendAndSaveCallback_def using 1 2 by (auto intro!: keeps_andthen)
  show "keeps client_ok (handleReceiveAndCheckIfEnd n a msg)"
    unfolding handleReceiveAndCheckIfEnd_def
    by (intro keeps_andthen keeps_or_throw keepsI)
       (auto simp: client_ok_def Let_def split: option.split)
qed

text \<open>
  Every operation changes the state only through its basic updates, so an invariant
  that those keep is kept by all of them: the interface between the communicator
  and the components whose state contains it.
\<close>

lemma keeps_resolve [intro, simp]: "keeps I (resolve n addr port)"
  unfolding resolve_def Address_host_def
  by (auto intro!: keeps_try_catch keeps_andthen split: list.split)

locale station_frame =
  fixes I :: "'a Communicator_scheme \<Rightarrow> bool"
  assumes frame_comm: "I s \<Longrightarrow> comm_ok s"
    and frame_logs: "I s \<Longrightarrow> I (s\<lparr>logs := l\<rparr>)"
    and frame_cout: "I s \<Longrightarrow> I (s\<lparr>cout := l\<rparr>)"
    and frame_sensors: "I s \<Longrightarrow> ordered m \<Longrightarrow> I (s\<lparr>sensors := m\<rparr>)"
    and frame_client: "I s \<Longrightarrow> client_ok c \<Longrightarrow> I (s\<lparr>client := c\<rparr>)"
begin

lemma frame_ordered: "I s \<Longrightarrow> ordered (sensors s)"
  using frame_comm by (simp add: comm_ok_def)

lemma keeps_on_client:
  assumes "keeps client_ok m"
  shows "keeps I (on_client m)"
proof (rule keepsI)
  fix s assume "I s"
  moreover have "client_ok (snd (m (client s)))"
    using keepsD [OF assms] frame_comm [OF \<open>I s\<close>] by (simp add: comm_ok_def client_ok_def)
  ultimately show "I (snd (on_client m s))"
    using frame_client by (auto simp: on_client_def split: prod.split)
qed

lemma keeps_log: "keeps I (log_msg m)" "keeps I (print_line m)"
  by (simp_all add: keeps_def frame_logs frame_cout print_line_def)

lemma keeps_sensor_basics:
  "keeps I (find_sensor a)" "keeps I (put_sensor a info)"
  "keeps I (add_sensor a)" "keeps I (erase_sensor a)" "keeps I (raise_flag t a info)"
proof -
  show "keeps I (find_sensor a)"
    by (rule keepsI) (simp add: find_sensor_def split: option.split)
  show put: "keeps I (put_sensor a info)" and "keeps I (add_sensor a)" "keeps I (erase_sensor a)" for info
    by (auto simp: keeps_def erase_sensor_apply intro!: frame_sensors dest: frame_ordered)
  show "keeps I (raise_flag t a info)"
    by (auto simp: keeps_def raise_flag_cases intro!: frame_sensors frame_logs dest: frame_ordered)
qed

lemma keeps_sensor_ops:
  "keeps I (set_threshold a x)" "keeps I (set_values a x v)"
  "keeps I (set_last_value_question t a)" "keeps I (set_last_threshold_question t a)"
  "keeps I (get_last_value_question a)" "keeps I (get_last_threshold_question a)"
  "keeps I (get_sensor_state t a)"
  unfolding sensor_op_defs by (auto intro!: keeps_andthen keeps_sensor_basics)

lemma keeps_asked_recently:
  "keeps I q \<Longrightarrow> (\<And>e. keeps I (h e)) \<Longrightarrow> keeps I (asked_recently q h now)"
  unfolding asked_recently_def by (auto intro!: keeps_try_catch keeps_andthen)

lemmas keeps_rules = keeps_andthen keeps_try_catch keeps_on_client keeps_asked_recently keeps_client
  keeps_log keeps_sensor_basics keeps_sensor_ops

lemma keeps_comm_ops:
  "keeps I (comm_set_threshold n t addr x)"
  "keeps I (comm_add_sensor n t addr x)"
  "keeps I (comm_erase_sensor n addr)"
  "keeps I (ask_for_values n t addr)"
  "keeps I (comm_get_sensor_state n t addr)"
  "keeps I (get_sensor_list t)"
proof -
  show 1: "keeps I (comm_set_threshold n t addr x)"
    unfolding comm_set_threshold_def by (auto intro!: keeps_rules split: prod.split)
  show "keeps I (comm_add_sensor n t addr x)"
    unfolding comm_add_sensor_def using 1 by (auto intro!: keeps_rules split: prod.split)
  show "keeps I (comm_erase_sensor n addr)"
    unfolding comm_erase_sensor_def by (auto intro!: keeps_rules split: prod.split)
  show "keeps I (ask_for_values n t addr)"
    unfolding ask_for_values_def by (auto intro!: keeps_rules split: prod.split)
  show "keeps I (comm_get_sensor_state n t addr)"
    unfolding comm_get_sensor_state_def by (auto intro!: keeps_rules split: prod.split)
  show "keeps I (get_sensor_list t)"
    unfolding get_sensor_list_def get_sensors_def by auto
qed

lemma keeps_callbacks: "keeps I (callbackOnReceive n cb addr msg)"
  by (cases cb)
     (auto simp: set_threshold_received_def get_value_received_def default_received_def
        print_error_def Let_def intro!: keeps_rules)

lemma keeps_receiver_step: "keeps I (receiver_step n addr data)"
  unfolding receiver_step_def Let_def
  by (auto intro!: keeps_rules keeps_callbacks split: reaction.split)

lemma keeps_terminating_msg: "keeps I (send_server_terminating_msg n port)"
  unfolding send_server_terminating_msg_def Address_host_def
  by (auto intro!: keeps_rules split: list.split)

end

interpretation comm: station_frame comm_ok
  by unfold_locales (simp_all add: comm_ok_def client_ok_def)

section \<open>Questions\<close>

lemma resolve_state: "resolve n addr port s = (r, s') \<Longrightarrow> s' = s"
  by (auto simp: resolve_def try_catch_def andthen_def Address_host_def or_throw_def
      split: sum.splits outcome.splits list.splits if_splits prod.splits)

text \<open>The client after a question that was sent: the datagram and the callback for the answer.\<close>

definition client_asked ::
  "string \<Rightarrow> Address \<Rightarrow> string \<Rightarrow> 'cb \<Rightarrow> 'cb UDPClient \<Rightarrow> 'cb UDPClient" where
  "client_asked msg a key cb c =
     c\<lparr>sent := sent c @ [(msg, a)],
       callbackMap := (case om_find key (callbackMap c) of
           Some _ \<Rightarrow> om_assign key (Some cb) (callbackMap c)
         | None \<Rightarrow> om_emplace key (Some cb) (callbackMap c))\<rparr>"

lemma sendAndSaveCallback_sent:
  assumes "0 \<le> sendto n msg a" "toString n a = Inr key"
  shows "sendAndSaveCallback n msg a (Some cb) c = (Return (), client_asked msg a key cb c)"
  using assms
  by (simp add: sendAndSaveCallback_def client_send_def save_callback_def client_asked_def
      andthen_def Let_def split: option.split)

lemma client_asked_pending:
  "ordered (callbackMap c) \<Longrightarrow> om_find key' (callbackMap (client_asked msg a key cb c)) =
     (if key' = key then Some (Some cb) else om_find key' (callbackMap c))"
  by (simp add: client_asked_def omap_simps split: option.split)

lemma client_asked_ok:
  "ordered (callbackMap c) \<Longrightarrow> ordered (callbackMap (client_asked msg a key cb c))"
  by (auto simp: client_asked_def split: option.split)

lemma comm_set_threshold_sent:
  assumes "\<not> out_of_scale x" "resolve n addr (sensor_port1 s) s = (Return (a, host), s)"
    and "om_find host (sensors s) = Some info"
    and "comm_max_answer_time s \<le> t 0 - last_threshold_question info"
    and "0 \<le> sendto n (''set_threshold '' @ to_string_f32 x) a" "toString n a = Inr key"
  shows "comm_set_threshold n t addr x s =
    set_last_threshold_question (\<lambda>i. t (i + 1)) host
      (s\<lparr>logs := logs s @ [''Sent message set_threshold to: '' @ host],
         client := client_asked (''set_threshold '' @ to_string_f32 x) a key Callback_set_threshold
           (client s)\<rparr>)"
  using assms
  by (simp add: comm_set_threshold_def andthen_def asked_recently_def try_catch_def
      get_last_threshold_question_def find_sensor_def on_client_def sendAndSaveCallback_sent)

lemma comm_set_threshold_recent:
  assumes "\<not> out_of_scale x" "resolve n addr (sensor_port1 s) s = (Return (a, host), s)"
    and "om_find host (sensors s) = Some info"
    and "t 0 - last_threshold_question info < comm_max_answer_time s"
  shows "comm_set_threshold n t addr x s = (Return (), s)"
  using assms
  by (simp add: comm_set_threshold_def andthen_def asked_recently_def try_catch_def
      get_last_threshold_question_def find_sensor_def)

lemma comm_set_threshold_unknown:
  assumes "\<not> out_of_scale x" "resolve n addr (sensor_port1 s) s = (Return (a, host), s)"
    and "om_find host (sensors s) = None"
  shows "comm_set_threshold n t addr x s = (Throw (no_sensor host), s)"
  using assms
  by (simp add: comm_set_threshold_def andthen_def asked_recently_def try_catch_def
      get_last_threshold_question_def find_sensor_def)

lemma ask_for_values_sent:
  assumes "resolve n addr (sensor_port2 s) s = (Return (a, host), s)"
    and "om_find host (sensors s) = Some info"
    and "comm_max_answer_time s \<le> t 0 - last_value_question info"
    and "0 \<le> sendto n ''get_value'' a" "toString n a = Inr key"
  shows "ask_for_values n t addr s =
    set_last_value_question (\<lambda>i. t (i + 1)) host
      (s\<lparr>logs := logs s @ [''Sent message get_value to: '' @ host],
         client := client_asked ''get_value'' a key Callback_get_value (client s)\<rparr>)"
  using assms
  by (simp add: ask_for_values_def andthen_def asked_recently_def try_catch_def
      get_last_value_question_def find_sensor_def on_client_def sendAndSaveCallback_sent)

lemma ask_for_values_recent:
  assumes "resolve n addr (sensor_port2 s) s = (Return (a, host), s)"
    and "om_find host (sensors s) = Some info"
    and "t 0 - last_value_question info < comm_max_answer_time s"
  shows "ask_for_values n t addr s = (Return (), s)"
  using assms
  by (simp add: ask_for_values_def andthen_def asked_recently_def try_catch_def
      get_last_value_question_def find_sensor_def)

lemma ask_for_values_unknown:
  assumes "resolve n addr (sensor_port2 s) s = (Return (a, host), s)"
    and "om_find host (sensors s) = None"
  shows "ask_for_values n t addr s =
    (Throw (no_sensor host), s\<lparr>cout := cout s @ [''don't exist: '' @ host]\<rparr>)"
  using assms
  by (simp add: ask_for_values_def andthen_def asked_recently_def try_catch_def print_line_def
      get_last_value_question_def find_sensor_def)

text \<open>The state of an entry and of the client after a question was recorded.\<close>

lemma set_last_value_question_found:
  assumes "om_find host (sensors s) = Some info"
  shows "\<exists>s'. set_last_value_question t host s = (Return (), s') \<and> client s' = client s \<and>
    sensor_port1 s' = sensor_port1 s \<and> sensor_port2 s' = sensor_port2 s \<and>
    comm_max_answer_time s' = comm_max_answer_time s \<and>
    (\<exists>info'. om_find host (sensors s') = Some info' \<and> flag info' \<and> last_value_question info' = t 0)"
  using assms
  by (auto simp: set_last_value_question_def found_apply raise_flag_cases omap_simps)

lemma set_last_threshold_question_found:
  assumes "om_find host (sensors s) = Some info" "ordered (sensors s)"
  shows "\<exists>s'. set_last_threshold_question t host s = (Return (), s') \<and> client s' = client s \<and>
    sensor_port1 s' = sensor_port1 s \<and> sensor_port2 s' = sensor_port2 s \<and> ordered (sensors s') \<and>
    comm_max_answer_time s' = comm_max_answer_time s \<and>
    (\<exists>info'. om_find host (sensors s') = Some info' \<and> flag info' \<and> last_threshold_question info' = t 0)"
  using assms
  by (auto simp: set_last_threshold_question_def found_apply raise_flag_cases omap_simps)

section \<open>Answers\<close>

text \<open>A datagram runs the callback that waits for its sender, and takes it out of the table.\<close>

lemma receiver_step_pending:
  assumes "toString n addr = Inr key" "om_find key (callbackMap (client s)) = Some (Some cb)"
    and "take 512 data \<noteq> []"
  shows "receiver_step n addr data s =
    andthen (callbackOnReceive n cb addr (take 512 data)) (\<lambda>_. ret False)
      (s\<lparr>client := (client s)\<lparr>callbackMap := om_erase key (callbackMap (client s))\<rparr>\<rparr>)"
  using assms
  by (simp add: receiver_step_def andthen_def on_client_def handleReceiveAndCheckIfEnd_def Let_def)

text \<open>
  All that a datagram can change in the sensor table is the entry of its sender:
  \<open>only_entry h m\<close> says that the table is \<open>m\<close> but for the entry of \<open>h\<close>.
\<close>

definition only_entry :: "string \<Rightarrow> (string, SensorInfo) omap \<Rightarrow> 'a Communicator_scheme \<Rightarrow> bool" where
  "only_entry h m s \<longleftrightarrow> om_keys (sensors s) = om_keys m \<and>
     (\<forall>b. b \<noteq> h \<longrightarrow> om_find b (sensors s) = om_find b m)"

lemma keeps_or_throw_andthen:
  "(\<And>x. r = Inr x \<Longrightarrow> keeps I (f x)) \<Longrightarrow> keeps I (andthen (or_throw r) f)"
  by (cases r) (auto simp: keeps_def andthen_def)

lemma only_entry_event: "keeps (only_entry h m) (event_op h e)"
  by (rule keepsI) (simp add: only_entry_def om_keys_def event_op_keys event_op_frame)

lemma only_entry_sensor_ops:
  "keeps (only_entry h m) (set_threshold h x)" "keeps (only_entry h m) (set_values h c v)"
  "keeps (only_entry h m) (log_msg l)" "keeps (only_entry h m) (print_line l)"
proof -
  show "keeps (only_entry h m) (set_threshold h x)"
    using only_entry_event [of h m "Threshold x"] by simp
  show "keeps (only_entry h m) (set_values h c v)"
    using only_entry_event [of h m "Values c v"] by simp
qed (simp_all add: keeps_def only_entry_def print_line_def)

lemma only_entry_callback:
  assumes "\<And>x. hostToString n addr = Inr x \<Longrightarrow> x = h"
  shows "keeps (only_entry h m) (callbackOnReceive n cb addr msg)"
  using assms
  by (cases cb)
     (auto simp: set_threshold_received_def get_value_received_def default_received_def
        print_error_def Let_def only_entry_sensor_ops
        intro!: keeps_try_catch keeps_or_throw_andthen keeps_andthen)

lemma only_entry_client: "keeps (only_entry h m) (on_client c)"
  by (auto simp: keeps_def on_client_def only_entry_def split: prod.split)

lemma receiver_step_only_entry:
  assumes "\<And>x. hostToString n addr = Inr x \<Longrightarrow> x = h"
  shows "keeps (only_entry h m) (receiver_step n addr data)"
  using only_entry_callback [OF assms] only_entry_client
  by (auto simp: receiver_step_def Let_def intro!: keeps_andthen split: reaction.split)

text \<open>A datagram nobody waits for changes no entry at all.\<close>

lemma default_received_sensors: "sensors (snd (default_received n addr msg s)) = sensors s"
  by (cases "hostToString n addr") (simp_all add: default_received_def andthen_def)

text \<open>The two expected answers.\<close>

lemma set_threshold_answer:
  assumes "split_ok n" "hostToString n addr = Inr host" "om_find host (sensors s) = Some info"
    and "split_blank msg = ''threshold:'' # v # rest" "stof v = Inr x"
  shows "set_threshold_received n addr msg s =
    (Return (), s\<lparr>sensors := om_assign host (info\<lparr>threshold := x, flag := False\<rparr>) (sensors s),
       logs := logs s @ [''Answer message from: '' @ host @ '' set threshold to '' @ to_string_f32 x]\<rparr>)"
  using assms
  by (simp add: set_threshold_received_def split_ok_eq try_catch_def andthen_def set_threshold_def
      find_sensor_def)

lemma get_value_answer:
  assumes "split_ok n" "hostToString n addr = Inr host" "om_find host (sensors s) = Some info"
    and "split_blank msg = ''current_value:'' # c # ''typical_value:'' # v # rest"
    and "stof c = Inr x" "stof v = Inr y"
  shows "get_value_received n addr msg s =
    (Return (), s\<lparr>sensors := om_assign host
         (info\<lparr>current_value := x, typical_value := y, flag := False\<rparr>) (sensors s),
       logs := logs s @ [''Answer message from: '' @ host @ '' Set: current_value to '' @
         to_string_f32 x @ '', typical_value set to '' @ to_string_f32 y]\<rparr>)"
  using assms
  by (simp add: get_value_received_def split_ok_eq try_catch_def andthen_def set_values_def
      find_sensor_def)

section \<open>Histories\<close>

datatype comm_event =
    Ev_add string float32
  | Ev_erase string
  | Ev_threshold string float32
  | Ev_values string
  | Ev_state string
  | Ev_datagram Address string

fun comm_event_op :: "'n env_scheme \<Rightarrow> clock \<Rightarrow> comm_event \<Rightarrow> Communicator \<Rightarrow> Communicator" where
  "comm_event_op n t (Ev_add addr x) s = snd (comm_add_sensor n t addr x s)"
| "comm_event_op n t (Ev_erase addr) s = snd (comm_erase_sensor n addr s)"
| "comm_event_op n t (Ev_threshold addr x) s = snd (comm_set_threshold n t addr x s)"
| "comm_event_op n t (Ev_values addr) s = snd (ask_for_values n t addr s)"
| "comm_event_op n t (Ev_state addr) s = snd (comm_get_sensor_state n t addr s)"
| "comm_event_op n t (Ev_datagram addr data) s = snd (receiver_step n addr data s)"

fun comm_run :: "'n env_scheme \<Rightarrow> (clock \<times> comm_event) list \<Rightarrow> Communicator \<Rightarrow> Communicator" where
  "comm_run n [] s = s"
| "comm_run n ((t, e) # es) s = comm_run n es (comm_event_op n t e s)"

lemma comm_run_ok: "comm_ok s \<Longrightarrow> comm_ok (comm_run n es s)"
proof (induction n es s rule: comm_run.induct)
  case (2 n t e es s)
  have "comm_ok (comm_event_op n t e s)"
    using 2(2) by (cases e) (simp_all add: keepsD [OF comm.keeps_comm_ops(1)]
      keepsD [OF comm.keeps_comm_ops(2)] keepsD [OF comm.keeps_comm_ops(3)]
      keepsD [OF comm.keeps_comm_ops(4)] keepsD [OF comm.keeps_comm_ops(5)]
      keepsD [OF comm.keeps_receiver_step])
  with 2 show ?case by simp
qed simp

lemma new_Communicator_ok: "ordered (sensors sl) \<Longrightarrow> comm_ok (new_Communicator sl p p1 p2 mat)"
  by (simp add: comm_ok_def new_Communicator_def new_UDPClient_def)

section \<open>A concrete instance\<close>

definition example_env :: env where
  "example_env = net.extend example_net \<lparr>split = split_blank\<rparr>"

definition example_comm :: Communicator where
  "example_comm = new_Communicator (snd (add_sensor ''::1'' (new_SensorList 5))) 7501 ''7000'' ''7001'' 5"

lemma example_env_simps [simp]:
  "sendto example_env d a = int (length d)"
  "split example_env = split_blank"
  "incrementPort example_env (loopback6 p) = Inr (loopback6 (p + 1))"
  "hostToString example_env (loopback6 p) = Inr ''::1''"
  "toString example_env (loopback6 p) = Inr (''::1 :'' @ show_nat (unat p))"
  "resolve example_env ''::1'' ''7000'' s = (Return (loopback6 7000, ''::1''), s)"
  "resolve example_env ''::1'' ''7001'' s = (Return (loopback6 7001, ''::1''), s)"
  by (simp_all add: example_env_def net.defs example_net_def incrementPort_def loopback6_def
      hostToString_def toString_def portToString_def getPort_def starts_with_def resolve_def
      Address_host_def AddressInfo_def try_catch_def andthen_def c_str_def)

lemma example_comm_simps [simp]:
  "sensors example_comm = [(''::1'', new_SensorInfo)]"
  "client example_comm = new_UDPClient 7501 (Some (Callback ''default_callback''))"
  "sensor_port1 example_comm = ''7000''" "sensor_port2 example_comm = ''7001''"
  "comm_max_answer_time example_comm = 5" "max_answer_time example_comm = 5"
  by (simp_all add: example_comm_def new_Communicator_def new_SensorList_def)

lemma example_comm_ok [simp]: "comm_ok example_comm"
  by (simp add: comm_ok_def new_UDPClient_def ordered_def)

lemma example_env_split [simp]: "split_ok example_env"
  by (simp add: split_ok_def is_split_split_blank)

section \<open>Properties\<close>

text \<open>
  In every state that the station reaches from a well-formed sensor list, by any
  history of additions, removals, questions and datagrams with any clock, the
  sensor table and the table of callbacks are ordered maps, so no address has two
  entries.
\<close>

lemma comm_invariant:
  assumes "ordered (sensors sl)"
  shows "comm_ok (comm_run n es (new_Communicator sl p p1 p2 mat))"
  using assms by (intro comm_run_ok new_Communicator_ok)

text \<open>
  C4: \<open>set_threshold\<close> for a known sensor: a value out of the scale is refused and
  nothing is sent; a question younger than \<open>max_answer_time\<close> is dropped without
  effect; otherwise exactly one datagram with the value is sent to the resolved
  address, the callback for its answer is kept, and the question is marked as
  pending, so that a second one within \<open>max_answer_time\<close> is dropped.
\<close>

theorem set_threshold_protocol:
  fixes s :: "'a Communicator_scheme"
  assumes "comm_ok s" "\<And>s' :: 'a Communicator_scheme. resolve n addr (sensor_port1 s) s' = (Return (a, host), s')"
    and "om_find host (sensors s) = Some info" "toString n a = Inr key"
    and "msg = ''set_threshold '' @ to_string_f32 x" "0 \<le> sendto n msg a"
  shows "if out_of_scale x then \<exists>e. comm_set_threshold n t addr x s = (Throw e, s) \<and> is_invalid_argument e
    else if t 0 - last_threshold_question info < comm_max_answer_time s
    then comm_set_threshold n t addr x s = (Return (), s)
    else \<exists>s' info'. comm_set_threshold n t addr x s = (Return (), s') \<and>
      sent (client s') = sent (client s) @ [(msg, a)] \<and>
      om_find key (callbackMap (client s')) = Some (Some Callback_set_threshold) \<and>
      om_find host (sensors s') = Some info' \<and> flag info' \<and>
      (\<forall>t' y. \<not> out_of_scale y \<longrightarrow> t' 0 - t 1 < comm_max_answer_time s \<longrightarrow>
         comm_set_threshold n t' addr y s' = (Return (), s'))"
proof (cases "out_of_scale x \<or> t 0 - last_threshold_question info < comm_max_answer_time s")
  case True
  have "out_of_scale x \<Longrightarrow> \<exists>e. comm_set_threshold n t addr x s = (Throw e, s) \<and> is_invalid_argument e"
    by (simp add: comm_set_threshold_def)
  then show ?thesis
    using True assms(2,3) comm_set_threshold_recent [of x n addr s a host info t] by auto
next
  case False
  let ?s = "s\<lparr>logs := logs s @ [''Sent message set_threshold to: '' @ host],
    client := client_asked msg a key Callback_set_threshold (client s)\<rparr>"
  have sent: "comm_set_threshold n t addr x s = set_last_threshold_question (\<lambda>i. t (i + 1)) host ?s"
    using False assms(2-6) by (simp add: comm_set_threshold_sent)
  obtain s' info' where s': "set_last_threshold_question (\<lambda>i. t (i + 1)) host ?s = (Return (), s')"
      "client s' = client ?s" "sensor_port1 s' = sensor_port1 s" "comm_max_answer_time s' = comm_max_answer_time s"
      "om_find host (sensors s') = Some info'" "flag info'" "last_threshold_question info' = t 1"
    using set_last_threshold_question_found [of host ?s info "\<lambda>i. t (i + 1)"] assms(1,3)
    by (auto simp: comm_ok_def)
  have "comm_set_threshold n t' addr y s' = (Return (), s')"
    if "\<not> out_of_scale y" "t' 0 - t 1 < comm_max_answer_time s" for t' y
    using comm_set_threshold_recent [of y n addr s' a host info' t'] that s' assms(2) by simp
  then show ?thesis
    using False sent s' client_asked_pending [of "client s" key] assms(1)
    by (auto simp: comm_ok_def client_asked_def [of _ _ _ _ "client s"])
qed

theorem set_threshold_protocol_witness:
  "\<exists>s'. comm_set_threshold example_env (\<lambda>_. 100) ''::1'' (f32_of_int 40) example_comm = (Return (), s') \<and>
    sent (client s') = [(''set_threshold '' @ to_string_f32 (f32_of_int 40), loopback6 7000)]"
  using set_threshold_protocol [where s = example_comm and n = example_env and addr = "''::1''" and
      a = "loopback6 7000" and host = "''::1''" and info = new_SensorInfo and x = "f32_of_int 40" and
      key = "''::1 :'' @ show_nat (unat (7000 :: 16 word))" and t = "\<lambda>_. 100" and
      msg = "''set_threshold '' @ to_string_f32 (f32_of_int 40)"]
    f32_less_nat [of 40 0] f32_less_nat [of 100 40]
  by (auto simp: om_find_def new_SensorInfo_def out_of_scale_def new_UDPClient_def)

text \<open>
  C26: A datagram, whatever it contains and whoever sent it, changes at most the entry
  of the host it came from; it never adds or removes an entry.
\<close>

theorem receiver_step_frame:
  assumes "\<And>x. hostToString n addr = Inr x \<Longrightarrow> x = h"
  shows "om_keys (sensors (snd (receiver_step n addr data s))) = om_keys (sensors s) \<and>
    (\<forall>b. b \<noteq> h \<longrightarrow>
       om_find b (sensors (snd (receiver_step n addr data s))) = om_find b (sensors s))"
proof -
  have "only_entry h (sensors s) s" by (simp add: only_entry_def)
  then have "only_entry h (sensors s) (snd (receiver_step n addr data s))"
    using receiver_step_only_entry [where m = "sensors s" and data = data, OF assms]
    by (blast intro: keepsD)
  then show ?thesis by (simp add: only_entry_def)
qed

theorem receiver_step_frame_witness:
  "om_keys (sensors (snd (receiver_step example_env (loopback6 7000) ''threshold: 40'' example_comm))) = [''::1'']"
  using receiver_step_frame [where n = example_env and addr = "loopback6 7000" and h = "''::1''" and
      data = "''threshold: 40''" and s = example_comm]
  by (simp add: om_keys_def)


text \<open>
  A datagram from an address that has no question pending changes no entry of the
  sensor table, even that of its sender.
\<close>

lemma receiver_step_unexpected:
  assumes "toString n addr = Inr key" "om_find key (callbackMap (client s)) = None"
    and "defaultCallback (client s) = Some (Callback name)"
  shows "sensors (snd (receiver_step n addr data s)) = sensors s"
proof (cases "take 512 data = []")
  case False
  let ?msg = "take 512 data"
  have "on_client (handleReceiveAndCheckIfEnd n addr ?msg) s =
    (Return (if c_str ?msg = [] \<and> isLoopback n addr (sendPort (client s)) then End_thread
             else Run (Callback name)), s)"
    using assms
    by (simp add: on_client_def handleReceiveAndCheckIfEnd_def andthen_def Let_def)
  moreover have "sensors (snd (andthen (default_received n addr ?msg) (\<lambda>_. ret False) s)) = sensors s"
    using default_received_sensors [of n addr ?msg s]
    by (auto simp: andthen_def split: prod.split outcome.split)
  ultimately show ?thesis
    using False by (auto simp: receiver_step_def andthen_apply Let_def)
qed (simp add: receiver_step_def)

end
