(* ===== verification/ScriptExecutor.thy ===== *)
theory ScriptExecutor
  imports Communicator
begin

text \<open>
  \<open>ScriptExecutor\<close> of the central station and the \<open>config\<close> program that talks to
  it through two named pipes.  A command is a line of words; the executor calls
  the communicator and writes an answer.  What the pipes deliver in a round is
  the record \<open>fifo_round\<close>; the state adds to that of the communicator the answers
  written and whether the two pipes exist.
\<close>

section \<open>Commands\<close>

text \<open>Every call of the communicator is guarded: a \<open>std::logic_error\<close> becomes the answer.\<close>

definition answer_errors ::
  "('a Communicator_scheme, string) op \<Rightarrow> ('a Communicator_scheme, string) op" where
  "answer_errors m = try_catch m is_logic_error (\<lambda>error. ret (what error))"

definition script_add_sensor ::
  "'n net_scheme \<Rightarrow> clock \<Rightarrow> string list \<Rightarrow> ('a Communicator_scheme, string) op" where
  "script_add_sensor n t command =
     (case stof (command ! 2) of
        Inl e \<Rightarrow> ret ''Can't add sensor: valid format of threshold''
      | Inr threshold_value \<Rightarrow>
          answer_errors
            (andthen (comm_add_sensor n t (command ! 1) threshold_value) (\<lambda>_.
             ret (''Sensor '' @ command ! 1 @ '' added''))))"

definition script_erase_sensor ::
  "'n net_scheme \<Rightarrow> string list \<Rightarrow> ('a Communicator_scheme, string) op" where
  "script_erase_sensor n command =
     answer_errors
       (andthen (comm_erase_sensor n (command ! 1)) (\<lambda>_.
        ret (''Sensor '' @ command ! 1 @ '' erased'')))"

definition script_set_threshold ::
  "'n net_scheme \<Rightarrow> clock \<Rightarrow> string list \<Rightarrow> ('a Communicator_scheme, string) op" where
  "script_set_threshold n t command =
     (case stof (command ! 2) of
        Inl e \<Rightarrow> ret ''Can't add sensor: valid format of threshold''
      | Inr threshold_value \<Rightarrow>
          answer_errors
            (andthen (comm_set_threshold n t (command ! 1) threshold_value) (\<lambda>_. ret [])))"

definition sensor_line :: "string \<Rightarrow> SensorState \<Rightarrow> string" where
  "sensor_line addr state =
     ''Sensor: '' @ addr @ '' current_value: '' @ to_string_f32 (st_current_value state) @
     '' typical_value: '' @ to_string_f32 (st_typical_value state) @
     '' threshold: '' @ to_string_f32 (st_threshold state) @
     '' status: '' @ (if st_status state = NOCOMMUNICATION then ''no communication'' else ''correct'')"

definition script_get_sensor ::
  "'n net_scheme \<Rightarrow> clock \<Rightarrow> string list \<Rightarrow> ('a Communicator_scheme, string) op" where
  "script_get_sensor n t command =
     answer_errors
       (andthen (comm_get_sensor_state n t (command ! 1)) (\<lambda>state.
        ret (sensor_line (command ! 1) state)))"

definition script_ask_sensor ::
  "'n net_scheme \<Rightarrow> clock \<Rightarrow> string list \<Rightarrow> ('a Communicator_scheme, string) op" where
  "script_ask_sensor n t command =
     answer_errors (andthen (ask_for_values n t (command ! 1)) (\<lambda>_. ret []))"

definition execute_command ::
  "'n env_scheme \<Rightarrow> clock \<Rightarrow> string \<Rightarrow> ('a Communicator_scheme, string) op" where
  "execute_command n t msg =
     (let command = split n msg in
      if command ! 0 = ''add_sensor'' \<and> length command = 3 then script_add_sensor n t command
      else if command ! 0 = ''remove_sensor'' \<and> length command = 2 then script_erase_sensor n command
      else if command ! 0 = ''set_threshold'' \<and> length command = 3 then script_set_threshold n t command
      else if command ! 0 = ''get_sensor'' \<and> length command = 2 then script_get_sensor n t command
      else if command ! 0 = ''ask_sensor'' \<and> length command = 2 then script_ask_sensor n t command
      else ret ''invalid command'')"

section \<open>The pipes\<close>

definition BUFSIZ :: nat where
  "BUFSIZ = 8192"

text \<open>\<open>strncpy (buf, s.c_str (), sizeof buf); buf[sizeof buf - 1] = 0\<close>.\<close>

definition copy_to_buffer :: "nat \<Rightarrow> string \<Rightarrow> string" where
  "copy_to_buffer sz s =
     (let str = take sz (c_str s)
      in (str @ replicate (sz - length str) (CHR 0x00))[sz - 1 := CHR 0x00])"

record Executor = Communicator +
  fifo_in :: bool
  fifo_out :: bool
  fifo_answers :: "string list"

datatype mkfifo_result = Created | Eexist | Mkfifo_failed

record fifo_round =
  open_in :: bool
  open_out :: bool
  read_in :: "string option"
  write_out :: int

definition make_fifos :: "mkfifo_result \<Rightarrow> mkfifo_result \<Rightarrow> ('a Executor_scheme, unit) op" where
  "make_fifos r_in r_out =
     (if r_in = Mkfifo_failed then throw (Logic_error ''can't create fifo: central_in'')
      else andthen (change (\<lambda>s. s\<lparr>fifo_in := True\<rparr>)) (\<lambda>_.
        if r_out = Mkfifo_failed
        then andthen (change (\<lambda>s. s\<lparr>fifo_in := False\<rparr>))
               (\<lambda>_. throw (Logic_error ''can't create fifo: central_out''))
        else change (\<lambda>s. s\<lparr>fifo_out := True\<rparr>)))"

text \<open>
  One pass of the loop over the local buffer: \<open>None\<close> is the \<open>break\<close>, \<open>Some\<close> the
  buffer for the next pass.  A failed \<open>read\<close> leaves the buffer as it was; a
  buffer without a zero byte would be read past its end.
\<close>

definition execute_round ::
  "'n env_scheme \<Rightarrow> clock \<Rightarrow> fifo_round \<Rightarrow> string \<Rightarrow> ('a Executor_scheme, string option) op" where
  "execute_round n t r buf =
     (if \<not> open_in r then throw (Logic_error ''can't open fifo: central_in'')
      else if \<not> open_out r then throw (Logic_error ''can't open fifo: central_out'')
      else
        let buf = (case read_in r of None \<Rightarrow> buf
                   | Some data \<Rightarrow> take BUFSIZ data @ drop (length (take BUFSIZ data)) buf)
        in andthen (if read_in r = Some [] then log_msg ''Can't read the script message.'' else ret ()) (\<lambda>_.
           if CHR 0x00 \<notin> set buf then undefined_behaviour
           else if c_str buf = ''exit'' then
             andthen (log_msg ''Listening scripts OFF.'') (\<lambda>_. ret None)
           else if c_str buf \<noteq> [] then
             andthen (log_msg (''Script request: '' @ c_str buf)) (\<lambda>_.
             andthen (execute_command n t (c_str buf)) (\<lambda>return_msg.
             andthen (if write_out r < 0 then ret ()
                      else if write_out r = 0 then log_msg ''Can't write the script result.''
                      else change (\<lambda>s. s\<lparr>fifo_answers :=
                             fifo_answers s @ [copy_to_buffer BUFSIZ return_msg]\<rparr>)) (\<lambda>_.
             ret (Some (replicate BUFSIZ (CHR 0x00))))))
           else ret (Some (replicate BUFSIZ (CHR 0x00)))))"

text \<open>The loop over the rounds that arrive; \<open>False\<close> when it still waits for one.\<close>

fun execute_loop ::
  "'n env_scheme \<Rightarrow> (clock \<times> fifo_round) list \<Rightarrow> string \<Rightarrow> ('a Executor_scheme, bool) op" where
  "execute_loop n [] buf = ret False"
| "execute_loop n ((t, r) # rs) buf =
     andthen (execute_round n t r buf) (\<lambda>next.
       case next of
         None \<Rightarrow> andthen (change (\<lambda>s. s\<lparr>fifo_in := False, fifo_out := False\<rparr>)) (\<lambda>_. ret True)
       | Some buf' \<Rightarrow> execute_loop n rs buf')"

definition execute ::
  "'n env_scheme \<Rightarrow> mkfifo_result \<Rightarrow> mkfifo_result \<Rightarrow> (clock \<times> fifo_round) list \<Rightarrow> string \<Rightarrow>
   ('a Executor_scheme, bool) op" where
  "execute n r_in r_out rounds buf =
     andthen (make_fifos r_in r_out) (\<lambda>_.
     andthen (log_msg ''Listening for scripts - ON.'') (\<lambda>_.
     execute_loop n rounds buf))"

section \<open>The config program\<close>

text \<open>
  What \<open>main\<close> of the config program does with its arguments: print the usage (after
  the word it does not know) and exit with 1, or send a message.
\<close>

datatype config_action = Help "string option" | Send string

definition config_main :: "string list \<Rightarrow> config_action" where
  "config_main argv =
     (if length argv < 2 then Help None
      else if argv ! 1 = ''add_sensor'' \<and> length argv = 4
        then Send (argv ! 1 @ '' '' @ argv ! 2 @ '' '' @ argv ! 3)
      else if argv ! 1 = ''remove_sensor'' \<and> length argv = 3
        then Send (argv ! 1 @ '' '' @ argv ! 2)
      else if argv ! 1 = ''set_threshold'' \<and> length argv = 4
        then Send (argv ! 1 @ '' '' @ argv ! 2 @ '' '' @ argv ! 3)
      else if argv ! 1 = ''get_sensor'' \<and> length argv = 3
        then Send (argv ! 1 @ '' '' @ argv ! 2)
      else if argv ! 1 = ''ask_sensor'' \<and> length argv = 3
        then Send (argv ! 1 @ '' '' @ argv ! 2)
      else if argv ! 1 = ''exit'' \<and> length argv = 2 then Send (argv ! 1)
      else Help (Some (argv ! 1)))"

definition config_help :: "string \<Rightarrow> string" where
  "config_help program_name =
     [CHR 10] @ ''Usage: '' @ program_name @ '' [command] [arguments]'' @ [CHR 10, CHR 10] @
     ''Available commands:'' @ [CHR 10, CHR 10] @
     ''- add_sensor [sensor_address] [threshold] '' @ [CHR 10] @
     ''- remove_sensor [sensor_address] '' @ [CHR 10] @
     ''- set_threshold [sensor_address] [threshold]'' @ [CHR 10] @
     ''- get_sensor [sensor_address] '' @ [CHR 10] @
     ''- ask_sensor [sensor_address] '' @ [CHR 10] @
     ''- exit '' @ [CHR 10]"

text \<open>
  \<open>send\<close>: the bytes written to the pipe and, when an answer is read, the lines
  printed.  \<open>answer\<close> is what \<open>read\<close> stores, \<open>None\<close> when it fails.
\<close>

definition config_written :: "string \<Rightarrow> string" where
  "config_written msg = copy_to_buffer BUFSIZ msg"

definition config_send ::
  "bool \<Rightarrow> bool \<Rightarrow> int \<Rightarrow> string option \<Rightarrow> string \<Rightarrow> exn + string list" where
  "config_send opened_in opened_out n answer msg =
     (let str = config_written msg in
      if \<not> opened_in then Inl (Logic_error ''can't open fifo: central_in'')
      else if \<not> opened_out then Inl (Logic_error ''can't open fifo: central_out'')
      else Inr
        ((if n = 0 then [''Can't write the script message.''] else []) @
         (if msg \<noteq> ''exit'' then
            (if answer = Some [] then [''Can't read the script message.''] else []) @
            [c_str (case answer of None \<Rightarrow> str
                    | Some data \<Rightarrow> take BUFSIZ data @ drop (length (take BUFSIZ data)) str)]
          else [])))"

section \<open>Invariants of the executor\<close>

text \<open>
  What an invariant of a state with an executor has to allow beyond the updates of the
  communicator, for every command and every round to keep it.
\<close>

locale executor_frame = station_frame I for I :: "'a Executor_scheme \<Rightarrow> bool" +
  assumes frame_fifos: "I s \<Longrightarrow> I (s\<lparr>fifo_in := a\<rparr>)" "I s \<Longrightarrow> I (s\<lparr>fifo_out := b\<rparr>)"
    and frame_answers: "I s \<Longrightarrow> I (s\<lparr>fifo_answers := l\<rparr>)"
begin

lemma keeps_answer_errors: "keeps I m \<Longrightarrow> keeps I (answer_errors m)"
  unfolding answer_errors_def by (auto intro!: keeps_rules)

lemma keeps_execute_command: "keeps I (execute_command n t msg)"
  by (auto simp: execute_command_def Let_def script_add_sensor_def script_erase_sensor_def
      script_set_threshold_def script_get_sensor_def script_ask_sensor_def
      intro!: keeps_rules keeps_answer_errors keeps_comm_ops split: sum.split)

lemma keeps_fifos:
  "keeps I (change (\<lambda>s. s\<lparr>fifo_in := a\<rparr>))" "keeps I (change (\<lambda>s. s\<lparr>fifo_out := b\<rparr>))"
  "keeps I (change (\<lambda>s. s\<lparr>fifo_in := a, fifo_out := b\<rparr>))"
  "keeps I (change (\<lambda>s. s\<lparr>fifo_answers := f s\<rparr>))"
  by (simp_all add: keeps_def frame_fifos frame_answers)

lemma keeps_execute_round: "keeps I (execute_round n t r buf)"
  by (auto simp: execute_round_def Let_def intro!: keeps_rules keeps_fifos keeps_execute_command split: option.split)

lemma keeps_execute_loop: "keeps I (execute_loop n rounds buf)"
proof (induction n rounds buf rule: execute_loop.induct)
  case (2 n t r rs buf)
  then show ?case by (auto intro!: keeps_rules keeps_fifos keeps_execute_round split: option.split)
qed (simp add: keeps_def)

lemma keeps_execute: "keeps I (execute n r_in r_out rounds buf)"
  by (auto simp: execute_def make_fifos_def intro!: keeps_rules keeps_fifos keeps_execute_loop)

end

interpretation executor: executor_frame "comm_ok :: 'a Executor_scheme \<Rightarrow> bool"
  by unfold_locales (simp_all add: comm_ok_def)

section \<open>Buffers\<close>

lemma copy_to_buffer_eq:
  assumes "0 < sz"
  shows "copy_to_buffer sz s =
    take (sz - 1) (c_str s) @ CHR 0x00 # replicate (sz - 1 - length (c_str s)) (CHR 0x00)"
proof (cases "length (c_str s) < sz")
  case True
  then have "sz - length (c_str s) = Suc (sz - 1 - length (c_str s))" using assms by simp
  then have "(c_str s @ replicate (sz - length (c_str s)) (CHR 0x00))[sz - 1 := CHR 0x00] =
      c_str s @ replicate (sz - length (c_str s)) (CHR 0x00)"
    using True by (intro list_update_same_conv [THEN iffD2]) (auto simp: nth_append nth_Cons')
  with True show ?thesis
    by (simp add: copy_to_buffer_def Let_def replicate_Suc [symmetric] Suc_diff_Suc)
next
  case False
  then have "take sz (c_str s) = take (sz - 1) (c_str s) @ [c_str s ! (sz - 1)]"
    using assms take_Suc_conv_app_nth [of "sz - 1" "c_str s"] by simp
  with False assms show ?thesis
    by (simp add: copy_to_buffer_def Let_def list_update_append)
qed

lemma length_copy_to_buffer: "0 < sz \<Longrightarrow> length (copy_to_buffer sz s) = sz"
  by (simp add: copy_to_buffer_def)

lemma c_str_copy_to_buffer:
  assumes "0 < sz"
  shows "c_str (copy_to_buffer sz s) = take (sz - 1) (c_str s)"
  using assms c_str_no_nul [of s]
  by (auto simp: copy_to_buffer_eq intro!: c_str_append_nul dest: in_set_takeD)

lemma nul_copy_to_buffer: "0 < sz \<Longrightarrow> CHR 0x00 \<in> set (copy_to_buffer sz s)"
  by (simp add: copy_to_buffer_eq)

lemma BUFSIZ_pos [simp]: "0 < BUFSIZ"
  by (simp add: BUFSIZ_def)

section \<open>Dispatch\<close>

definition blank_free :: "string \<Rightarrow> bool" where
  "blank_free w \<longleftrightarrow> CHR '' '' \<notin> set w \<and> CHR 0x00 \<notin> set w"

lemma split_two:
  assumes "split_ok n" "blank_free a" "blank_free b"
  shows "split n (a @ '' '' @ b) = [a, b]"
  using assms by (simp add: split_ok_eq split_blank_cons split_blank_word blank_free_def)

lemma split_three:
  assumes "split_ok n" "blank_free a" "blank_free b" "blank_free c"
  shows "split n (a @ '' '' @ b @ '' '' @ c) = [a, b, c]"
  using assms by (simp add: split_ok_eq split_blank_cons split_blank_word blank_free_def)

text \<open>The handler of a list of words, the table that the dispatch implements.\<close>

fun handler ::
  "'n net_scheme \<Rightarrow> clock \<Rightarrow> string list \<Rightarrow> ('a Communicator_scheme, string) op option" where
  "handler n t [w, a] =
     (if w = ''remove_sensor'' then Some (script_erase_sensor n [w, a])
      else if w = ''get_sensor'' then Some (script_get_sensor n t [w, a])
      else if w = ''ask_sensor'' then Some (script_ask_sensor n t [w, a])
      else None)"
| "handler n t [w, a, x] =
     (if w = ''add_sensor'' then Some (script_add_sensor n t [w, a, x])
      else if w = ''set_threshold'' then Some (script_set_threshold n t [w, a, x])
      else None)"
| "handler n t _ = None"

lemma execute_command_handler:
  "execute_command n t msg =
     (case handler n t (split n msg) of None \<Rightarrow> ret ''invalid command'' | Some h \<Rightarrow> h)"
  by (cases "(n, t, split n msg)" rule: handler.cases)
     (auto simp: execute_command_def Let_def)

lemma config_main_words:
  assumes "config_main argv = Send msg" "msg \<noteq> ''exit''" "list_all blank_free (tl argv)" "split_ok n"
  shows "split n msg = tl argv" "handler n t (tl argv) \<noteq> None" "CHR 0x00 \<notin> set msg" "msg \<noteq> []"
proof -
  from assms(1,2) obtain a0 w b where
    "argv = [a0, w, b] \<and> w \<in> {''remove_sensor'', ''get_sensor'', ''ask_sensor''} \<and> msg = w @ '' '' @ b \<or>
     (\<exists>c. argv = [a0, w, b, c] \<and> w \<in> {''add_sensor'', ''set_threshold''} \<and>
        msg = w @ '' '' @ b @ '' '' @ c)"
    by (auto simp: config_main_def length_Suc_conv numeral_eq_Suc split: if_splits)
  with assms show "split n msg = tl argv" "handler n t (tl argv) \<noteq> None" "CHR 0x00 \<notin> set msg" "msg \<noteq> []"
    by (auto simp: split_ok_eq split_blank_word split_blank_cons blank_free_def)
qed

text \<open>No command makes the station throw an exception of the standard library.\<close>

lemma answer_errors_not_logic:
  "fst (answer_errors m s) = Throw e \<Longrightarrow> \<not> is_logic_error e"
  by (auto simp: answer_errors_def try_catch_def split: prod.splits outcome.splits if_splits)

lemma execute_command_not_logic:
  assumes "fst (execute_command n t msg s) = Throw e"
  shows "\<not> is_logic_error e"
  using assms
  by (auto simp: execute_command_def Let_def script_add_sensor_def script_erase_sensor_def
      script_set_threshold_def script_get_sensor_def script_ask_sensor_def
      split: if_splits sum.splits dest: answer_errors_not_logic)

section \<open>A message and its answer\<close>

lemma execute_round_answer:
  assumes "open_in r" "open_out r" "read_in r = Some data" "length data = BUFSIZ" "0 < write_out r"
    and "CHR 0x00 \<in> set data" "c_str data = msg" "msg \<notin> {[], ''exit''}"
    and "execute_command n t msg (s\<lparr>logs := logs s @ [''Script request: '' @ msg]\<rparr>) = (Return answer, s')"
    and "length buf = BUFSIZ"
  shows "execute_round n t r buf s =
    (Return (Some (replicate BUFSIZ (CHR 0x00))),
     s'\<lparr>fifo_answers := fifo_answers s' @ [copy_to_buffer BUFSIZ answer]\<rparr>)"
  using assms by (auto simp: execute_round_def Let_def andthen_def)

section \<open>Properties\<close>

text \<open>
  Every command line that the config program accepts, with arguments that have no
  blanks, is dispatched by the station to the handler of its first word, with the
  same words: none of them is answered with "invalid command" by the dispatcher.
\<close>

lemma config_command_dispatched:
  assumes "config_main argv = Send msg" "msg \<noteq> ''exit''" "list_all blank_free (tl argv)" "split_ok n"
  shows "\<exists>h :: ('a Communicator_scheme, string) op.
    handler n t (tl argv) = Some h \<and> execute_command n t msg = h \<and> split n msg = tl argv"
proof -
  obtain h :: "('a Communicator_scheme, string) op" where "handler n t (tl argv) = Some h"
    using config_main_words(2) [OF assms] by blast
  then show ?thesis using config_main_words(1) [OF assms] by (simp add: execute_command_handler)
qed

text \<open>
  C31: A message that the config program writes to the pipe is executed by the station
  as it was given, and the config program prints the station's answer unchanged,
  when both fit the buffers of \<open>BUFSIZ\<close> bytes.
\<close>

theorem script_answer_reaches_config:
  assumes "c_str msg = msg" "length msg < BUFSIZ" "msg \<notin> {[], ''exit''}" "length buf = BUFSIZ"
    and "open_in r" "open_out r" "read_in r = Some (config_written msg)" "0 < write_out r"
    and "execute_command n t msg (s\<lparr>logs := logs s @ [''Script request: '' @ msg]\<rparr>) = (Return answer, s')"
    and "c_str answer = answer" "length answer < BUFSIZ" "written \<noteq> 0"
  shows "\<exists>s'' reply. execute_round n t r buf s = (Return (Some (replicate BUFSIZ (CHR 0x00))), s'') \<and>
    fifo_answers s'' = fifo_answers s' @ [reply] \<and>
    config_send True True written (Some reply) msg = Inr [answer]"
proof -
  let ?reply = "copy_to_buffer BUFSIZ answer"
  have reads: "length (config_written msg) = BUFSIZ" "CHR 0x00 \<in> set (config_written msg)"
      "c_str (config_written msg) = msg"
    using assms(1,2)
    by (simp_all add: config_written_def length_copy_to_buffer nul_copy_to_buffer c_str_copy_to_buffer)
  have "execute_round n t r buf s =
      (Return (Some (replicate BUFSIZ (CHR 0x00))), s'\<lparr>fifo_answers := fifo_answers s' @ [?reply]\<rparr>)"
    using execute_round_answer [OF assms(5-7) reads(1) assms(8) reads(2,3) assms(3) assms(9,4)] .
  moreover have "c_str ?reply = answer" "?reply \<noteq> []"
    using assms(10,11) length_copy_to_buffer [of BUFSIZ answer] by (auto simp: c_str_copy_to_buffer)
  then have "config_send True True written (Some ?reply) msg = Inr [answer]"
    using assms(3,12) length_copy_to_buffer [of BUFSIZ answer]
    by (simp add: config_send_def config_written_def length_copy_to_buffer Let_def)
  ultimately show ?thesis by (intro exI conjI) (auto intro: exI)
qed

definition example_executor :: Executor where
  "example_executor = Communicator.extend example_comm
     \<lparr>fifo_in = True, fifo_out = True, fifo_answers = []\<rparr>"

theorem script_answer_reaches_config_witness:
  "\<exists>s'' reply. execute_round example_env (\<lambda>_. 0) \<lparr>open_in = True, open_out = True,
      read_in = Some (config_written ''hello''), write_out = 9\<rparr> (replicate BUFSIZ (CHR 0x00)) example_executor =
      (Return (Some (replicate BUFSIZ (CHR 0x00))), s'') \<and> fifo_answers s'' = [reply] \<and>
    config_send True True 9 (Some reply) ''hello'' = Inr [''invalid command'']"
  using script_answer_reaches_config [where msg = "''hello''" and buf = "replicate BUFSIZ (CHR 0x00)" and
      r = "\<lparr>open_in = True, open_out = True, read_in = Some (config_written ''hello''), write_out = 9\<rparr>" and
      n = example_env and t = "\<lambda>_. 0" and s = example_executor and answer = "''invalid command''" and written = 9 and
      s' = "example_executor\<lparr>logs := logs example_executor @ [''Script request: hello'']\<rparr>"]
  by (simp add: execute_command_def Let_def c_str_def BUFSIZ_def example_executor_def Communicator.defs)

text \<open>
  C37: A command never lets a \<open>std::logic_error\<close> escape: whatever it throws is an
  exception that the thread's handler for \<open>std::logic_error\<close> does not catch.
  The witness is a command on a station whose \<open>sendto\<close> fails: the exception ends
  the command loop and the program.
\<close>

theorem command_exception_escapes:
  assumes "fst (execute_command n t msg s) = Throw e"
  shows "\<not> is_logic_error e"
  using assms by (rule execute_command_not_logic)

theorem command_exception_escapes_witness:
  "\<exists>e. fst (execute_command (example_env\<lparr>sendto := \<lambda>_ _. - 1\<rparr>) (\<lambda>_. 100) ''ask_sensor ::1'' example_comm) =
     Throw e \<and> \<not> is_logic_error e"
proof -
  let ?n = "example_env\<lparr>sendto := \<lambda>_ _. - 1\<rparr>"
  have "resolve ?n ''::1'' ''7001'' s = (Return (loopback6 7001, ''::1''), s)" for s :: Communicator
    by (simp add: example_env_def net.defs example_net_def loopback6_def
      hostToString_def starts_with_def resolve_def
      Address_host_def AddressInfo_def try_catch_def andthen_def c_str_def)
  moreover have "toString ?n (loopback6 7001) = Inr (''::1 :'' @ show_nat 7001)"
    by (simp add: example_env_def net.defs example_net_def loopback6_def
      hostToString_def starts_with_def toString_def portToString_def getPort_def)
  ultimately have "\<exists>e. fst (execute_command ?n (\<lambda>_. 100) ''ask_sensor ::1'' example_comm) = Throw e"
    by (simp add: execute_command_def Let_def script_ask_sensor_def answer_errors_def ask_for_values_def
      try_catch_def andthen_def asked_recently_def get_last_value_question_def find_sensor_def om_find_def
      new_SensorInfo_def on_client_def sendAndSaveCallback_def client_send_def)
  then show ?thesis using command_exception_escapes by blast
qed

end
