(* ===== verification/SessionList.thy ===== *)
theory SessionList
  imports Float32 Store
begin

text \<open>
  \<open>SessionList\<close> of the central station: the set of the identifiers of the open
  web sessions (\<open>std::set<std::string>\<close>, an ordered map to \<open>unit\<close>) and the
  generator of identifiers, which draws sixteen digits with \<open>rand()\<close>; the values
  of \<open>rand\<close> are the argument \<open>rnd\<close>.
\<close>

record SessionList =
  sessions :: "(string, unit) omap"

definition add_session :: "string \<Rightarrow> ('a SessionList_scheme, unit) op" where
  "add_session session_id = change (\<lambda>s. s\<lparr>sessions := om_emplace session_id () (sessions s)\<rparr>)"

definition erase_session :: "string \<Rightarrow> ('a SessionList_scheme, unit) op" where
  "erase_session session_id = (\<lambda>s.
     let i = (case om_find session_id (sessions s) of None \<Rightarrow> 0 | Some _ \<Rightarrow> (1::int));
         s' = s\<lparr>sessions := om_erase session_id (sessions s)\<rparr>
     in if i = 0
        then (Throw (Invalid_argument (''session with ID'' @ session_id @ ''doesn't exist'')), s')
        else (Return (), s'))"

definition exists_session :: "string \<Rightarrow> ('a SessionList_scheme, bool) op" where
  "exists_session session_id = (\<lambda>s. case om_find session_id (sessions s) of
      None \<Rightarrow> (Throw (Invalid_argument ''Session does nnot exist!''), s)
    | Some _ \<Rightarrow> (Return True, s))"

definition randchar :: "nat \<Rightarrow> char" where
  "randchar r = (let charset = ''0123456789''; max_index = length charset
                 in charset ! (r mod max_index))"

definition generate_session_id :: "(nat \<Rightarrow> nat) \<Rightarrow> string" where
  "generate_session_id rnd = map (\<lambda>i. randchar (rnd i)) [0..<16]"

section \<open>The set of sessions\<close>

definition has_session :: "'a SessionList_scheme \<Rightarrow> string \<Rightarrow> bool" where
  "has_session s a \<longleftrightarrow> om_find a (sessions s) \<noteq> None"

definition sessions_ok :: "'a SessionList_scheme \<Rightarrow> bool" where
  "sessions_ok s \<longleftrightarrow> ordered (sessions s)"

lemma add_session_apply [simp]:
  "add_session a s = (Return (), s\<lparr>sessions := om_emplace a () (sessions s)\<rparr>)"
  by (simp add: add_session_def)

lemma erase_session_apply:
  "erase_session a s =
     (if has_session s a then (Return (), s\<lparr>sessions := om_erase a (sessions s)\<rparr>)
      else (Throw (Invalid_argument (''session with ID'' @ a @ ''doesn't exist'')), s))"
  by (auto simp: erase_session_def has_session_def Let_def om_erase_absent split: option.splits)

lemma exists_session_apply:
  "exists_session a s =
     (if has_session s a then Return True else Throw (Invalid_argument ''Session does nnot exist!''), s)"
  by (auto simp: exists_session_def has_session_def split: option.splits)

interpretation session_store: keyed_store has_session add_session erase_session sessions_ok
  by unfold_locales
     (auto simp: has_session_def sessions_ok_def erase_session_apply omap_simps)

section \<open>Session identifiers\<close>

lemma randchar_digit: "is_digit (randchar r)"
  using is_digit_digit_char [of "r mod 10"] by (simp add: randchar_def digit_char_def)

lemma generate_session_id_shape:
  "length (generate_session_id rnd) = 16" "list_all is_digit (generate_session_id rnd)"
  by (simp_all add: generate_session_id_def list_all_iff randchar_digit)

end
