(* ===== verification/WebServer.thy ===== *)
theory WebServer
  imports HttpServer ScriptExecutor SessionList
begin

text \<open>
  \<open>WebServer\<close> of the central station: the handlers of the REST interface and of the
  static files, as the lambdas that its constructor puts into the tables of the
  server.  The state adds to that of the station the open sessions and the text
  written to the response.  The environment adds the order in which an unordered
  map is visited, the JSON reader and the file system.
\<close>

section \<open>State and environment\<close>

text \<open>
  \<open>read_json\<close> gives the top-level texts of the tree or throws; \<open>canonical_root\<close> is
  \<open>canonical ("../static")\<close> as the list of its elements, \<open>canonical_under\<close> the same for
  a path below it; \<open>read_file\<close> is the content of a file that can be opened.
\<close>

record web_env = env +
  iter :: "fields \<Rightarrow> fields"
  read_json :: "string \<Rightarrow> exn + (string \<Rightarrow> string option)"
  canonical_root :: "exn + string list"
  canonical_under :: "string \<Rightarrow> exn + string list"
  is_directory :: "string list \<Rightarrow> bool"
  read_file :: "string list \<Rightarrow> string option"

record Web = Executor +
  session_list :: SessionList
  response :: string

record Request = RequestHead +
  content :: string

definition on_sessions :: "(SessionList, 'r) op \<Rightarrow> ('a Web_scheme, 'r) op" where
  "on_sessions m = (\<lambda>s. case m (session_list s) of (r, c) \<Rightarrow> (r, s\<lparr>session_list := c\<rparr>))"

definition respond :: "string \<Rightarrow> ('a Web_scheme, unit) op" where
  "respond txt = change (\<lambda>s. s\<lparr>response := response s @ txt\<rparr>)"

section \<open>Sessions\<close>

text \<open>\<open>stream >> word\<close> on a stream that holds one text.\<close>

definition first_word :: "string \<Rightarrow> string" where
  "first_word s = takeWhile (\<lambda>c. \<not> is_space c) (dropWhile is_space s)"

text \<open>The identifier in the cookie; without one the end iterator is dereferenced.\<close>

definition session_cookie :: "'n web_env_scheme \<Rightarrow> string \<Rightarrow> ('s, string) op" where
  "session_cookie n cookie_header =
     (case mm_find (iter n) ''sessionId'' (cookie_parse (first_word cookie_header)) of
        None \<Rightarrow> undefined_behaviour
      | Some v \<Rightarrow> ret v)"

definition validateSession :: "'n web_env_scheme \<Rightarrow> fields \<Rightarrow> ('a Web_scheme, unit) op" where
  "validateSession n header =
     (case mm_find (iter n) ''Cookie'' header of
        None \<Rightarrow> throw (Invalid_argument ''No session cookie!'')
      | Some v \<Rightarrow>
          andthen (session_cookie n v) (\<lambda>sessionId.
          andthen (on_sessions (exists_session sessionId)) (\<lambda>exists.
          if exists then log_msg (''session found - '' @ sessionId) else ret ())))"

section \<open>Handlers\<close>

text \<open>
  \<open>query.at (key)\<close> after the fields were emplaced into an \<open>unordered_map\<close>: the first
  of several fields with the same name, in the order of the visit.
\<close>

definition query_at :: "'n web_env_scheme \<Rightarrow> string \<Rightarrow> 'r RequestHead_scheme \<Rightarrow> exn + string" where
  "query_at n key request =
     (case find (\<lambda>f. fst f = key) (iter n (query_parse (req_query_string request))) of
        None \<Rightarrow> Inl (Out_of_range ''_Map_base::at'')
      | Some f \<Rightarrow> Inr (snd f))"

text \<open>\<open>HttpHeader::parse\<close> on a text; not returning is undefined behaviour of the handler.\<close>

definition headers_of :: "string \<Rightarrow> ('s, fields) op" where
  "headers_of txt = (case header_parse (txt, True) of
      None \<Rightarrow> undefined_behaviour
    | Some (hdr, _) \<Rightarrow> ret hdr)"

fun sensor_array :: "(string \<times> SensorState) list \<Rightarrow> string" where
  "sensor_array [] = []"
| "sensor_array [(a, st)] = toJSONString (new_Sensor a st)"
| "sensor_array ((a, st) # rest) = toJSONString (new_Sensor a st) @ '','' @ sensor_array rest"

definition handle_list :: "'n web_env_scheme \<Rightarrow> clock \<Rightarrow> Request \<Rightarrow> ('a Web_scheme, unit) op" where
  "handle_list n t request =
     try_catch
       (andthen (validateSession n (req_header request)) (\<lambda>_.
        andthen (get_sensor_list t) (\<lambda>sensors.
        andthen (headers_of (''Content-Type: application/json;'' @ [CHR 10])) (\<lambda>header.
        andthen (respond (write_content (iter n) success_ok (''['' @ sensor_array sensors @ '']'') header)) (\<lambda>_.
        log_msg ''Return list of sensors'')))))
       is_invalid_argument (\<lambda>_. respond (write_status (iter n) client_error_forbidden []))"

text \<open>What the handlers do with a \<open>std::logic_error\<close>.\<close>

definition or_bad_request ::
  "'n web_env_scheme \<Rightarrow> ('a Web_scheme, unit) op \<Rightarrow> ('a Web_scheme, unit) op" where
  "or_bad_request n m =
     try_catch m is_logic_error
       (\<lambda>e. respond (write_content (iter n) client_error_bad_request (what e) []))"

definition handle_refresh :: "'n web_env_scheme \<Rightarrow> clock \<Rightarrow> Request \<Rightarrow> ('a Web_scheme, unit) op" where
  "handle_refresh n t request =
     or_bad_request n
       (andthen (or_throw (query_at n ''address'' request)) (\<lambda>address.
        andthen (ask_for_values n t address) (\<lambda>_.
        andthen (respond (write_content (iter n) success_ok [] [])) (\<lambda>_.
        andthen (log_msg (''Sensor refresh requested - '' @ address)) (\<lambda>_.
        andthen (respond (write_status (iter n) success_accepted [])) (\<lambda>_.
        log_msg (''Refresh status at '' @ address)))))))"

text \<open>
  The session check of the handlers that change the sensor table: they answer 403
  but go on.
\<close>

definition check_session :: "'n web_env_scheme \<Rightarrow> Request \<Rightarrow> ('a Web_scheme, unit) op" where
  "check_session n request =
     try_catch (validateSession n (req_header request)) any_exception
       (\<lambda>e. respond (write_content (iter n) client_error_forbidden (what e) []))"

definition handle_add :: "'n web_env_scheme \<Rightarrow> clock \<Rightarrow> Request \<Rightarrow> ('a Web_scheme, unit) op" where
  "handle_add n t request =
     andthen (check_session n request) (\<lambda>_.
     or_bad_request n
       (andthen (or_throw (query_at n ''address'' request)) (\<lambda>address.
        andthen (or_throw (query_at n ''threshold'' request)) (\<lambda>txt.
        andthen (or_throw (stof txt)) (\<lambda>x.
        andthen (comm_add_sensor n t address x) (\<lambda>_.
        andthen (respond (write_content (iter n) success_created [] [])) (\<lambda>_.
        log_msg (''Sensor added - '' @ address @ '' with threshold: '' @ to_string_f32 x))))))))"

definition handle_modify :: "'n web_env_scheme \<Rightarrow> clock \<Rightarrow> Request \<Rightarrow> ('a Web_scheme, unit) op" where
  "handle_modify n t request =
     andthen (check_session n request) (\<lambda>_.
     or_bad_request n
       (andthen (or_throw (query_at n ''address'' request)) (\<lambda>address.
        andthen (or_throw (query_at n ''threshold'' request)) (\<lambda>txt.
        andthen (or_throw (stof txt)) (\<lambda>x.
        andthen (comm_set_threshold n t address x) (\<lambda>_.
        andthen (respond (write_status (iter n) success_accepted [])) (\<lambda>_.
        log_msg (''Sensor modified - '' @ address @ '' with threshold: '' @ to_string_f32 x))))))))"

definition handle_delete :: "'n web_env_scheme \<Rightarrow> Request \<Rightarrow> ('a Web_scheme, unit) op" where
  "handle_delete n request =
     andthen (check_session n request) (\<lambda>_.
     or_bad_request n
       (andthen (or_throw (query_at n ''address'' request)) (\<lambda>address.
        andthen (comm_erase_sensor n address) (\<lambda>_.
        andthen (respond (write_status (iter n) success_no_content [])) (\<lambda>_.
        log_msg (''Sensor erased - '' @ address))))))"

definition or_bad_argument ::
  "'n web_env_scheme \<Rightarrow> ('a Web_scheme, unit) op \<Rightarrow> ('a Web_scheme, unit) op" where
  "or_bad_argument n m =
     try_catch m is_invalid_argument
       (\<lambda>e. respond (write_content (iter n) client_error_bad_request (what e) []))"

definition login_header :: "string \<Rightarrow> string" where
  "login_header sessionId =
     ''Set-Cookie: sessionId='' @ sessionId @ ''; Max-Age=36000'' @ [CHR 10] @
     ''Content-Type: text/plain'' @ [CHR 10]"

definition handle_login :: "'n web_env_scheme \<Rightarrow> (nat \<Rightarrow> nat) \<Rightarrow> Request \<Rightarrow> ('a Web_scheme, unit) op" where
  "handle_login n rnd request =
     or_bad_argument n
       (andthen (or_throw (read_json n (content request))) (\<lambda>pt.
        let sessionId = generate_session_id rnd in
        andthen (on_sessions (add_session sessionId)) (\<lambda>_.
        andthen (headers_of (login_header sessionId)) (\<lambda>header.
        andthen (respond (write_content (iter n) success_ok [] header)) (\<lambda>_.
        case pt ''username'' of
          None \<Rightarrow> throw (Runtime_error ''No such node (username)'')
        | Some username \<Rightarrow>
            log_msg (''User login - '' @ username @ ''; session: '' @ sessionId))))))"

definition handle_logout :: "'n web_env_scheme \<Rightarrow> Request \<Rightarrow> ('a Web_scheme, unit) op" where
  "handle_logout n request =
     or_bad_argument n
       (case mm_find (iter n) ''Cookie'' (req_header request) of
          None \<Rightarrow> undefined_behaviour
        | Some v \<Rightarrow>
            andthen (session_cookie n v) (\<lambda>sessionId.
            andthen (on_sessions (erase_session sessionId)) (\<lambda>_.
            andthen (respond (write_status (iter n) success_ok [])) (\<lambda>_.
            log_msg (''Session logout - '' @ sessionId)))))"

section \<open>Static files\<close>

text \<open>
  \<open>FileServer::read_and_send\<close>: a chunk is written, and when it was a full one the next
  is read after it has been sent; \<open>sends\<close> says how the sends end.  The result is all that the
  blocks put on the connection, one after the other.
\<close>

fun read_and_send :: "nat \<Rightarrow> bool list \<Rightarrow> string \<Rightarrow> string" where
  "read_and_send sz [] file = take sz file"
| "read_and_send sz (ok # sends) file =
     (let buffer = take sz file in
      if buffer = [] then []
      else buffer @ (if length buffer = sz \<and> ok then read_and_send sz sends (drop sz file) else []))"

definition file_buffer :: nat where
  "file_buffer = 131072"

definition checked_path :: "'n web_env_scheme \<Rightarrow> string \<Rightarrow> exn + string list" where
  "checked_path n request_path =
     (case canonical_root n of
        Inl e \<Rightarrow> Inl e
      | Inr web_root_path \<Rightarrow>
         (case canonical_under n request_path of
            Inl e \<Rightarrow> Inl e
          | Inr path \<Rightarrow>
              if length path < length web_root_path \<or>
                 take (length web_root_path) path \<noteq> web_root_path
              then Inl (Invalid_argument ''path must be within root path'')
              else Inr (if is_directory n path then path @ [''index.html''] else path)))"

definition handle_default :: "'n web_env_scheme \<Rightarrow> bool list \<Rightarrow> Request \<Rightarrow> ('a Web_scheme, unit) op" where
  "handle_default n sends request =
     try_catch
       (andthen (or_throw (checked_path n (req_path request))) (\<lambda>path.
        case read_file n path of
          None \<Rightarrow> throw (Invalid_argument ''could not read file'')
        | Some file \<Rightarrow>
            andthen (respond (write_fields (iter n) [(''Content-Length'', show_nat (length file))])) (\<lambda>_.
            respond (read_and_send file_buffer sends file))))
       any_exception
       (\<lambda>e. respond (write_content (iter n) client_error_bad_request
          (''Could not open path '' @ req_path request @ '': '' @ what e) []))"

section \<open>The tables of the constructor\<close>

datatype route = R_list | R_refresh | R_add | R_modify | R_delete | R_login | R_logout | R_default

definition resource :: "route resources" where
  "resource =
     add_resource ''^/RoSA/logout$'' ''POST'' R_logout
       (add_resource ''^/RoSA/login$'' ''POST'' R_login
       (add_resource ''^/RoSA/sensor$'' ''DELETE'' R_delete
       (add_resource ''^/RoSA/sensor/modify$'' ''POST'' R_modify
       (add_resource ''^/RoSA/sensor/add$'' ''POST'' R_add
       (add_resource ''^/RoSA/sensor/refresh$'' ''GET'' R_refresh
       (add_resource ''^/RoSA/sensor$'' ''GET'' R_list []))))))"

definition default_resource :: "(string, route) omap" where
  "default_resource = [(''GET'', R_default)]"

fun run_route ::
  "'n web_env_scheme \<Rightarrow> clock \<Rightarrow> (nat \<Rightarrow> nat) \<Rightarrow> bool list \<Rightarrow> route \<Rightarrow> Request \<Rightarrow> ('a Web_scheme, unit) op" where
  "run_route n t rnd sends R_list r = handle_list n t r"
| "run_route n t rnd sends R_refresh r = handle_refresh n t r"
| "run_route n t rnd sends R_add r = handle_add n t r"
| "run_route n t rnd sends R_modify r = handle_modify n t r"
| "run_route n t rnd sends R_delete r = handle_delete n r"
| "run_route n t rnd sends R_login r = handle_login n rnd r"
| "run_route n t rnd sends R_logout r = handle_logout n r"
| "run_route n t rnd sends R_default r = handle_default n sends r"

text \<open>
  \<open>ServerBase::write\<close> with the handler found for a request: an exception that leaves
  the handler is swallowed (\<open>on_error\<close> is not set) and what was written so far is
  sent.  \<open>None\<close>: no handler, and no response.
\<close>

definition serve ::
  "'n web_env_scheme \<Rightarrow> clock \<Rightarrow> (nat \<Rightarrow> nat) \<Rightarrow> bool list \<Rightarrow> Request \<Rightarrow> ('a Web_scheme, string option) op" where
  "serve n t rnd sends r =
     (case find_resource resource default_resource (RequestHead.truncate r) of
        None \<Rightarrow> ret None
      | Some route \<Rightarrow>
          andthen (change (\<lambda>s. s\<lparr>response := []\<rparr>)) (\<lambda>_.
          andthen (try_catch (run_route n t rnd sends route r) any_exception (\<lambda>_. ret ())) (\<lambda>_.
          reads (\<lambda>s. Some (response s)))))"

section \<open>Invariant\<close>

definition web_ok :: "'a Web_scheme \<Rightarrow> bool" where
  "web_ok s \<longleftrightarrow> comm_ok s \<and> sessions_ok (session_list s)"

lemma keeps_sessions:
  "keeps sessions_ok (add_session a)" "keeps sessions_ok (erase_session a)" "keeps sessions_ok (exists_session a)"
  using session_store.add_invar session_store.remove_invar
  by (auto intro!: keepsI simp: exists_session_apply)

lemma keeps_cookie: "keeps I (session_cookie n v)" "keeps I (headers_of txt)"
  by (auto simp: session_cookie_def headers_of_def split: option.split)

text \<open>
  What an invariant of the state of the web server has to allow for every handler to keep
  it: the updates of the executor, of the sessions and of the response.
\<close>

locale web_frame = executor_frame I for I :: "'a Web_scheme \<Rightarrow> bool" +
  assumes frame_web: "I s \<Longrightarrow> sessions_ok (session_list s)"
    and frame_sessions: "I s \<Longrightarrow> sessions_ok l \<Longrightarrow> I (s\<lparr>session_list := l\<rparr>)"
    and frame_response: "I s \<Longrightarrow> I (s\<lparr>response := r\<rparr>)"
begin

lemma keeps_on_sessions: "keeps sessions_ok m \<Longrightarrow> keeps I (on_sessions m)"
  using frame_web frame_sessions by (force simp: keeps_def on_sessions_def split: prod.split)

lemma keeps_respond: "keeps I (respond str)" "keeps I (change (\<lambda>s. s\<lparr>response := r\<rparr>))"
  by (simp_all add: keeps_def respond_def frame_response)

lemmas web_rules = keeps_rules keeps_comm_ops keeps_on_sessions keeps_sessions keeps_respond keeps_cookie

lemma keeps_validateSession: "keeps I (validateSession n header)"
  unfolding validateSession_def by (auto intro!: web_rules split: option.split)

lemma keeps_check_session: "keeps I (check_session n request)"
  unfolding check_session_def by (auto intro!: web_rules keeps_validateSession)

lemma keeps_route: "keeps I (run_route n t rnd sends route request)"
  by (cases route)
     (auto simp: handle_list_def handle_refresh_def handle_add_def handle_modify_def handle_delete_def
        handle_login_def handle_logout_def handle_default_def or_bad_request_def or_bad_argument_def Let_def
        intro!: web_rules keeps_validateSession keeps_check_session split: option.split)

lemma keeps_serve: "keeps I (serve n t rnd sends request)"
  unfolding serve_def by (auto intro!: web_rules keeps_route split: option.split)

end

interpretation web: web_frame web_ok
  by unfold_locales (simp_all add: web_ok_def comm_ok_def client_ok_def)

section \<open>Sessions\<close>

lemma respond_apply [simp]: "respond txt s = (Return (), s\<lparr>response := response s @ txt\<rparr>)"
  by (simp add: respond_def)

lemma digits_no_space: "list_all is_digit w \<Longrightarrow> list_all (\<lambda>c. \<not> is_space c) w"
  by (auto simp: list_all_iff digit_facts)

lemma first_word_id: "list_all (\<lambda>c. \<not> is_space c) w \<Longrightarrow> first_word w = w"
  by (cases w) (auto simp: first_word_def list_all_iff takeWhile_eq_all_conv)

lemma not_in_digits: "list_all is_digit w \<Longrightarrow> \<not> is_digit c \<Longrightarrow> c \<notin> set w"
  by (auto simp: list_all_iff)

definition cookie_of :: "string \<Rightarrow> string" where
  "cookie_of sessionId = ''sessionId='' @ sessionId"

lemma session_cookie_digits:
  assumes "legal_order (iter n)" "list_all is_digit sid" "sid \<noteq> []"
  shows "session_cookie n (cookie_of sid) = ret sid"
proof -
  have "first_word (cookie_of sid) = cookie_of sid"
    using digits_no_space [OF assms(2)]
    by (intro first_word_id) (simp add: cookie_of_def is_space_def)
  moreover have "cookie_parse (cookie_of sid) = [(''sessionId'', percent_decode sid)]"
    using cookie_single [of "''sessionId''" sid] not_in_digits [OF assms(2)] assms(3)
    by (simp add: cookie_of_def is_digit_def)
  moreover have "percent_decode sid = sid"
    using assms(2) by (intro percent_decode_plain) (auto simp: list_all_iff is_digit_def)
  ultimately show ?thesis
    using assms(1) by (simp add: session_cookie_def mm_find_single case_insensitive_equal_map)
qed

text \<open>The check of a request whose cookie carries an identifier.\<close>

lemma validateSession_cookie:
  assumes "legal_order (iter n)" "list_all is_digit sid" "sid \<noteq> []"
    and "mm_find (iter n) ''Cookie'' header = Some (cookie_of sid)"
  shows "validateSession n header s =
    (if has_session (session_list s) sid
     then (Return (), s\<lparr>logs := logs s @ [''session found - '' @ sid]\<rparr>)
     else (Throw (Invalid_argument ''Session does nnot exist!''), s))"
  using assms
  by (simp add: validateSession_def session_cookie_digits andthen_def on_sessions_def exists_session_apply)

lemma headers_of_list: "headers_of (''Content-Type: application/json;'' @ [CHR 10]) = ret [(''Content-Type'', ''application/json'')]"
proof -
  have "header_text [(''Content-Type'', ''application/json'')] =
    ''Content-Type: application/json'' @ [CHR 13, CHR 10]"
    by (simp add: header_text_def header_line_def)
  show ?thesis
    by (simp add: headers_of_def header_parse_def getline_def header_loop.simps header_field_def
        value_start.simps substr_def)
qed

text \<open>
  What the login sends: the text has no carriage returns, of which the parser drops
  one character per line, so the last character of each field is lost.
\<close>

definition login_fields :: "string \<Rightarrow> fields" where
  "login_fields sid = [(''Set-Cookie'', ''sessionId='' @ sid @ ''; Max-Age=3600''), (''Content-Type'', ''text/plai'')]"

lemma value_start_here: "line ! i \<noteq> CHR '' '' \<Longrightarrow> value_start line i = i"
  by (simp add: value_start.simps)

lemma header_field_value:
  assumes "p = length k" "v \<noteq> []" "hd v \<noteq> CHR '' ''"
  shows "header_field (k @ '': '' @ v) p = [(k, butlast v)]"
proof -
  let ?l = "k @ '': '' @ v"
  have n: "?l ! (length k + 1) = CHR '' ''" "?l ! (length k + 2) = hd v" "length k + 2 < length ?l"
    using assms(2) by (auto simp: nth_append hd_conv_nth)
  have "value_start ?l (length k + 1) = value_start ?l (length k + 2)"
    using n by (subst value_start.simps) simp
  also have "\<dots> = length k + 2" using n assms(3) by (intro value_start_here) simp
  finally show ?thesis
    using n assms(1) by (simp add: header_field_def substr_def butlast_conv_take)
qed

lemma login_headers:
  assumes "list_all is_digit sid"
  shows "headers_of (login_header sid) = ret (login_fields sid)"
proof -
  let ?v1 = "''sessionId='' @ sid @ ''; Max-Age=36000''"
  let ?l1 = "''Set-Cookie: '' @ ?v1" and ?l2 = "''Content-Type: text/plain''"
  have nl: "CHR 10 \<notin> set ?l1" using not_in_digits [OF assms, of "CHR 10"] by (simp add: is_digit_def)
  have g1: "getline [] (login_header sid, True) = (?l1, (?l2 @ [CHR 10], True))"
    using getline_line [OF nl, of "[]" "?l2 @ [CHR 10]"] by (simp add: login_header_def)
  have g2: "getline ?l1 (?l2 @ [CHR 10], True) = (?l2, ([], True))"
    using getline_line [of ?l2 ?l1 "[]"] by simp
  have g3: "getline ?l2 ([], True) = ([], ([], False))" by (simp add: getline_def)
  have f1: "find_char (CHR '':'') ?l1 = Some 10" and f2: "find_char (CHR '':'') ?l2 = Some 12" by simp_all
  have h1: "header_field ?l1 10 = [(''Set-Cookie'', ''sessionId='' @ sid @ ''; Max-Age=3600'')]"
    using header_field_value [of 10 "''Set-Cookie''" ?v1] by (simp add: butlast_append)
  have h2: "header_field ?l2 12 = [(''Content-Type'', ''text/plai'')]"
    using header_field_value [of 12 "''Content-Type''" "''text/plain''"] by simp
  have "header_loop ?l1 (?l2 @ [CHR 10], True) [] = Some (login_fields sid, ([], False))"
    by (subst header_loop.simps, subst f1)
       (simp only: option.case g2 prod.case h1, subst header_loop.simps, subst f2,
        simp only: option.case g3 prod.case h2, simp add: header_loop.simps login_fields_def)
  then show ?thesis by (simp add: headers_of_def header_parse_def g1)
qed

text \<open>A login with a readable user name, and a logout from an open session.\<close>

lemma handle_login_done:
  assumes "read_json n (content login) = Inr pt" "pt ''username'' = Some user"
  shows "\<exists>s1. handle_login n rnd login s = (Return (), s1) \<and>
    session_list s1 = (session_list s)\<lparr>sessions := om_emplace (generate_session_id rnd) () (sessions (session_list s))\<rparr> \<and>
    sensors s1 = sensors s \<and> max_answer_time s1 = max_answer_time s \<and>
    response s1 = response s @ write_content (iter n) success_ok [] (login_fields (generate_session_id rnd))"
  using assms
  by (simp add: handle_login_def or_bad_argument_def try_catch_def andthen_def on_sessions_def Let_def
      login_headers [OF generate_session_id_shape(2)])

lemma handle_logout_done:
  assumes "legal_order (iter n)" "list_all is_digit sid" "sid \<noteq> []"
    and "mm_find (iter n) ''Cookie'' (req_header r) = Some (cookie_of sid)" "has_session (session_list s) sid"
  shows "\<exists>s2. handle_logout n r s = (Return (), s2) \<and>
    session_list s2 = (session_list s)\<lparr>sessions := om_erase sid (sessions (session_list s))\<rparr> \<and>
    sensors s2 = sensors s \<and> max_answer_time s2 = max_answer_time s \<and>
    response s2 = response s @ write_status (iter n) success_ok []"
  using assms
  by (simp add: handle_logout_def or_bad_argument_def try_catch_def andthen_def on_sessions_def erase_session_apply
      session_cookie_digits)

section \<open>A concrete instance\<close>

definition example_web_env :: web_env where
  "example_web_env = env.extend example_env
     \<lparr>iter = id, read_json = (\<lambda>_. Inr (\<lambda>k. if k = ''username'' then Some ''ann'' else None)),
      canonical_root = Inr [''/'', ''srv'', ''static''],
      canonical_under = (\<lambda>p. if p = ''/'' then Inr [''/'', ''srv'', ''static'']
                             else Inr [''/'', ''srv'', ''secret'']),
      is_directory = (\<lambda>p. length p = 3), read_file = (\<lambda>p. Some ''hello'')\<rparr>"

definition example_web :: Web where
  "example_web = Executor.extend example_executor \<lparr>session_list = \<lparr>sessions = []\<rparr>, response = []\<rparr>"

definition example_request :: "fields \<Rightarrow> string \<Rightarrow> Request" where
  "example_request hdr query = \<lparr>req_method = ''GET'', req_path = ''/'', req_query_string = query,
     req_http_version = ''1.1'', req_header = hdr, content = ''{}''\<rparr>"

lemma example_web_env_simps [simp]:
  "iter example_web_env = id"
  "read_json example_web_env txt = Inr (\<lambda>k. if k = ''username'' then Some ''ann'' else None)"
  "canonical_root example_web_env = Inr [''/'', ''srv'', ''static'']"
  "canonical_under example_web_env ''/'' = Inr [''/'', ''srv'', ''static'']"
  "is_directory example_web_env p = (length p = 3)" "read_file example_web_env p = Some ''hello''"
  "resolve example_web_env ''::1'' ''7000'' s = (Return (loopback6 7000, ''::1''), s)"
  by (simp_all add: example_web_env_def env.defs example_env_def net.defs example_net_def
      loopback6_def hostToString_def starts_with_def resolve_def
      Address_host_def AddressInfo_def try_catch_def andthen_def c_str_def)

lemma example_web_simps [simp]:
  "sensors example_web = [(''::1'', new_SensorInfo)]" "sensor_port1 example_web = ''7000''"
  "session_list example_web = \<lparr>sessions = []\<rparr>" "response example_web = []"
  by (simp_all add: example_web_def Executor.defs example_executor_def Communicator.defs)

lemma example_web_ok [simp]: "web_ok example_web"
  by (simp add: web_ok_def comm_ok_def sessions_ok_def example_web_def Executor.defs
      example_executor_def Communicator.defs new_UDPClient_def ordered_def)

lemma example_request_simps [simp]:
  "req_header (example_request hdr q) = hdr" "req_query_string (example_request hdr q) = q"
  "req_path (example_request hdr q) = ''/''" "content (example_request hdr q) = ''{}''"
  by (simp_all add: example_request_def)

lemma example_query:
  "query_at example_web_env ''address'' (example_request hdr (query_create_loop True [(''address'', ''::1'')])) =
     Inr ''::1''"
  using query_roundtrip [of "[(''address'', ''::1'')]"]
  by (simp add: query_at_def plain_key_def del: query_create_loop.simps)

lemma handle_list_cookie:
  assumes "legal_order (iter n)" "list_all is_digit sid" "sid \<noteq> []"
    and "mm_find (iter n) ''Cookie'' (req_header r) = Some (cookie_of sid)"
  shows "\<exists>sensor_states s'. get_sensor_list t s = (Return sensor_states, s) \<and>
    handle_list n t r s = (Return (), s') \<and> sensors s' = sensors s \<and> session_list s' = session_list s \<and>
    (if has_session (session_list s) sid
     then response s' = response s @ write_content (iter n) success_ok
       (''['' @ sensor_array sensor_states @ '']'') [(''Content-Type'', ''application/json'')]
     else s' = s\<lparr>response := response s @ write_status (iter n) client_error_forbidden []\<rparr>)"
  using validateSession_cookie [OF assms, of s]
  by (simp add: handle_list_def try_catch_def andthen_def get_sensor_list_def get_sensors_def
      headers_of_list [simplified])

section \<open>Properties\<close>

text \<open>
  C17: A session lives from its login to its logout: before the login its identifier is
  refused, after it every request that carries the identifier as its cookie passes
  the check, and the logout restores exactly the sessions of before, so that the
  identifier is refused again; the sensor table is not touched.
\<close>

theorem session_life_cycle:
  assumes "legal_order (iter n)" "web_ok s" "sid = generate_session_id rnd"
    and "\<not> has_session (session_list s) sid" "read_json n (content login) = Inr pt"
    and "pt ''username'' = Some user" "mm_find (iter n) ''Cookie'' (req_header r) = Some (cookie_of sid)"
  shows "\<exists>e s1 s2. validateSession n (req_header r) s = (Throw e, s) \<and>
    handle_login n rnd login s = (Return (), s1) \<and>
    fst (validateSession n (req_header r) s1) = Return () \<and>
    handle_logout n r s1 = (Return (), s2) \<and>
    session_list s2 = session_list s \<and> sensors s2 = sensors s \<and>
    validateSession n (req_header r) s2 = (Throw e, s2)"
proof -
  have sid: "list_all is_digit sid" "sid \<noteq> []"
    using generate_session_id_shape [of rnd] assms(3) by auto
  note check = validateSession_cookie [OF assms(1) sid assms(7)]
  let ?l = "session_list s"
  let ?l1 = "?l\<lparr>sessions := om_emplace sid () (sessions ?l)\<rparr>"
  obtain s1 where s1: "handle_login n rnd login s = (Return (), s1)" "session_list s1 = ?l1" "sensors s1 = sensors s"
    using handle_login_done [OF assms(5,6), of rnd s] assms(3) by blast
  have ok: "ordered (sessions ?l)" using assms(2) by (simp add: web_ok_def sessions_ok_def)
  have fresh: "om_find sid (sessions ?l) = None" using assms(4) has_session_def by blast
  have has: "has_session ?l1 sid" using ok by (simp add: has_session_def omap_simps)
  obtain s2 where s2: "handle_logout n r s1 = (Return (), s2)"
      "session_list s2 = ?l1\<lparr>sessions := om_erase sid (sessions ?l1)\<rparr>" "sensors s2 = sensors s"
    using handle_logout_done [OF assms(1) sid assms(7), of s1] s1(2,3) has by auto
  have "session_list s2 = ?l"
    using s2(2) om_erase_emplace_fresh [OF ok fresh] by simp
  then show ?thesis
    using s1 s2(1,3) has assms(4) check [of s] check [of s1] check [of s2] by auto
qed

theorem session_life_cycle_witness:
  "\<exists>s1. handle_login example_web_env (\<lambda>i. i) (example_request [] []) example_web = (Return (), s1) \<and>
    fst (validateSession example_web_env [(''Cookie'', cookie_of (generate_session_id (\<lambda>i. i)))] s1) = Return ()"
  using session_life_cycle [where n = example_web_env and s = example_web and rnd = "\<lambda>i. i" and
      sid = "generate_session_id (\<lambda>i. i)" and login = "example_request [] []" and user = "''ann''" and
      r = "example_request [(''Cookie'', cookie_of (generate_session_id (\<lambda>i. i)))] []"]
  by (auto simp: legal_order_def has_session_def mm_find_def case_insensitive_equal_map)

text \<open>
  C33: A \<open>DELETE\<close> without any session is answered with 403, but the sensor is erased all
  the same and a second status line follows in the same response.
\<close>

theorem delete_without_session:
  assumes "mm_find (iter n) ''Cookie'' (req_header r) = None" "query_at n ''address'' r = Inr addr"
    and "resolve n addr (sensor_port1 s) (s\<lparr>response := response s @ refused\<rparr>) =
      (Return (a, host), s\<lparr>response := response s @ refused\<rparr>)"
    and "has_sensor s host"
    and "refused = write_content (iter n) client_error_forbidden ''No session cookie!'' []"
  shows "\<exists>s'. handle_delete n r s = (Return (), s') \<and> sensors s' = om_erase host (sensors s) \<and>
    response s' = response s @ refused @ write_status (iter n) success_no_content []"
proof -
  have "check_session n r s = (Return (), s\<lparr>response := response s @ refused\<rparr>)"
    using assms(1,5) by (simp add: check_session_def validateSession_def try_catch_def any_exception_def)
  then show ?thesis
    using assms(2-4)
    by (simp add: handle_delete_def or_bad_request_def try_catch_def andthen_def comm_erase_sensor_def
        erase_sensor_apply has_sensor_def)
qed

theorem delete_without_session_witness:
  "\<exists>s'. handle_delete example_web_env
      (example_request [] (query_create_loop True [(''address'', ''::1'')])) example_web = (Return (), s') \<and>
    sensors s' = []"
proof -
  have "om_erase ''::1'' [(''::1'', new_SensorInfo)] = []" by (simp add: om_erase_def)
  moreover have "resolve example_web_env ''::1'' (sensor_port1 example_web) s =
      (Return (loopback6 7000, ''::1''), s)" for s :: Web by simp
  moreover have "has_sensor example_web ''::1''" by (simp add: has_sensor_def om_find_def)
  moreover have "mm_find (iter example_web_env) ''Cookie'' (req_header
      (example_request [] (query_create_loop True [(''address'', ''::1'')]))) = None" by (simp add: mm_find_def)
  ultimately show ?thesis
    using delete_without_session [where n = example_web_env and addr = "''::1''" and s = example_web and
        r = "example_request [] (query_create_loop True [(''address'', ''::1'')])", OF _ example_query _ _ refl]
    by (metis example_web_simps(1))
qed

text \<open>
  The client reads from the response of a login a cookie with the new identifier,
  but with a life time of 3600 seconds instead of the 36000 that the code writes, and
  the content type \<open>text/plai\<close>.
\<close>

lemma login_response_fields:
  assumes "sid = generate_session_id rnd" "read_json n (content r) = Inr pt" "pt ''username'' = Some user"
    and "iter n = id"
  shows "\<exists>s'. handle_login n rnd r s = (Return (), s') \<and>
    (\<exists>txt. response s' = response s @ txt \<and>
      response_parse (txt, True) h = Some (True, h\<lparr>resp_version := ''1.1'',
        resp_status_code := status_code_to_string success_ok,
        resp_header := [(''Set-Cookie'', ''sessionId='' @ sid @ ''; Max-Age=3600''),
          (''Content-Type'', ''text/plai''), (''Content-Length'', ''0'')]\<rparr>, ([], True)))"
proof -
  have sid: "list_all is_digit sid" using generate_session_id_shape(2) [of rnd] assms(1) by simp
  have "plain_field f \<and> \<not> case_insensitive_equal (fst f) ''content-length'' \<and>
      \<not> case_insensitive_equal (fst f) ''transfer-encoding''" if "f \<in> set (id (login_fields sid))" for f
    using that not_in_digits [OF sid, of "CHR 10"]
    by (auto simp: login_fields_def plain_field_def case_insensitive_equal_def is_digit_def)
  then have "response_parse (write_content id success_ok [] (login_fields sid), True) h =
    Some (True, h\<lparr>resp_version := ''1.1'', resp_status_code := status_code_to_string success_ok,
      resp_header := id (login_fields sid) @ [(''Content-Length'', show_nat (length ([] :: string)))]\<rparr>, ([], True))"
    by (intro response_read_back_fields) simp
  then show ?thesis
    using assms(2-4)
    by (simp add: handle_login_def or_bad_argument_def try_catch_def andthen_def on_sessions_def
        login_headers [OF sid] assms(1) [symmetric] login_fields_def show_nat.simps digit_char_def)
qed

text \<open>The table in the order in which the server visits it.\<close>

lemma resource_table:
  "resource =
    [(''^/RoSA/login$'', [(''POST'', R_login)]), (''^/RoSA/logout$'', [(''POST'', R_logout)]),
     (''^/RoSA/sensor$'', [(''DELETE'', R_delete), (''GET'', R_list)]),
     (''^/RoSA/sensor/add$'', [(''POST'', R_add)]), (''^/RoSA/sensor/modify$'', [(''POST'', R_modify)]),
     (''^/RoSA/sensor/refresh$'', [(''GET'', R_refresh)])]"
  by (simp add: resource_def add_resource_def Let_def om_find_def om_assign_def less_char_def)

lemma regex_literal: "regex_match p (''^'' @ q @ ''$'') \<longleftrightarrow> p = q"
  by (auto simp: regex_match_def)

lemma regex_patterns:
  "regex_match p ''^/RoSA/login$'' \<longleftrightarrow> p = ''/RoSA/login''"
  "regex_match p ''^/RoSA/logout$'' \<longleftrightarrow> p = ''/RoSA/logout''"
  "regex_match p ''^/RoSA/sensor$'' \<longleftrightarrow> p = ''/RoSA/sensor''"
  "regex_match p ''^/RoSA/sensor/add$'' \<longleftrightarrow> p = ''/RoSA/sensor/add''"
  "regex_match p ''^/RoSA/sensor/modify$'' \<longleftrightarrow> p = ''/RoSA/sensor/modify''"
  "regex_match p ''^/RoSA/sensor/refresh$'' \<longleftrightarrow> p = ''/RoSA/sensor/refresh''"
  using regex_literal [of p "''/RoSA/login''"] regex_literal [of p "''/RoSA/logout''"]
    regex_literal [of p "''/RoSA/sensor''"] regex_literal [of p "''/RoSA/sensor/add''"]
    regex_literal [of p "''/RoSA/sensor/modify''"] regex_literal [of p "''/RoSA/sensor/refresh''"]
  by simp_all

text \<open>
  The tables route a request by its method and its exact path: the seven REST
  operations to their handlers, every other \<open>GET\<close> to the static files, and anything
  else to no handler at all.
\<close>

lemma find_resource_station:
  "find_resource resource default_resource r =
     (if req_path r = ''/RoSA/login'' \<and> req_method r = ''POST'' then Some R_login
      else if req_path r = ''/RoSA/logout'' \<and> req_method r = ''POST'' then Some R_logout
      else if req_path r = ''/RoSA/sensor'' \<and> req_method r = ''DELETE'' then Some R_delete
      else if req_path r = ''/RoSA/sensor'' \<and> req_method r = ''GET'' then Some R_list
      else if req_path r = ''/RoSA/sensor/add'' \<and> req_method r = ''POST'' then Some R_add
      else if req_path r = ''/RoSA/sensor/modify'' \<and> req_method r = ''POST'' then Some R_modify
      else if req_path r = ''/RoSA/sensor/refresh'' \<and> req_method r = ''GET'' then Some R_refresh
      else if req_method r = ''GET'' then Some R_default else None)"
  by (simp add: find_resource_def resource_table default_resource_def om_find_def regex_patterns)

text \<open>
  Serving a request of any kind, with any outcome, keeps the sensor table, the table
  of callbacks and the set of sessions well-formed.
\<close>

lemma serve_keeps_web_ok:
  assumes "web_ok s"
  shows "web_ok (snd (serve n t rnd sends r s))"
  using web.keeps_serve assms by (rule keepsD)

section \<open>Static files\<close>

lemma read_and_send_all:
  "0 < sz \<Longrightarrow> list_all id sends \<Longrightarrow> length body \<le> sz * (length sends + 1) \<Longrightarrow> read_and_send sz sends body = body"
proof (induction sends arbitrary: body)
  case (Cons ok sends)
  show ?case
  proof (cases "length (take sz body) = sz")
    case True
    with Cons have "read_and_send sz sends (drop sz body) = drop sz body" by simp
    with True Cons.prems show ?thesis by (auto simp: Let_def)
  next
    case False
    then have "take sz body = body" by simp
    with False show ?thesis by (simp add: Let_def)
  qed
qed simp

text \<open>
  C32: A static file is sent only from below the root directory: when the canonical path
  of the request is the root or below it (the index page for a directory) and the
  file can be read, the response is 200 with the length and the whole content, if all
  sends succeed; for a path that leads elsewhere it is 400 and no content is read.
\<close>

theorem static_files_confined:
  assumes "canonical_root n = Inr base" "canonical_under n (req_path r) = Inr path"
    and "path' = (if is_directory n path then path @ [''index.html''] else path)"
    and "list_all id sends" "\<And>body. read_file n path' = Some body \<Longrightarrow>
      length body \<le> file_buffer * (length sends + 1)"
  shows "handle_default n sends r s = (Return (), s\<lparr>response := response s @
    (if take (length base) path = base then
       case read_file n path' of
         Some body \<Rightarrow> write_fields (iter n) [(''Content-Length'', show_nat (length body))] @ body
       | None \<Rightarrow> write_content (iter n) client_error_bad_request
           (''Could not open path '' @ req_path r @ '': '' @ ''could not read file'') []
     else write_content (iter n) client_error_bad_request
       (''Could not open path '' @ req_path r @ '': '' @ ''path must be within root path'') [])\<rparr>)"
proof (cases "take (length base) path = base")
  case True
  then have "\<not> length path < length base" by (metis length_take min.absorb_iff2 not_le less_imp_le)
  with True have path: "checked_path n (req_path r) = Inr path'"
    using assms(1-3) by (simp add: checked_path_def)
  show ?thesis
  proof (cases "read_file n path'")
    case None
    with True path show ?thesis
      by (simp add: handle_default_def try_catch_def andthen_def any_exception_def)
  next
    case (Some body)
    then have "read_and_send file_buffer sends body = body"
      using assms(4,5) by (intro read_and_send_all) (auto simp: file_buffer_def)
    with True Some path show ?thesis
      by (simp add: handle_default_def try_catch_def andthen_def)
  qed
next
  case False
  then have "checked_path n (req_path r) = Inl (Invalid_argument ''path must be within root path'')"
    using assms(1,2) by (simp add: checked_path_def)
  with False show ?thesis
    by (simp add: handle_default_def try_catch_def andthen_def any_exception_def)
qed

theorem static_files_confined_witness:
  "snd (handle_default example_web_env [] (example_request [] []) example_web) =
     example_web\<lparr>response := write_fields id [(''Content-Length'', show_nat (length ''hello''))] @ ''hello''\<rparr>"
  using static_files_confined [where n = example_web_env and base = "[''/'', ''srv'', ''static'']" and
      path = "[''/'', ''srv'', ''static'']" and path' = "[''/'', ''srv'', ''static'', ''index.html'']" and
      sends = "[]" and r = "example_request [] []" and s = example_web]
  by (simp add: file_buffer_def)

end
