(* ===== verification/CentralMain.thy ===== *)
theory CentralMain
  imports WebServer
begin

text \<open>
  \<open>main.cpp\<close> of the central station: the alarm server, the polling thread, the reading
  of the saved sensors at the start and the sequence of \<open>main\<close>.  The state \<open>Central\<close>
  is the whole of the station: that of the web server, with the two UDP servers of
  the threads, their local variables, and the text of \<open>data.txt\<close>.
\<close>

section \<open>State and environment\<close>

text \<open>
  Where the polling thread is: before the list of addresses is read, asking the
  addresses that are left, waiting because there is none, before the file is
  written, or ended.
\<close>

datatype polling_phase = Poll_begin | Poll_ask "string list" | Poll_wait | Poll_save | Poll_ended

record Central = Web +
  alarm_buffer :: string
  alarm_server :: UDPServer
  polling_server :: UDPServer
  polling_buffer :: string
  polling :: polling_phase
  polling_socket :: UDPsocket
  data_txt :: string

text \<open>
  \<open>setsockopt\<close> is the result of the call for a timeout of seconds and microseconds, \<open>home_dir\<close> the value of
  \<open>HOME\<close>, which does not change while the program runs.
\<close>

record central_env = web_env +
  setsockopt :: "int \<times> int \<Rightarrow> int"
  home_dir :: "string option"

definition on_alarm_server :: "(UDPServer, 'r) op \<Rightarrow> ('a Central_scheme, 'r) op" where
  "on_alarm_server m = (\<lambda>s. case m (alarm_server s) of (r, c) \<Rightarrow> (r, s\<lparr>alarm_server := c\<rparr>))"

definition on_polling_server :: "(UDPServer, 'r) op \<Rightarrow> ('a Central_scheme, 'r) op" where
  "on_polling_server m = (\<lambda>s. case m (polling_server s) of (r, c) \<Rightarrow> (r, s\<lparr>polling_server := c\<rparr>))"

definition poll_timeout :: "'n central_env_scheme \<Rightarrow> 32 word \<Rightarrow> ('a Central_scheme, unit) op" where
  "poll_timeout n ms = (\<lambda>s.
     case setReceiveTimeout n (setsockopt n (timeval_of ms)) ms (polling_socket s) of
       (r, c) \<Rightarrow> (r, s\<lparr>polling_socket := c\<rparr>))"

definition client_port :: "16 word" where
  "client_port = 7501"

definition loop_time :: nat where
  "loop_time = 40"

section \<open>The alarm server\<close>

text \<open>
  What is done with a message: the guards of the code in their order.  \<open>boost::split\<close>
  is the parameter of the environment.
\<close>

definition invalid_alarm :: "string \<Rightarrow> string \<Rightarrow> string" where
  "invalid_alarm addr msg = ''Invalid message from '' @ addr @ '': '' @ msg @
     ''. Expected: current_value: <value> typical_value: <value> ''"

definition handle_alarm :: "'n env_scheme \<Rightarrow> string \<Rightarrow> string \<Rightarrow> ('a Central_scheme, unit) op" where
  "handle_alarm n addr msg =
     (let message = split n msg in
      if length message = 5 \<and> message ! 0 = ''alarm'' then
        if message ! 1 = ''current_value:'' \<and> message ! 3 = ''typical_value:'' then
          andthen (or_throw (stof (message ! 2))) (\<lambda>new_current_value.
          andthen (or_throw (stof (message ! 4))) (\<lambda>new_typical_value.
          andthen (set_values addr new_current_value new_typical_value) (\<lambda>_.
          log_msg (''ALARM!!! Received from '' @ addr @ '': '' @ msg))))
        else log_msg (invalid_alarm addr msg)
      else log_msg (invalid_alarm addr msg))"

text \<open>
  One pass of the loop; \<open>True\<close> when the thread returns.  The buffer has 512 bytes, of
  which 511 can be received; it is cleared at the end of a pass, but not by the
  handlers of the exceptions.
\<close>

definition alarm_receive :: "recv_result \<Rightarrow> ('a Central_scheme, int) op" where
  "alarm_receive r =
     andthen (reads alarm_buffer) (\<lambda>buf.
     andthen (on_alarm_server (server_receive r buf 511)) (\<lambda>(retval, buffer).
     andthen (change (\<lambda>s. s\<lparr>alarm_buffer := buffer\<rparr>)) (\<lambda>_. ret retval)))"

definition alarm_pass :: "'n env_scheme \<Rightarrow> recv_result \<Rightarrow> ('a Central_scheme, bool) op" where
  "alarm_pass n r =
     andthen (alarm_receive r) (\<lambda>retval.
     andthen (reads alarm_buffer) (\<lambda>buffer.
     andthen (reads (\<lambda>s. clientAddress (alarm_server s))) (\<lambda>addr.
     if retval < 0 then andthen (log_msg ''error, no data received'') (\<lambda>_. ret True)
     else if buffer ! 0 = CHR 0xFF \<and> isLoopback n addr client_port
     then andthen (log_msg ''Alarm server ended'') (\<lambda>_. ret True)
     else if CHR 0x00 \<notin> set buffer then undefined_behaviour
     else
       andthen (or_throw (hostToString n addr)) (\<lambda>address.
       andthen (handle_alarm n address (c_str buffer)) (\<lambda>_.
       andthen (on_alarm_server (server_send n buffer (nat retval))) (\<lambda>_.
       andthen (change (\<lambda>s. s\<lparr>alarm_buffer := replicate 512 (CHR 0x00)\<rparr>)) (\<lambda>_.
       ret False)))))))"

definition alarm_round :: "'n env_scheme \<Rightarrow> recv_result \<Rightarrow> ('a Central_scheme, bool) op" where
  "alarm_round n r =
     try_catch
       (try_catch (alarm_pass n r) is_exception_info
          (\<lambda>_. andthen (log_msg ''Problem with translating address of alarm sender'') (\<lambda>_. ret False)))
       is_logic_error
       (\<lambda>_. andthen (log_msg ''Address doesn't exist'') (\<lambda>_. ret False))"

text \<open>The loop over the datagrams that arrive: \<open>False\<close> when it still waits for one.\<close>

fun alarm_loop :: "'n env_scheme \<Rightarrow> recv_result list \<Rightarrow> ('a Central_scheme, bool) op" where
  "alarm_loop n [] = ret False"
| "alarm_loop n (r # rs) =
     andthen (alarm_round n r) (\<lambda>ended. if ended then ret True else alarm_loop n rs)"

section \<open>The polling thread\<close>

text \<open>The pause for one of \<open>k\<close> sensors: a quotient of 64 bits, stored in 32.\<close>

definition poll_time :: "nat \<Rightarrow> 32 word" where
  "poll_time k = of_nat (loop_time * 1000 div k)"

text \<open>\<open>receive (&buffer, 1)\<close> and the test for the message that ends the thread.\<close>

definition poll_receive_byte :: "recv_result \<Rightarrow> ('a Central_scheme, int) op" where
  "poll_receive_byte r =
     andthen (reads polling_buffer) (\<lambda>buf.
     andthen (on_polling_server (server_receive r buf 1)) (\<lambda>(retval, buffer).
     andthen (change (\<lambda>s. s\<lparr>polling_buffer := buffer\<rparr>)) (\<lambda>_. ret retval)))"

definition poll_receive :: "'n net_scheme \<Rightarrow> recv_result \<Rightarrow> ('a Central_scheme, bool) op" where
  "poll_receive n r =
     andthen (poll_receive_byte r) (\<lambda>retval.
     andthen (reads polling_buffer) (\<lambda>buffer.
     andthen (reads (\<lambda>s. clientAddress (polling_server s))) (\<lambda>addr.
     if 0 \<le> retval \<and> buffer ! 0 = CHR 0xFF \<and> isLoopback n addr client_port
     then andthen (log_msg ''Polling thread ended'') (\<lambda>_. ret True)
     else ret False)))"

definition goto_phase :: "polling_phase \<Rightarrow> ('a Central_scheme, unit) op" where
  "goto_phase p = change (\<lambda>s. s\<lparr>polling := p\<rparr>)"

text \<open>\<open>write_to_file\<close> with the file it writes; \<open>opens\<close> tells whether the file could be opened.\<close>

definition save_table :: "'n central_env_scheme \<Rightarrow> bool \<Rightarrow> ('a Central_scheme, unit) op" where
  "save_table n opens =
     andthen (write_to_file (home_dir n) opens) (\<lambda>txt.
     case txt of None \<Rightarrow> ret () | Some str \<Rightarrow> change (\<lambda>s. s\<lparr>data_txt := str\<rparr>))"

text \<open>
  One step of the thread, between two of which the other threads may run: the list of
  addresses is a copy.  What ends the thread by an exception is not caught by anyone.
\<close>

definition polling_step ::
  "'n central_env_scheme \<Rightarrow> clock \<Rightarrow> recv_result \<Rightarrow> bool \<Rightarrow> ('a Central_scheme, unit) op" where
  "polling_step n t r opens = (\<lambda>s. case polling s of
      Poll_begin \<Rightarrow>
        andthen get_addresses (\<lambda>sensors.
        if sensors \<noteq> [] then
          andthen (poll_timeout n (poll_time (length sensors))) (\<lambda>_.
          goto_phase (Poll_ask sensors))
        else
          andthen (poll_timeout n (of_nat (loop_time * 1000))) (\<lambda>_.
          goto_phase Poll_wait)) s
    | Poll_ask [] \<Rightarrow> goto_phase Poll_save s
    | Poll_ask (it # rest) \<Rightarrow>
        andthen (ask_for_values n t it) (\<lambda>_.
        andthen (poll_receive n r) (\<lambda>ended.
        goto_phase (if ended then Poll_ended else Poll_ask rest))) s
    | Poll_wait \<Rightarrow>
        andthen (poll_receive n r) (\<lambda>ended.
        goto_phase (if ended then Poll_ended else Poll_save)) s
    | Poll_save \<Rightarrow>
        andthen (save_table n opens) (\<lambda>_.
        andthen (log_msg ''Saving list of sensors to file'') (\<lambda>_.
        goto_phase Poll_begin)) s
    | Poll_ended \<Rightarrow> (Return (), s))"

section \<open>Reading the saved sensors\<close>

text \<open>
  \<open>peek\<close>, \<open>>> address\<close> and \<open>>> threshold\<close> on an input stream, which is the text left
  and whether no state bit is set.  The extraction of a number takes the longest
  text that can begin a decimal number, which has to be one as a whole.
\<close>

definition peek_eof :: "istream \<Rightarrow> bool" where
  "peek_eof = (\<lambda>(txt, good). \<not> good \<or> txt = [])"

definition read_word :: "string \<Rightarrow> istream \<Rightarrow> string \<times> istream" where
  "read_word word = (\<lambda>(txt, good).
     let txt' = dropWhile is_space txt; rest = dropWhile (\<lambda>c. \<not> is_space c) txt' in
     if \<not> good then (word, (txt, False))
     else if txt' = [] then (word, ([], False))
     else (takeWhile (\<lambda>c. \<not> is_space c) txt', (rest, rest \<noteq> [])))"

definition sign_text :: "string \<Rightarrow> string \<times> string" where
  "sign_text s = (case s of c # r \<Rightarrow> if c = CHR ''-'' \<or> c = CHR ''+'' then ([c], r) else ([], s) | [] \<Rightarrow> ([], []))"

definition point_text :: "string \<Rightarrow> string \<times> string" where
  "point_text s = (case s of
      c # r \<Rightarrow> if c = CHR ''.'' then (c # takeWhile is_digit r, dropWhile is_digit r) else ([], s)
    | [] \<Rightarrow> ([], []))"

definition exponent_text :: "bool \<Rightarrow> string \<Rightarrow> string \<times> bool \<times> string" where
  "exponent_text mant s = (case s of
      c # r \<Rightarrow>
        if mant \<and> to_lower c = CHR ''e'' then
          let (sg, r') = sign_text r; ds = takeWhile is_digit r'
          in (c # sg @ ds, ds \<noteq> [], dropWhile is_digit r')
        else ([], mant, s)
    | [] \<Rightarrow> ([], mant, []))"

definition float_text :: "string \<Rightarrow> string \<times> bool \<times> string" where
  "float_text s =
     (let (sg, s1) = sign_text s; a = takeWhile is_digit s1;
          (b, s2) = point_text (dropWhile is_digit s1);
          (e, complete, rest) = exponent_text (a \<noteq> [] \<or> tl b \<noteq> []) s2
      in (sg @ a @ b @ e, complete, rest))"

definition f32_max :: "bool \<Rightarrow> float32" where
  "f32_max s = Fin s (2 ^ 24 - 1) 104"

definition read_float :: "float32 \<Rightarrow> istream \<Rightarrow> float32 \<times> istream" where
  "read_float x = (\<lambda>(txt, good).
     let txt' = dropWhile is_space txt; (num, complete, rest) = float_text txt' in
     if \<not> good then (x, (txt, False))
     else if txt' = [] then (x, ([], False))
     else if \<not> complete then (f32_of_int 0, (rest, False))
     else case strtof num of
            Converted (Inf s) _ \<Rightarrow> (f32_max s, (rest, False))
          | Converted y _ \<Rightarrow> (y, (rest, rest \<noteq> []))
          | No_conversion \<Rightarrow> (f32_of_int 0, (rest, False)))"

lemma dropWhile_shorter: "length (dropWhile P s) \<le> length s"
  by (simp add: dropWhile_eq_drop)

lemma read_word_shorter:
  assumes "str \<noteq> []"
  shows "length (fst (snd (read_word w (str, True)))) < length str"
proof -
  let ?t = "dropWhile is_space str"
  have "length (dropWhile (\<lambda>c. \<not> is_space c) ?t) < length ?t" if t: "?t \<noteq> []"
  proof -
    obtain c r where c: "?t = c # r" using t by (cases "?t") auto
    then have "\<not> is_space c" by (auto simp: dropWhile_eq_Cons_conv)
    with c show ?thesis using dropWhile_shorter [of _ r] by (simp add: less_Suc_eq_le)
  qed
  then show ?thesis
    using assms dropWhile_shorter [of is_space str]
    by (auto simp: read_word_def Let_def intro: less_le_trans)
qed

lemma float_text_shorter: "length (snd (snd (float_text s))) \<le> length s"
proof -
  have sign: "length (snd (sign_text s)) \<le> length s" for s
    by (simp add: sign_text_def split: list.split)
  have point: "length (snd (point_text s)) \<le> length s" for s
    by (auto simp: point_text_def dropWhile_shorter le_SucI split: list.split)
  have expo: "length (snd (snd (exponent_text m s))) \<le> length s" for m s
  proof (cases s)
    case (Cons c r)
    have "length (dropWhile is_digit (snd (sign_text r))) \<le> length r"
      using dropWhile_shorter sign by (rule le_trans)
    with Cons show ?thesis by (simp add: exponent_text_def Let_def split_beta)
  qed (simp add: exponent_text_def)
  show ?thesis
    using expo [of _ "snd (point_text (dropWhile is_digit (snd (sign_text s))))"]
      point [of "dropWhile is_digit (snd (sign_text s))"] dropWhile_shorter [of is_digit "snd (sign_text s)"] sign [of s]
    by (auto simp: float_text_def Let_def split_beta intro: le_trans)
qed

lemma read_float_shorter: "length (fst (snd (read_float x (str, good)))) \<le> length str"
proof -
  have "length (snd (snd (float_text (dropWhile is_space str)))) \<le> length str"
    using float_text_shorter dropWhile_shorter by (rule le_trans)
  then show ?thesis
    by (auto simp: read_float_def Let_def split_beta split: strtof_result.split float32.split)
qed

text \<open>
  The loop of \<open>init_from_file\<close>.  Both variables keep their values when nothing is read;
  \<open>ts i\<close> is the clock of the \<open>i\<close>-th call.
\<close>

function init_loop ::
  "'n net_scheme \<Rightarrow> (nat \<Rightarrow> clock) \<Rightarrow> nat \<Rightarrow> istream \<Rightarrow> string \<Rightarrow> float32 \<Rightarrow> ('a Communicator_scheme, unit) op" where
  "init_loop n ts i stream addr x =
     (if peek_eof stream then ret ()
      else case read_word addr stream of (addr', stream1) \<Rightarrow>
        case read_float x stream1 of (x', stream2) \<Rightarrow>
          andthen (comm_add_sensor n (ts i) addr' x') (\<lambda>_.
          init_loop n ts (i + 1) stream2 addr' x'))"
  by pat_completeness auto
termination
proof (relation "measure (\<lambda>(n, ts, i, stream, addr, x). length (fst stream))", goal_cases)
  case (2 n ts i stream addr x addr' stream1 x' stream2)
  obtain str where "stream = (str, True)" "str \<noteq> []"
    using 2(1) by (auto simp: peek_eof_def split: prod.splits)
  then have "length (fst stream1) < length (fst stream)"
    using read_word_shorter [of str addr] 2(2) [symmetric] by simp
  moreover have "length (fst stream2) \<le> length (fst stream1)"
    using read_float_shorter [of x "fst stream1" "snd stream1"] 2(3) [symmetric] by simp
  ultimately show ?case by simp
qed simp

declare init_loop.simps [simp del]

text \<open>
  \<open>home\<close> is the value of \<open>HOME\<close>, \<open>saved\<close> the content of the file, if it can be opened;
  \<open>x0\<close> is the value of the variable that is not initialised.
\<close>

definition init_from_file ::
  "'n net_scheme \<Rightarrow> (nat \<Rightarrow> clock) \<Rightarrow> string option \<Rightarrow> string option \<Rightarrow> float32 \<Rightarrow>
   ('a Communicator_scheme, unit) op" where
  "init_from_file n ts home saved x0 =
     (if home = None then throw (Logic_error ''basic_string: construction from null is not valid'')
      else try_catch
        (init_loop n ts 0 (case saved of None \<Rightarrow> ([], False) | Some txt \<Rightarrow> (txt, True)) [] x0)
        is_logic_error
        (\<lambda>e. log_msg (''Adding sensors from file filed, invalid data '' @ what e)))"

section \<open>The main program\<close>

datatype central_action = Usage | Start bool

definition central_main :: "string list \<Rightarrow> central_action" where
  "central_main argv =
     (if length argv \<noteq> 2 then Usage
      else if argv ! 1 = ''init_from_file'' \<and> argv ! 1 = ''init_empty'' then Usage
      else Start (argv ! 1 = ''init_from_file''))"

definition central_help :: "string \<Rightarrow> string" where
  "central_help program_name =
     [CHR 10] @ ''Usage: '' @ program_name @ '' [command]'' @ [CHR 10, CHR 10] @
     ''Available commands:'' @ [CHR 10, CHR 10] @
     ''- init_from_file '' @ [CHR 10] @
     ''- init_empty '' @ [CHR 10]"

text \<open>
  The state when \<open>main\<close> has made its objects: the buffers of the threads hold what the
  stack holds.
\<close>

definition new_Central :: "UDPsocket \<Rightarrow> Address \<Rightarrow> string \<Rightarrow> string \<Rightarrow> Central" where
  "new_Central socket uninitialised stack_buffer stack_char =
     Communicator.extend (new_Communicator (new_SensorList 5) client_port ''7000'' ''7001'' 5)
       \<lparr>fifo_in = False, fifo_out = False, fifo_answers = [],
        session_list = \<lparr>sessions = []\<rparr>, response = [],
        alarm_buffer = stack_buffer, alarm_server = new_UDPServer uninitialised,
        polling_server = new_UDPServer uninitialised, polling_buffer = stack_char,
        polling = Poll_begin, polling_socket = socket, data_txt = []\<rparr>"

text \<open>
  Without \<open>HOME\<close> the handler fails too: \<open>Logger::log\<close> throws the same exception, after the line on
  the terminal, and it leaves \<open>main\<close>.
\<close>

definition start_up ::
  "'n net_scheme \<Rightarrow> (nat \<Rightarrow> clock) \<Rightarrow> string option \<Rightarrow> string option \<Rightarrow> float32 \<Rightarrow> bool \<Rightarrow>
   ('a Communicator_scheme, unit) op" where
  "start_up n ts home saved x0 from_file =
     (if from_file
      then try_catch (init_from_file n ts home saved x0) is_logic_error
             (\<lambda>_. andthen (log_msg ''Problems with opening file'') (\<lambda>_.
                   if home = None then throw (Logic_error ''basic_string: construction from null is not valid'')
                   else ret ()))
      else ret ())"

lemma start_up_without_home:
  "start_up n ts None saved x0 True s = (Throw (Logic_error ''basic_string: construction from null is not valid''),
     s\<lparr>logs := logs s @ [''Problems with opening file'']\<rparr>)"
  by (simp add: start_up_def init_from_file_def try_catch_def andthen_def)

definition executeScripts ::
  "'n env_scheme \<Rightarrow> mkfifo_result \<Rightarrow> mkfifo_result \<Rightarrow> (clock \<times> fifo_round) list \<Rightarrow> string \<Rightarrow>
   ('a Executor_scheme, bool) op" where
  "executeScripts n r_in r_out rounds buf =
     try_catch (execute n r_in r_out rounds buf) is_logic_error
       (\<lambda>_. andthen (log_msg ''Problem with creating pipe to listen scripts'') (\<lambda>_. ret True))"

text \<open>What \<open>main\<close> does after the scripts, before and after it waits for the threads.\<close>

definition send_endings :: "'n net_scheme \<Rightarrow> ('a Communicator_scheme, unit) op" where
  "send_endings n =
     andthen (send_server_terminating_msg n ''7500'') (\<lambda>_. send_server_terminating_msg n ''7503'')"

definition last_save :: "'n central_env_scheme \<Rightarrow> bool \<Rightarrow> ('a Central_scheme, unit) op" where
  "last_save n opens = andthen (save_table n opens) (\<lambda>_. log_msg ''Saving list of sensors to file'')"

text \<open>The text of the file for a table.\<close>

definition saved_table :: "(string, SensorInfo) omap \<Rightarrow> string" where
  "saved_table m = concat (map (\<lambda>(address, info). address @ '' '' @ show_g (threshold info) @ [CHR 10]) m)"

lemma save_table_apply:
  "save_table n opens s = (case home_dir n of
      None \<Rightarrow> (Throw (Logic_error ''basic_string: construction from null is not valid''), s)
    | Some homeDir \<Rightarrow> (Return (), if opens then s\<lparr>data_txt := saved_table (sensors s)\<rparr> else s))"
  by (simp add: save_table_def write_to_file_def saved_table_def andthen_def comp_def case_prod_unfold split: option.split)

section \<open>What the alarm server does\<close>

lemma alarm_receive_apply:
  "alarm_receive (Recv_failed b) s =
     (Return (- 1), s\<lparr>alarm_server := (alarm_server s)\<lparr>clientAddressIsCorrect := False\<rparr>\<rparr>)"
  "alarm_receive (Received data addr) s =
     (Return (int (length (take 511 data))), s\<lparr>
        alarm_server := (alarm_server s)\<lparr>clientAddress := addr, clientAddressIsCorrect := True\<rparr>,
        alarm_buffer := take 511 data @ drop (length (take 511 data)) (alarm_buffer s)\<rparr>)"
  by (simp_all add: alarm_receive_def andthen_def on_alarm_server_def Let_def)

text \<open>
  The server goes on after every datagram but the one that ends it.
\<close>

lemma alarm_round_True:
  fixes s :: "'a Central_scheme"
  assumes "alarm_buffer s \<noteq> []"
  shows "fst (alarm_round n (Received data addr) s) = Return True \<longleftrightarrow>
    (if data = [] then alarm_buffer s else data) ! 0 = CHR 0xFF \<and> isLoopback n addr client_port"
proof -
  let ?b = "take 511 data @ drop (length (take 511 data)) (alarm_buffer s)"
  have b: "?b ! 0 = (if data = [] then alarm_buffer s else data) ! 0"
    by (simp add: nth_append)
  have "fst (alarm_round n (Received data addr) s) = Return True \<longleftrightarrow>
    fst (alarm_pass n (Received data addr) s) = Return True"
    by (auto simp: alarm_round_def returns_try_catch returns_andthen)
  also have "\<dots> \<longleftrightarrow> ?b ! 0 = CHR 0xFF \<and> isLoopback n addr client_port"
    by (auto simp: alarm_pass_def returns_andthen alarm_receive_apply andthen_def [of "alarm_receive _"] simp del: nth_append)
  finally show ?thesis using b by simp
qed

lemma stof_throws: "stof str = Inl e \<Longrightarrow> is_logic_error e"
  by (auto simp: stof_def split: strtof_result.splits if_splits)

lemma handle_alarm_outcome:
  "\<exists>r s'. handle_alarm n addr msg s = (r, s') \<and> alarm_server s' = alarm_server s \<and>
     alarm_buffer s' = alarm_buffer s \<and> (r = Return () \<or> (\<exists>e. r = Throw e \<and> is_logic_error e))"
proof -
  have "\<exists>r s'. andthen (or_throw (stof a)) (\<lambda>x. andthen (or_throw (stof b)) (\<lambda>y.
      andthen (set_values addr x y) (\<lambda>_. log_msg l))) s = (r, s') \<and> alarm_server s' = alarm_server s \<and>
      alarm_buffer s' = alarm_buffer s \<and> (r = Return () \<or> (\<exists>e. r = Throw e \<and> is_logic_error e))" for a b l
    by (cases "stof a"; cases "stof b"; cases "om_find addr (sensors s)")
       (auto simp: andthen_def set_values_def find_sensor_def no_sensor_def dest: stof_throws)
  then show ?thesis by (auto simp: handle_alarm_def Let_def)
qed

text \<open>
  What a received datagram does to the server, from any content of the buffer: it ends the server
  when the receive has failed, or when the first byte of the buffer is then 0xFF and the sender is the
  client's port of the loopback address (a datagram without any byte leaves the first byte
  of an earlier one, or the byte that was there before the first); otherwise
  the text in the buffer has to have an end.
\<close>

fun alarm_ends :: "'n net_scheme \<Rightarrow> string \<Rightarrow> recv_result \<Rightarrow> bool" where
  "alarm_ends n buf (Recv_failed timeout) \<longleftrightarrow> True"
| "alarm_ends n buf (Received data addr) \<longleftrightarrow> hd (data @ buf) = CHR 0xFF \<and> isLoopback n addr client_port"

fun alarm_overreads :: "string \<Rightarrow> recv_result \<Rightarrow> bool" where
  "alarm_overreads buf (Recv_failed timeout) \<longleftrightarrow> False"
| "alarm_overreads buf (Received data addr) \<longleftrightarrow> CHR 0x00 \<notin> set (take 511 data @ drop (length (take 511 data)) buf)"

text \<open>The address of a sender is one of IPv6 or IPv4.\<close>

fun from_port :: "'n net_scheme \<Rightarrow> recv_result \<Rightarrow> bool" where
  "from_port n (Recv_failed timeout) \<longleftrightarrow> True"
| "from_port n (Received data addr) \<longleftrightarrow> (\<exists>p. getPort n addr = Inr p)"

text \<open>The buffer keeps its size, and a zero as its last byte, which is never received.\<close>

definition buffer_kept :: "string \<Rightarrow> string \<Rightarrow> bool" where
  "buffer_kept buf buf' \<longleftrightarrow> length buf' = 512 \<and> (buf ! 511 = CHR 0x00 \<longrightarrow> buf' ! 511 = CHR 0x00)"

lemma received_kept:
  assumes "length buf = 512"
  shows "buffer_kept buf (take 511 data @ drop (length (take 511 data)) buf)"
  using assms by (auto simp: buffer_kept_def nth_append)

lemma buffer_kept_clear: "buffer_kept buf (replicate 512 (CHR 0x00))"
  by (simp add: buffer_kept_def)

lemma buffer_kept_trans: "buffer_kept a b \<Longrightarrow> buffer_kept b c \<Longrightarrow> buffer_kept a c"
  by (simp add: buffer_kept_def)

lemma alarm_overreads_kept:
  assumes "length buf = 512" "alarm_overreads buf r"
  shows "buf ! 511 \<noteq> CHR 0x00"
proof (cases r)
  case (Received data addr)
  let ?b = "take 511 data @ drop (length (take 511 data)) buf"
  have "buf ! 511 = CHR 0x00 \<Longrightarrow> CHR 0x00 \<in> set ?b"
    using received_kept [OF assms(1), of data] nth_mem [of 511 ?b] by (simp add: buffer_kept_def)
  then show ?thesis using assms(2) Received by auto
qed (use assms(2) in simp)

text \<open>The body of a pass behind the guards throws nothing that the loop does not catch.\<close>

lemma alarm_body_outcome:
  assumes "incrementPort n addr = Inr b'" "length buf = 512" "k \<le> 512" "alarm_buffer s = buf"
    and "alarm_server s = srv\<lparr>clientAddress := addr, clientAddressIsCorrect := True\<rparr>"
  shows "\<exists>r s'. andthen (or_throw (hostToString n addr)) (\<lambda>address.
       andthen (handle_alarm n address msg) (\<lambda>_.
       andthen (on_alarm_server (server_send n buf k)) (\<lambda>_.
       andthen (change (\<lambda>s. s\<lparr>alarm_buffer := replicate 512 (CHR 0x00)\<rparr>)) (\<lambda>_.
       ret False)))) s = (r, s') \<and> alarm_buffer s' \<in> {buf, replicate 512 (CHR 0x00)} \<and>
     (r = Return False \<or> (\<exists>e. r = Throw e \<and> (is_logic_error e \<or> is_exception_info e)))"
proof (cases "hostToString n addr")
  case (Inl e)
  then show ?thesis using hostToString_throws [OF Inl] assms(4) by (simp add: andthen_def)
next
  case (Inr host)
  obtain r s' where h: "handle_alarm n host msg s = (r, s')" "alarm_server s' = alarm_server s"
      "alarm_buffer s' = buf" "r = Return () \<or> (\<exists>e. r = Throw e \<and> is_logic_error e)"
    using handle_alarm_outcome [of n host msg s] assms(4) by auto
  obtain j srv' where "server_send n buf k (alarm_server s) = (Return j, srv')"
    using assms(1-3,5) by (simp add: server_send_def Let_def)
  then show ?thesis using Inr h by (auto simp: andthen_def on_alarm_server_def)
qed

lemma alarm_round_outcome:
  assumes "length (alarm_buffer s) = 512" "from_port n r"
  shows "\<exists>s'. alarm_round n r s =
      ((if alarm_ends n (alarm_buffer s) r then Return True
        else if alarm_overreads (alarm_buffer s) r then Undefined else Return False), s') \<and>
    buffer_kept (alarm_buffer s) (alarm_buffer s')"
proof (cases r)
  case (Recv_failed timeout)
  then show ?thesis
    using assms(1) by (simp add: alarm_round_def alarm_pass_def try_catch_def andthen_def alarm_receive_apply buffer_kept_def)
next
  case (Received data addr)
  let ?d = "take 511 data"
  let ?b = "?d @ drop (length ?d) (alarm_buffer s)"
  let ?s = "s\<lparr>alarm_server := (alarm_server s)\<lparr>clientAddress := addr, clientAddressIsCorrect := True\<rparr>, alarm_buffer := ?b\<rparr>"
  have kept: "buffer_kept (alarm_buffer s) ?b" by (rule received_kept [OF assms(1)])
  have "?b ! 0 = hd (data @ alarm_buffer s)"
    using assms(1) by (cases data; cases "alarm_buffer s") auto
  then have ends: "alarm_ends n (alarm_buffer s) r \<longleftrightarrow> ?b ! 0 = CHR 0xFF \<and> isLoopback n addr client_port"
    using Received by simp
  have recv: "alarm_receive (Received data addr) s = (Return (int (length ?d)), ?s)" by (rule alarm_receive_apply)
  obtain p where "getPort n addr = Inr p" using assms(2) Received by auto
  then obtain b' where incr: "incrementPort n addr = Inr b'"
    using incrementPort_fails [of n addr] by (cases "incrementPort n addr") auto
  obtain q s' where body: "andthen (or_throw (hostToString n addr)) (\<lambda>address.
       andthen (handle_alarm n address (c_str ?b)) (\<lambda>_.
       andthen (on_alarm_server (server_send n ?b (length ?d))) (\<lambda>_.
       andthen (change (\<lambda>s. s\<lparr>alarm_buffer := replicate 512 (CHR 0x00)\<rparr>)) (\<lambda>_.
       ret False)))) ?s = (q, s')" "alarm_buffer s' \<in> {?b, replicate 512 (CHR 0x00)}"
      "q = Return False \<or> (\<exists>e. q = Throw e \<and> (is_logic_error e \<or> is_exception_info e))"
    using alarm_body_outcome [OF incr, of ?b "length ?d" ?s "alarm_server s" "c_str ?b"] kept
    by (auto simp: buffer_kept_def)
  have kept': "buffer_kept (alarm_buffer s) (alarm_buffer s')" using body(2) kept buffer_kept_clear by auto
  have "alarm_pass n r s = (if alarm_ends n (alarm_buffer s) r then (Return True, ?s\<lparr>logs := logs s @ [''Alarm server ended'']\<rparr>)
      else if alarm_overreads (alarm_buffer s) r then (Undefined, ?s) else (q, s'))"
    using ends body(1) by (simp add: Received alarm_pass_def andthen_def [of "alarm_receive _"] recv andthen_def [of "reads _"]
        andthen_def [of "log_msg _"])
  then show ?thesis
    using kept kept' body(3) by (auto simp: alarm_round_def try_catch_def andthen_def)
qed

text \<open>The passes up to the one that does not go on.\<close>

lemma alarm_loop_append:
  "alarm_loop n (rs @ rs') s = (case alarm_loop n rs s of
      (Return False, s1) \<Rightarrow> alarm_loop n rs' s1 | other \<Rightarrow> other)"
  by (induction rs arbitrary: s)
    (auto simp: andthen_def split: prod.splits outcome.splits bool.splits)

lemma alarm_loop_outcome:
  assumes "length (alarm_buffer s) = 512" "list_all (from_port n) rs"
  shows "(\<exists>s'. alarm_loop n rs s = (Return False, s') \<and> buffer_kept (alarm_buffer s) (alarm_buffer s')) \<or>
    (\<exists>pre r post s1 s'. rs = pre @ r # post \<and> alarm_loop n pre s = (Return False, s1) \<and>
       buffer_kept (alarm_buffer s) (alarm_buffer s1) \<and>
       (alarm_ends n (alarm_buffer s1) r \<and> alarm_loop n rs s = (Return True, s') \<or>
        \<not> alarm_ends n (alarm_buffer s1) r \<and> alarm_overreads (alarm_buffer s1) r \<and> alarm_loop n rs s = (Undefined, s')))"
  using assms(2)
proof (induction rs rule: rev_induct)
  case Nil
  then show ?case using assms(1) by (simp add: buffer_kept_def)
next
  case (snoc r rs)
  consider s1 where "alarm_loop n rs s = (Return False, s1)" "buffer_kept (alarm_buffer s) (alarm_buffer s1)"
    | pre r' post s1 s' where "rs = pre @ r' # post" "alarm_loop n pre s = (Return False, s1)"
      "buffer_kept (alarm_buffer s) (alarm_buffer s1)"
      "alarm_ends n (alarm_buffer s1) r' \<and> alarm_loop n rs s = (Return True, s') \<or>
        \<not> alarm_ends n (alarm_buffer s1) r' \<and> alarm_overreads (alarm_buffer s1) r' \<and> alarm_loop n rs s = (Undefined, s')"
    using snoc.IH snoc.prems by auto
  then show ?case
  proof cases
    case 1
    obtain s' where s': "alarm_round n r s1 = ((if alarm_ends n (alarm_buffer s1) r then Return True
        else if alarm_overreads (alarm_buffer s1) r then Undefined else Return False), s')"
        "buffer_kept (alarm_buffer s1) (alarm_buffer s')"
      using alarm_round_outcome [of s1 n r] 1(2) snoc.prems by (auto simp: buffer_kept_def)
    then have "alarm_loop n (rs @ [r]) s = ((if alarm_ends n (alarm_buffer s1) r then Return True
        else if alarm_overreads (alarm_buffer s1) r then Undefined else Return False), s')"
      using 1(1) by (simp add: alarm_loop_append andthen_def)
    then show ?thesis
      using 1 buffer_kept_trans [OF 1(2) s'(2)]
      by (cases "alarm_ends n (alarm_buffer s1) r"; cases "alarm_overreads (alarm_buffer s1) r") (simp; blast)+
  next
    case 2
    have eq: "alarm_loop n (rs @ [r]) s = alarm_loop n rs s" using 2(4) by (auto simp: alarm_loop_append)
    show ?thesis
      unfolding eq using 2 by (intro disjI2 exI [of _ pre] exI [of _ r'] exI [of _ "post @ [r]"] exI [of _ s1] exI [of _ s']) simp
  qed
qed

end
