(* ===== verification/CentralSteps.thy ===== *)
theory CentralSteps
  imports CentralMain
begin

text \<open>
  The threads of the central station together: the invariant of the whole state, and the
  relation of the states that one step of any thread connects.
\<close>

section \<open>Invariant\<close>

text \<open>
  The buffers keep the size of their declarations, the timeout is one that
  \<open>setsockopt\<close> can take, and the addresses that are left in a polling round are a
  part of an ordered list without repetitions.
\<close>

fun phase_ok :: "polling_phase \<Rightarrow> bool" where
  "phase_ok (Poll_ask as) = sorted_wrt (<) as"
| "phase_ok _ = True"

definition central_ok :: "'a Central_scheme \<Rightarrow> bool" where
  "central_ok s \<longleftrightarrow> web_ok s \<and> length (alarm_buffer s) = 512 \<and> length (polling_buffer s) = 1 \<and>
     phase_ok (polling s) \<and> 0 \<le> fst (receive_timeout (polling_socket s)) \<and>
     0 \<le> snd (receive_timeout (polling_socket s)) \<and> snd (receive_timeout (polling_socket s)) < 1000000"

interpretation central: web_frame central_ok
  by unfold_locales (simp_all add: central_ok_def web_ok_def comm_ok_def client_ok_def)

lemma timeval_of_ok:
  "0 \<le> fst (timeval_of ms)" "0 \<le> snd (timeval_of ms)" "snd (timeval_of ms) < 1000000"
proof -
  have m: "uint (ms mod 1000) < 1000"
    by (simp add: uint_mod_distrib)
  then have "uint (1000 * (ms mod 1000)) = 1000 * uint (ms mod 1000)"
    by (simp add: uint_word_ariths)
  with m show "snd (timeval_of ms) < 1000000" by (simp add: timeval_of_def)
qed (simp_all add: timeval_of_def)

lemma server_receive_length:
  assumes "server_receive r buf sz srv = (Return (k, buf'), srv')" "sz \<le> length buf"
  shows "length buf' = length buf"
  using assms by (cases r) (auto simp: Let_def)

lemma keeps_central_basics:
  "keeps central_ok (on_alarm_server m)" "keeps central_ok (on_polling_server m)"
  "keeps central_ok (poll_timeout n ms)" "keeps central_ok (change (\<lambda>s. s\<lparr>data_txt := d\<rparr>))"
  "keeps central_ok (save_table n opens)" "keeps central_ok get_addresses"
  "phase_ok p \<Longrightarrow> keeps central_ok (goto_phase p)"
  using timeval_of_ok
  by (auto simp: keeps_def on_alarm_server_def on_polling_server_def poll_timeout_def setReceiveTimeout_def Let_def
      save_table_apply get_addresses_def goto_phase_def central_ok_def web_ok_def comm_ok_def split: prod.split option.split)

lemma keeps_receives: "keeps central_ok (alarm_receive r)" "keeps central_ok (poll_receive_byte r)"
  by (cases r; auto simp: keeps_def alarm_receive_def poll_receive_byte_def andthen_def Let_def
      on_alarm_server_def on_polling_server_def central_ok_def web_ok_def comm_ok_def)+

lemma keeps_clear: "keeps central_ok (change (\<lambda>s. s\<lparr>alarm_buffer := replicate 512 (CHR 0x00)\<rparr>))"
  by (simp add: keeps_def central_ok_def web_ok_def comm_ok_def)

lemma keeps_handle_alarm: "keeps central_ok (handle_alarm n addr msg)"
  unfolding handle_alarm_def Let_def by (auto intro!: central.keeps_rules)

lemma keeps_alarm_round: "keeps central_ok (alarm_round n r)"
  unfolding alarm_round_def alarm_pass_def
  by (auto intro!: central.keeps_rules keeps_handle_alarm keeps_central_basics keeps_receives keeps_clear)

lemma keeps_polling_step: "keeps central_ok (polling_step n t r opens)"
proof (rule keepsI)
  fix s :: "'a Central_scheme" assume s: "central_ok s"
  have recv: "keeps central_ok (poll_receive n r)"
    unfolding poll_receive_def by (auto intro!: central.keeps_rules keeps_receives)
  show "central_ok (snd (polling_step n t r opens s))"
  proof (cases "polling s")
    case Poll_begin
    have "sorted_wrt (<) (om_keys (sensors s))"
      using s by (simp add: central_ok_def web_ok_def comm_ok_def ordered_def om_keys_def)
    then have "keeps central_ok (if om_keys (sensors s) \<noteq> [] then
          andthen (poll_timeout n (poll_time (length (om_keys (sensors s))))) (\<lambda>_.
          goto_phase (Poll_ask (om_keys (sensors s))))
        else andthen (poll_timeout n (of_nat (loop_time * 1000))) (\<lambda>_. goto_phase Poll_wait))"
      by (auto intro!: central.keeps_rules keeps_central_basics)
    from keepsD [OF this s] show ?thesis
      by (simp add: polling_step_def Poll_begin get_addresses_def andthen_def [of "reads _"])
  next
    case (Poll_ask as)
    have "as = it # rest \<Longrightarrow> phase_ok (Poll_ask rest)" for it rest
      using s Poll_ask by (simp add: central_ok_def)
    then have "keeps central_ok (case as of [] \<Rightarrow> goto_phase Poll_save | it # rest \<Rightarrow>
        andthen (ask_for_values n t it) (\<lambda>_. andthen (poll_receive n r) (\<lambda>ended.
        goto_phase (if ended then Poll_ended else Poll_ask rest))))"
      using recv
      by (auto intro!: central.keeps_rules central.keeps_comm_ops keeps_central_basics split: list.split)
    from keepsD [OF this s] show ?thesis
      by (cases as) (simp_all add: polling_step_def Poll_ask)
  next
    case Poll_wait
    have "keeps central_ok (andthen (poll_receive n r) (\<lambda>ended. goto_phase (if ended then Poll_ended else Poll_save)))"
      using recv by (auto intro!: central.keeps_rules keeps_central_basics)
    from keepsD [OF this s] show ?thesis by (simp add: polling_step_def Poll_wait)
  next
    case Poll_save
    have "keeps central_ok (andthen (save_table n opens) (\<lambda>_.
        andthen (log_msg ''Saving list of sensors to file'') (\<lambda>_. goto_phase Poll_begin)))"
      by (auto intro!: central.keeps_rules keeps_central_basics)
    from keepsD [OF this s] show ?thesis by (simp add: polling_step_def Poll_save)
  qed (use s in \<open>simp add: polling_step_def\<close>)
qed


section \<open>Interleavings\<close>

text \<open>
  One step of the running station is a request served, a round of the scripts, a
  datagram at the client, a pass of the alarm server or a step of the polling thread,
  in any order.  A step has to return: an exception that leaves one of them ends the
  program.
\<close>

inductive central_step :: "'n central_env_scheme \<Rightarrow> Central \<Rightarrow> Central \<Rightarrow> bool" for n where
  Web_request: "serve n t rnd sends r s = (Return answer, s') \<Longrightarrow> central_step n s s'"
| Script_round: "execute_round n t f buf s = (Return next, s') \<Longrightarrow> central_step n s s'"
| Client_datagram: "receiver_step n addr data s = (Return ended, s') \<Longrightarrow> central_step n s s'"
| Alarm_datagram: "alarm_round n r s = (Return ended, s') \<Longrightarrow> central_step n s s'"
| Polling: "polling_step n t r opens s = (Return (), s') \<Longrightarrow> central_step n s s'"

inductive central_reachable :: "'n central_env_scheme \<Rightarrow> Central \<Rightarrow> bool" for n where
  Started: "length buf = 512 \<Longrightarrow> length c = 1 \<Longrightarrow>
     new_UDPsocket n 7503 d reuse bound = Inr sock \<Longrightarrow>
     start_up n ts home saved x0 from_file (new_Central sock a buf c) = (Return (), s) \<Longrightarrow> central_reachable n s"
| Stepped: "central_reachable n s \<Longrightarrow> central_step n s s' \<Longrightarrow> central_reachable n s'"

inductive_cases central_stepE: "central_step n s s'"

lemma new_Central_ok: "length buf = 512 \<Longrightarrow> length c = 1 \<Longrightarrow> receive_timeout sock = (0, 0) \<Longrightarrow> central_ok (new_Central sock a buf c)"
  by (simp add: central_ok_def web_ok_def comm_ok_def sessions_ok_def new_Central_def Communicator.defs
      new_Communicator_def new_SensorList_def new_UDPClient_def ordered_def)

lemma keeps_init_loop: "keeps central_ok (init_loop n ts i stream addr x)"
proof (induction n ts i stream addr x rule: init_loop.induct)
  case (1 n ts i stream addr x)
  then show ?case
    by (subst init_loop.simps)
       (auto intro!: central.keeps_rules central.keeps_comm_ops split: prod.split)
qed

lemma keeps_start_up: "keeps central_ok (start_up n ts home saved x0 from_file)"
  unfolding start_up_def init_from_file_def by (auto intro!: central.keeps_rules keeps_init_loop)

lemma keeps_Return: "keeps I m \<Longrightarrow> m s = (Return a, s') \<Longrightarrow> I s \<Longrightarrow> I s'"
  by (metis keepsD snd_conv)

lemma central_step_ok: "central_step n s s' \<Longrightarrow> central_ok s \<Longrightarrow> central_ok s'"
  by (erule central_stepE)
     (auto dest: keeps_Return [OF central.keeps_serve] keeps_Return [OF central.keeps_execute_round]
        keeps_Return [OF central.keeps_receiver_step] keeps_Return [OF keeps_alarm_round]
        keeps_Return [OF keeps_polling_step])

lemma central_reachable_ok: "central_reachable n s \<Longrightarrow> central_ok s"
proof (induction rule: central_reachable.induct)
  case (Started buf c d reuse bound sock ts home saved x0 from_file a s)
  then have "receive_timeout sock = (0, 0)" by (auto simp: new_UDPsocket_def split: if_splits)
  with Started show ?case
    using keepsD [OF keeps_start_up new_Central_ok, of buf c sock n ts home saved x0 from_file a] by simp
next
  case (Stepped s s')
  then show ?case by (blast intro: central_step_ok)
qed

section \<open>A concrete instance\<close>

definition example_central_env :: central_env where
  "example_central_env = web_env.extend example_web_env \<lparr>setsockopt = (\<lambda>_. 0), home_dir = Some ''/root''\<rparr>"

definition example_socket :: UDPsocket where
  "example_socket = \<lparr>fd = 3, ownAddress = Address_any example_net 7503, send_timeout = (0, 0), receive_timeout = (0, 0)\<rparr>"

definition example_central :: Central where
  "example_central = snd (add_sensor ''::1'' (new_Central example_socket (loopback6 0) (replicate 512 (CHR 0x00)) [CHR 0x00]))"

lemma example_central_simps [simp]:
  "sensors example_central = [(''::1'', new_SensorInfo)]" "sensor_port2 example_central = ''7001''"
  "sensor_port1 example_central = ''7000''" "comm_max_answer_time example_central = 5"
  "length (alarm_buffer example_central) = 512" "alarm_buffer example_central = replicate 512 (CHR 0x00)"
  "polling example_central = Poll_begin"
  "client example_central = new_UDPClient 7501 (Some (Callback ''default_callback''))"
  by (simp_all add: example_central_def new_Central_def Communicator.defs new_Communicator_def new_SensorList_def
      client_port_def)

lemma example_central_env_simps [simp]:
  "sendto example_central_env d a = int (length d)"
  "split example_central_env = split_blank"
  "incrementPort example_central_env (loopback6 p) = Inr (loopback6 (p + 1))"
  "getPort example_central_env (loopback6 p) = Inr p"
  "setsockopt example_central_env x = 0" "home_dir example_central_env = Some ''/root''"
  "isLoopback example_central_env (loopback6 p) q \<longleftrightarrow> p = q"
  "hostToString example_central_env (loopback6 p) = Inr ''::1''"
  "toString example_central_env (loopback6 p) = Inr (''::1 :'' @ show_nat (unat p))"
  "resolve example_central_env ''::1'' ''7000'' s = (Return (loopback6 7000, ''::1''), s)"
  "resolve example_central_env ''::1'' ''7001'' s = (Return (loopback6 7001, ''::1''), s)"
  by (simp_all add: example_central_env_def web_env.defs example_web_env_def env.defs example_env_def net.defs
      example_net_def incrementPort_def loopback6_def isLoopback_def in6addr_loopback_def
      hostToString_def toString_def portToString_def getPort_def starts_with_def resolve_def
      Address_host_def AddressInfo_def try_catch_def andthen_def c_str_def)

section \<open>Properties\<close>

text \<open>
  C16: In every state that the threads of the station reach from a start with or without the
  saved sensors, in any interleaving of requests, commands, datagrams, alarms and steps
  of the polling thread: the tables are well-formed, the buffers have their declared
  sizes, the rest of a polling round is ordered, and the timeout is valid.
\<close>

theorem central_reachable_type:
  assumes "central_reachable n s"
  shows "central_ok s"
  using assms by (rule central_reachable_ok)

theorem central_reachable_type_witness:
  "central_ok (snd (polling_step example_central_env (\<lambda>_. 0) (Recv_failed True) True
     (new_Central example_socket (loopback6 0) (replicate 512 (CHR 0x00)) [CHR 0x00])))"
proof (rule central_reachable_type [where n = example_central_env])
  let ?s = "new_Central example_socket (loopback6 0) (replicate 512 (CHR 0x00)) [CHR 0x00]"
  have "sensors ?s = []" "polling ?s = Poll_begin"
    by (simp_all add: new_Central_def Communicator.defs new_Communicator_def new_SensorList_def)
  then have "polling_step example_central_env (\<lambda>_. 0) (Recv_failed True) True ?s =
      (Return (), snd (polling_step example_central_env (\<lambda>_. 0) (Recv_failed True) True ?s))"
    by (simp add: polling_step_def get_addresses_def andthen_def poll_timeout_def setReceiveTimeout_def Let_def goto_phase_def
        om_keys_def example_central_env_def web_env.defs)
  moreover have "central_reachable example_central_env ?s"
    by (rule Started [where from_file = False and a = "loopback6 0" and d = 3 and reuse = 0 and bound = 0])
       (simp_all add: start_up_def new_UDPsocket_def example_socket_def Address_any_def
          example_central_env_def web_env.defs example_web_env_def env.defs example_env_def net.defs example_net_def)
  ultimately show "central_reachable example_central_env
      (snd (polling_step example_central_env (\<lambda>_. 0) (Recv_failed True) True ?s))"
    by (blast intro: Stepped Polling)
qed

lemma timeval_of_nat:
  assumes "q < 2 ^ 32"
  shows "timeval_of (of_nat q) = (int (q div 1000), int (1000 * (q mod 1000)))"
proof -
  have u: "unat (of_nat q :: 32 word) = q" using assms by (simp add: unat_of_nat)
  have m: "unat (of_nat q mod 1000 :: 32 word) = q mod 1000" by (simp add: unat_mod_distrib u)
  have "1000 * (q mod 1000) < 2 ^ 32"
    using mod_less_divisor [of 1000 q] by simp
  then have "unat (1000 * (of_nat q mod 1000) :: 32 word) = 1000 * (q mod 1000)"
    by (simp add: unat_word_ariths m u)
  moreover have "unat (of_nat q div 1000 :: 32 word) = q div 1000" by (simp add: unat_div_distrib u)
  ultimately show ?thesis by (simp add: timeval_of_def uint_nat)
qed

text \<open>
  C36: The pauses of one polling round add up to at most the 40 seconds of the loop, and
  miss them by less than a millisecond per sensor; the microseconds are in range.
  With more than 40000 sensors the timeout is zero, which for the socket
  means none at all, so that the thread waits for a datagram for ever.
\<close>

theorem polling_pauses:
  assumes "0 < k" "timeval_of (poll_time k) = (sec, usec)"
  shows "0 \<le> usec \<and> usec < 1000000 \<and> int k * (sec * 1000 + usec div 1000) \<le> 40000 \<and>
    40000 < int k * (sec * 1000 + usec div 1000 + 1) \<and> ((sec, usec) = (0, 0) \<longleftrightarrow> 40000 < k)"
proof -
  define q where "q = 40000 div k"
  have "q \<le> 40000" by (simp add: q_def)
  then have "q < 2 ^ 32" by simp
  moreover have "poll_time k = of_nat q" by (simp add: poll_time_def loop_time_def q_def)
  ultimately have t: "sec = int (q div 1000)" "usec = int (1000 * (q mod 1000))"
    using timeval_of_nat [of q] assms(2) by (simp_all del: of_nat_mult)
  have ms: "sec * 1000 + usec div 1000 = int q" by (simp add: t zdiv_int zmod_int)
  have "k * q \<le> 40000" "40000 < k * (q + 1)"
    using assms(1) dividend_less_div_times [of k 40000] by (simp_all add: q_def mult.commute)
  then have "int (k * q) \<le> 40000" "40000 < int (k * (q + 1))" by linarith+
  then have "int k * int q \<le> 40000" "40000 < int k * (int q + 1)" by (simp_all add: algebra_simps)
  moreover have "(sec, usec) = (0, 0) \<longleftrightarrow> q = 0"
    using ms by (auto simp: t)
  moreover have "q = 0 \<longleftrightarrow> 40000 < k" using assms(1) by (simp add: q_def div_eq_0_iff)
  ultimately show ?thesis using ms by (simp add: t)
qed

theorem polling_pauses_witness:
  "timeval_of (poll_time 3) = (13, 333000) \<and> int 3 * (13 * 1000 + 333000 div 1000) \<le> 40000"
proof -
  have "timeval_of (poll_time 3) = (13, 333000)" by (simp add: timeval_of_def poll_time_def loop_time_def)
  with polling_pauses [of 3] show ?thesis by simp
qed

text \<open>
  C23: In a polling round the thread survives the question to the next address exactly when
  the sensor is still in the table: if another thread has erased it since the addresses
  were read, the exception leaves the thread, which ends the station.
\<close>

theorem polling_step_survives:
  assumes "polling s = Poll_ask (it # rest)" "resolve n it (sensor_port2 s) s = (Return (a, host), s)"
    and "toString n a = Inr key" "0 \<le> sendto n ''get_value'' a" 
  shows "\<exists>r' s'. polling_step n t r opens s = (r', s') \<and>
    (if om_find host (sensors s) = None then r' = Throw (no_sensor host)
     else r' = Return () \<and> (polling s' = Poll_ask rest \<or> polling s' = Poll_ended))"
proof (cases "om_find host (sensors s)")
  case None
  then show ?thesis
    using assms by (simp add: polling_step_def andthen_def ask_for_values_unknown)
next
  case (Some info)
  have "\<exists>s1. ask_for_values n t it s = (Return (), s1)"
  proof (cases "t 0 - last_value_question info < comm_max_answer_time s")
    case True
    with Some assms show ?thesis by (simp add: ask_for_values_recent)
  next
    case False
    with Some assms show ?thesis
      using set_last_value_question_found [of host "s\<lparr>logs := l, client := c\<rparr>" info for l c]
      by (simp add: ask_for_values_sent) fastforce
  qed
  then obtain s1 where s1: "ask_for_values n t it s = (Return (), s1)" by blast
  moreover have "\<exists>ended s2. poll_receive n r s1 = (Return ended, s2)"
    by (cases r) (auto simp: poll_receive_def poll_receive_byte_def andthen_def on_polling_server_def Let_def)
  ultimately show ?thesis
    using assms(1) Some by (fastforce simp: polling_step_def andthen_def goto_phase_def)
qed

theorem polling_step_survives_witness:
  "\<exists>r' s'. polling_step example_central_env (\<lambda>_. 100) (Recv_failed True) True
      (snd (erase_sensor ''::1'' (example_central\<lparr>polling := Poll_ask [''::1'']\<rparr>))) = (r', s') \<and>
     r' = Throw (no_sensor ''::1'')"
  using polling_step_survives [where s = "snd (erase_sensor ''::1'' (example_central\<lparr>polling := Poll_ask [''::1'']\<rparr>))" and
      it = "''::1''" and rest = "[]" and n = example_central_env and a = "loopback6 7001" and host = "''::1''" and
      key = "''::1 :'' @ show_nat (unat (7001 :: 16 word))" and t = "\<lambda>_. 100" and r = "Recv_failed True"]
  by (simp add: erase_sensor_apply has_sensor_def om_find_def om_erase_def)



text \<open>
  The uninitialised buffer: an empty datagram from the loopback address ends a server whose buffer
  began with 0xFF, and a message is read past the end of a buffer without a zero.
\<close>

lemma alarm_buffer_uninitialised:
  "fst (alarm_round example_central_env (Received [] (loopback6 7501)) (example_central\<lparr>alarm_buffer := replicate 512 (CHR 0xFF)\<rparr>)) =
     Return True"
  "fst (alarm_round example_central_env (Received ''alarm'' (loopback6 9)) (example_central\<lparr>alarm_buffer := replicate 512 (CHR 0xFF)\<rparr>)) =
     Undefined"
proof -
  let ?s = "example_central\<lparr>alarm_buffer := replicate 512 (CHR 0xFF)\<rparr>"
  show "fst (alarm_round example_central_env (Received [] (loopback6 7501)) ?s) = Return True"
    using alarm_round_outcome [of ?s example_central_env "Received [] (loopback6 7501)"]
    by (auto simp: client_port_def)
  show "fst (alarm_round example_central_env (Received ''alarm'' (loopback6 9)) ?s) = Undefined"
    using alarm_round_outcome [of ?s example_central_env "Received ''alarm'' (loopback6 9)"]
    by (auto simp: client_port_def)
qed

end
