(* ===== verification/HttpStation.thy ===== *)
theory HttpStation
  imports HttpService HttpSequence CentralSteps
begin

text \<open>
  The HTTP server with the handlers of the station: what its connections do with the requests
  of a browser, and what they leave of the station, in any interleaving.
\<close>

section \<open>The handlers of the station\<close>

text \<open>The clock, the random numbers and the results of the writes differ from request to request.\<close>

definition station_handler ::
  "'n web_env_scheme \<Rightarrow> clock \<Rightarrow> (nat \<Rightarrow> nat) \<Rightarrow> bool list \<Rightarrow> 'a Web_scheme handler" where
  "station_handler n t rnd sends = (\<lambda>r body. serve n t rnd sends (RequestHead.extend r \<lparr>content = body\<rparr>))"

definition station_handlers :: "'n web_env_scheme \<Rightarrow> 'a Web_scheme handler \<Rightarrow> bool" where
  "station_handlers n h \<longleftrightarrow> (\<exists>t rnd sends. h = station_handler n t rnd sends)"

interpretation station: http_application "station_handlers n" central_ok for n
  by unfold_locales (auto simp: station_handlers_def station_handler_def intro: central.keeps_serve)

section \<open>Requests of a browser\<close>

text \<open>A request whose handler returns is answered with what the handler has written.\<close>

lemma station_serves:
  assumes "find_resource resource default_resource r = Some route"
    and "run_route n t rnd sends route (RequestHead.extend r \<lparr>content = body\<rparr>) (s\<lparr>response := []\<rparr>) = (Return (), s')"
  shows "station_handler n t rnd sends r body s = (Return (Some (response s')), s')"
proof -
  have "RequestHead.truncate (RequestHead.extend r \<lparr>content = body\<rparr>) = r" by (simp add: RequestHead.defs)
  then show ?thesis using assms by (simp add: station_handler_def serve_def andthen_def try_catch_def)
qed

lemma extended_request [simp]:
  "req_header (RequestHead.extend r \<lparr>content = body\<rparr>) = req_header r" "content (RequestHead.extend r \<lparr>content = body\<rparr>) = body"
  by (simp_all add: RequestHead.defs)

lemma station_login:
  assumes "req_path r = ''/RoSA/login''" "req_method r = ''POST''" "read_json n body = Inr pt" "pt ''username'' = Some user"
  shows "\<exists>s'. station_handler n t rnd sends r body s =
      (Return (Some (write_content (iter n) success_ok [] (login_fields (generate_session_id rnd)))), s') \<and>
    session_list s' = (session_list s)\<lparr>sessions := om_emplace (generate_session_id rnd) () (sessions (session_list s))\<rparr> \<and>
    sensors s' = sensors s \<and> max_answer_time s' = max_answer_time s"
proof -
  let ?r = "RequestHead.extend r \<lparr>content = body\<rparr>"
  obtain s' where s': "handle_login n rnd ?r (s\<lparr>response := []\<rparr>) = (Return (), s')"
      "session_list s' = (session_list s)\<lparr>sessions := om_emplace (generate_session_id rnd) () (sessions (session_list s))\<rparr>"
      "sensors s' = sensors s" "max_answer_time s' = max_answer_time s"
      "response s' = write_content (iter n) success_ok [] (login_fields (generate_session_id rnd))"
    using handle_login_done [of n ?r pt user rnd "s\<lparr>response := []\<rparr>"] assms(3,4) by auto
  have "find_resource resource default_resource r = Some R_login" using assms(1,2) by (simp add: find_resource_station)
  from station_serves [OF this, of n t rnd sends body s s'] s' show ?thesis by simp
qed

lemma station_logout:
  assumes "req_path r = ''/RoSA/logout''" "req_method r = ''POST''" "legal_order (iter n)" "list_all is_digit sid" "sid \<noteq> []"
    and "mm_find (iter n) ''Cookie'' (req_header r) = Some (cookie_of sid)" "has_session (session_list s) sid"
  shows "\<exists>s'. station_handler n t rnd sends r body s = (Return (Some (write_status (iter n) success_ok [])), s') \<and>
    session_list s' = (session_list s)\<lparr>sessions := om_erase sid (sessions (session_list s))\<rparr> \<and>
    sensors s' = sensors s \<and> max_answer_time s' = max_answer_time s"
proof -
  let ?r = "RequestHead.extend r \<lparr>content = body\<rparr>"
  obtain s' where s': "handle_logout n ?r (s\<lparr>response := []\<rparr>) = (Return (), s')"
      "session_list s' = (session_list s)\<lparr>sessions := om_erase sid (sessions (session_list s))\<rparr>"
      "sensors s' = sensors s" "max_answer_time s' = max_answer_time s" "response s' = write_status (iter n) success_ok []"
    using handle_logout_done [OF assms(3-5), of ?r "s\<lparr>response := []\<rparr>"] assms(6,7) by auto
  have "find_resource resource default_resource r = Some R_logout" using assms(1,2) by (simp add: find_resource_station)
  from station_serves [OF this, of n t rnd sends body s s'] s' show ?thesis by simp
qed

lemma station_lists:
  fixes s :: "'a Web_scheme"
  assumes "req_path r = ''/RoSA/sensor''" "req_method r = ''GET''" "legal_order (iter n)" "list_all is_digit sid" "sid \<noteq> []"
    and "mm_find (iter n) ''Cookie'' (req_header r) = Some (cookie_of sid)"
  shows "\<exists>s'. station_handler n t rnd sends r body s = (Return (Some
      (if has_session (session_list s) sid
       then write_content (iter n) success_ok (''['' @ sensor_array (get_sensors_loop (max_answer_time s) t 0 (sensors s)) @ '']'')
         [(''Content-Type'', ''application/json'')]
       else write_status (iter n) client_error_forbidden [])), s') \<and>
    sensors s' = sensors s \<and> session_list s' = session_list s"
proof -
  let ?r = "RequestHead.extend r \<lparr>content = body\<rparr>" and ?s = "s\<lparr>response := []\<rparr>"
  obtain states s' where s': "get_sensor_list t ?s = (Return states, ?s)" "handle_list n t ?r ?s = (Return (), s')"
      "sensors s' = sensors s" "session_list s' = session_list s"
      and resp: "if has_session (session_list ?s) sid
       then response s' = response ?s @ write_content (iter n) success_ok
         (''['' @ sensor_array states @ '']'') [(''Content-Type'', ''application/json'')]
       else s' = ?s\<lparr>response := response ?s @ write_status (iter n) client_error_forbidden []\<rparr>"
    using handle_list_cookie [OF assms(3-5), of ?r t ?s] assms(6) by auto
  have "states = get_sensors_loop (max_answer_time s) t 0 (sensors s)"
    using s'(1) by (simp add: get_sensor_list_def get_sensors_def)
  then have "response s' = (if has_session (session_list s) sid
       then write_content (iter n) success_ok (''['' @ sensor_array (get_sensors_loop (max_answer_time s) t 0 (sensors s)) @ '']'')
         [(''Content-Type'', ''application/json'')]
       else write_status (iter n) client_error_forbidden [])"
    using resp by (cases "has_session (session_list s) sid") simp_all
  moreover have "find_resource resource default_resource r = Some R_list" using assms(1,2) by (simp add: find_resource_station)
  ultimately show ?thesis using station_serves [of r R_list n t rnd sends body s s'] s'(2-4) by simp
qed

text \<open>The handlers of a whole session, called in turn.\<close>

lemma session_in_turn:
  fixes s :: "'a Web_scheme"
  assumes "legal_order (iter n)" "web_ok s" "\<not> has_session (session_list s) (generate_session_id rnd)"
    and "req_path login = ''/RoSA/login''" "req_method login = ''POST''"
    and "read_json n credentials = Inr pt" "pt ''username'' = Some user"
    and "req_path listing = ''/RoSA/sensor''" "req_method listing = ''GET''"
    and "mm_find (iter n) ''Cookie'' (req_header listing) = Some (cookie_of (generate_session_id rnd))"
    and "req_path logout = ''/RoSA/logout''" "req_method logout = ''POST''"
    and "mm_find (iter n) ''Cookie'' (req_header logout) = Some (cookie_of (generate_session_id rnd))"
  shows "\<exists>s'. serve_in_turn [(station_handler n t1 rnd ws1, login, Whole credentials), (station_handler n t2 rnd2 ws2, listing, Whole []),
      (station_handler n t3 rnd3 ws3, logout, Whole []), (station_handler n t4 rnd4 ws4, listing, Whole [])] s =
    (Return [write_content (iter n) success_ok [] (login_fields (generate_session_id rnd)),
       write_content (iter n) success_ok (''['' @ sensor_array (get_sensors_loop (max_answer_time s) t2 0 (sensors s)) @ '']'')
         [(''Content-Type'', ''application/json'')],
       write_status (iter n) success_ok [], write_status (iter n) client_error_forbidden []], s') \<and>
    sensors s' = sensors s \<and> session_list s' = session_list s"
proof -
  let ?sid = "generate_session_id rnd" and ?l = "session_list s"
  let ?l1 = "?l\<lparr>sessions := om_emplace ?sid () (sessions ?l)\<rparr>"
  let ?list = "get_sensors_loop (max_answer_time s) t2 0 (sensors s)"
  have sid: "list_all is_digit ?sid" "?sid \<noteq> []" using generate_session_id_shape [of rnd] by auto
  have ok: "ordered (sessions ?l)" using assms(2) by (simp add: web_ok_def sessions_ok_def)
  have has: "has_session ?l1 ?sid" using ok by (simp add: has_session_def omap_simps)
  have none: "om_find ?sid (sessions ?l) = None" using assms(3) has_session_def by blast
  obtain s1 where s1: "station_handler n t1 rnd ws1 login credentials s =
        (Return (Some (write_content (iter n) success_ok [] (login_fields ?sid))), s1)"
      "session_list s1 = ?l1" "sensors s1 = sensors s" "max_answer_time s1 = max_answer_time s"
    using station_login [OF assms(4-7)] by blast
  obtain s2 where s2: "station_handler n t2 rnd2 ws2 listing [] s1 = (Return (Some (write_content (iter n) success_ok
        (''['' @ sensor_array ?list @ '']'') [(''Content-Type'', ''application/json'')])), s2)"
      "session_list s2 = ?l1" "sensors s2 = sensors s"
    using station_lists [OF assms(8,9,1) sid assms(10), of t2 rnd2 ws2 "[]" s1] s1(2-4) has by auto
  obtain s3 where s3: "station_handler n t3 rnd3 ws3 logout [] s2 = (Return (Some (write_status (iter n) success_ok [])), s3)"
      "session_list s3 = ?l" "sensors s3 = sensors s"
    using station_logout [OF assms(11,12,1) sid assms(13), of s2 t3 rnd3 ws3 "[]"] s2(2,3) has om_erase_emplace_fresh [OF ok none]
    by auto
  obtain s4 where s4: "station_handler n t4 rnd4 ws4 listing [] s3 =
        (Return (Some (write_status (iter n) client_error_forbidden [])), s4)"
      "session_list s4 = ?l" "sensors s4 = sensors s"
    using station_lists [OF assms(8,9,1) sid assms(10), of t4 rnd4 ws4 "[]" s3] s3(2,3) assms(3) by auto
  show ?thesis using s4(2,3) by (simp add: andthen_def s1(1) s2(1) s3(1) s4(1))
qed

text \<open>A cookie with a number fits a line of a head.\<close>

lemma cookie_plain: "list_all is_digit sid \<Longrightarrow> plain_field (''Cookie'', cookie_of sid)"
  by (auto simp: plain_field_def cookie_of_def list_all_iff is_digit_def)

section \<open>Properties\<close>

text \<open>
  C13: In every state that the HTTP server of the station can reach, with any requests, errors,
  time limits and destructions, the invariant of the station holds, no connection hangs in the
  parser, every connection that waits has its timer running with the limit of its operation
  or is closed, and a stop meets living objects only.
\<close>

theorem http_server_invariant:
  fixes a :: "'a Central_scheme"
  assumes "service_reachable cfg (iter n) (station_handlers n) a s" "limited cfg" "central_ok a"
  shows "central_ok (app s) \<and> fst (stop s) = Return () \<and>
    (\<forall>k c. om_find k (objects s) = Some c \<longrightarrow> awaiting c \<noteq> Stuck \<and>
      (pending_operation (awaiting c) \<longrightarrow> timer c = Some (time_limit cfg (awaiting c)) \<or> \<not> socket_open c))"
proof -
  have "service_ok cfg central_ok s" using assms by (rule station.service_reachable_ok)
  then show ?thesis
    using stop_defined [OF pointers_reachable [OF assms(1)] acceptor_reachable [OF assms(1)]]
    by (auto simp: service_ok_def all_connections_ok_def connection_ok_def)
qed

theorem http_server_invariant_witness:
  "\<exists>s. start True (new_Service (new_Central example_socket (loopback6 0) (replicate 512 (CHR 0x00)) [CHR 0x00])) =
      (Return (), s) \<and> central_ok (app (accepted (new_Config 8080) True Accepted 0 s))"
proof -
  let ?a = "new_Central example_socket (loopback6 0) (replicate 512 (CHR 0x00)) [CHR 0x00]"
  obtain s where s: "start True (new_Service ?a) = (Return (), s)" by (simp add: start_apply)
  have "service_reachable (new_Config 8080) (iter example_central_env) (station_handlers example_central_env)
      ?a (accepted (new_Config 8080) True Accepted 0 s)"
    by (rule first_accepted [OF s])
  moreover have "limited (new_Config 8080)" by (simp add: limited_def new_Config_def)
  moreover have "central_ok ?a" by (rule new_Central_ok) (simp_all add: example_socket_def)
  ultimately show ?thesis using s http_server_invariant by blast
qed

text \<open>
  C8: A browser that sends a \<open>GET\<close> for the list of the sensors, in whatever pieces, with a cookie
  that has the id of a session and nothing else, is sent one JSON object for each sensor in order when
  the session is open, and otherwise an empty 403; the sensors and the sessions stay as they are.
\<close>

theorem list_over_http:
  fixes s :: "'a Web_scheme"
  assumes "legal_order (iter n)" "list_all is_digit sid" "sid \<noteq> []"
    and "mm_find (iter n) ''Cookie'' fs = Some (cookie_of sid)" "has_content (iter n) fs []"
    and "plain_head ''GET'' ''/RoSA/sensor'' qs v fs" "fresh cfg c"
    and "arrivals cfg (iter n) (station_handler n t rnd sends) ws (c, s)"
    and "concat ws = head_text ''GET'' ''/RoSA/sensor'' qs v fs" "length (concat ws) < max_request_streambuf_size cfg"
  shows "\<exists>sensor_states c' s'. get_sensor_list t s = (Return sensor_states, s) \<and>
    arrive cfg (iter n) (station_handler n t rnd sends) ws (c, s) = (c', s') \<and>
    sensors s' = sensors s \<and> session_list s' = session_list s \<and>
    awaiting c' = Response_write
      (if has_session (session_list s) sid
       then write_content (iter n) success_ok (''['' @ sensor_array sensor_states @ '']'')
         [(''Content-Type'', ''application/json'')]
       else write_status (iter n) client_error_forbidden []) False"
proof -
  let ?r = "head_parts ''GET'' ''/RoSA/sensor'' qs v fs"
  have "req_path ?r = ''/RoSA/sensor''" "req_method ?r = ''GET''" "mm_find (iter n) ''Cookie'' (req_header ?r) = Some (cookie_of sid)"
    using assms(4) by (simp_all add: head_parts_def)
  from station_lists [OF this(1,2) assms(1-3) this(3), of t rnd sends "[]" s] obtain s' where
      "station_handler n t rnd sends ?r [] s = (Return (Some
        (if has_session (session_list s) sid
         then write_content (iter n) success_ok (''['' @ sensor_array (get_sensors_loop (max_answer_time s) t 0 (sensors s)) @ '']'')
           [(''Content-Type'', ''application/json'')]
         else write_status (iter n) client_error_forbidden [])), s')"
      "sensors s' = sensors s" "session_list s' = session_list s"
    by blast
  then show ?thesis
    using content_arrives [OF assms(6,5,7,8)] assms(9,10)
    by (simp add: dispatch_def send_def get_sensor_list_def get_sensors_def)
qed

theorem list_over_http_witness:
  "\<exists>c' s'. arrive (new_Config 8080) id (station_handler example_web_env (\<lambda>_. 0) (\<lambda>i. i) [])
      [head_text ''GET'' ''/RoSA/sensor'' [] ''1.1'' [(''Cookie'', cookie_of ''12'')]]
      (read (new_Config 8080) (new_Session new_Connection), example_web) = (c', s') \<and>
    awaiting c' = Response_write (write_status id client_error_forbidden []) False"
proof -
  let ?fs = "[(''Cookie'', cookie_of ''12'')]" and ?cfg = "new_Config 8080"
  let ?c = "read ?cfg (new_Session new_Connection)" and ?H = "head_text ''GET'' ''/RoSA/sensor'' [] ''1.1'' [(''Cookie'', cookie_of ''12'')]"
  let ?h = "station_handler example_web_env (\<lambda>_. 0) (\<lambda>i. i) []"
  have plain: "plain_head ''GET'' ''/RoSA/sensor'' [] ''1.1'' ?fs"
    by (simp add: plain_head_def plain_target_def plain_field_def cookie_of_def)
  have fresh: "fresh ?cfg ?c" by (auto simp: fresh_def)
  have find: "mm_find id ''Cookie'' ?fs = Some (cookie_of ''12'')" "has_content id ?fs []"
    by (simp_all add: mm_find_def has_content_def case_insensitive_equal_map)
  have len: "length (concat [?H]) < max_request_streambuf_size ?cfg"
    by (simp add: head_text_def request_line_def header_text_def header_line_def CRLF_def new_Config_def cookie_of_def)
  then have arr: "arrivals ?cfg id ?h [?H] (?c, example_web)"
    using until_head_text [OF plain, of "[]"]
    by (simp add: can_complete_def set_timeout_def read_def new_Session_def)
  have "legal_order (iter example_web_env)" "list_all is_digit ''12''" by (simp_all add: legal_order_def is_digit_def)
  from list_over_http [where n = example_web_env, OF this, of ?fs "[]" "''1.1''" ?cfg ?c "\<lambda>_. 0" "\<lambda>i. i" "[]" "[?H]" example_web]
  show ?thesis using plain fresh find len arr by (auto simp: has_session_def)
qed

text \<open>
  C9: A browser that logs in on a kept connection, asks for the list with the cookie it was given,
  logs out and asks again is sent the cookie, the list of all sensors, an empty answer and
  a 403, in this order and however its requests are split; the sensors and the sessions are
  as they were.
\<close>

theorem session_over_http:
  fixes s :: "'a Web_scheme"
  assumes "legal_order (iter n)" "web_ok s" "\<not> has_session (session_list s) (generate_session_id rnd)"
    and "req_path login = ''/RoSA/login''" "req_method login = ''POST''"
    and "read_json n credentials = Inr pt" "pt ''username'' = Some user"
    and "req_path listing = ''/RoSA/sensor''" "req_method listing = ''GET''"
    and "mm_find (iter n) ''Cookie'' (req_header listing) = Some (cookie_of (generate_session_id rnd))"
    and "req_path logout = ''/RoSA/logout''" "req_method logout = ''POST''"
    and "mm_find (iter n) ''Cookie'' (req_header logout) = Some (cookie_of (generate_session_id rnd))"
    and "map fst xs = [(station_handler n t1 rnd ws1, login, Whole credentials), (station_handler n t2 rnd2 ws2, listing, Whole []),
      (station_handler n t3 rnd3 ws3, logout, Whole []), (station_handler n t4 rnd4 ws4, listing, Whole [])]"
    and "fresh cfg c" "in_turn cfg (iter n) xs (c, s)"
  shows "\<exists>sensor_states c' s'. get_sensor_list t2 s = (Return sensor_states, s) \<and>
    exchanges cfg (iter n) xs (c, s) = (c', s') \<and> sensors s' = sensors s \<and> session_list s' = session_list s \<and>
    delivered c' = delivered c @
      [write_content (iter n) success_ok [] (login_fields (generate_session_id rnd)),
       write_content (iter n) success_ok (''['' @ sensor_array sensor_states @ '']'') [(''Content-Type'', ''application/json'')],
       write_status (iter n) success_ok [], write_status (iter n) client_error_forbidden []]"
proof -
  from session_in_turn [OF assms(1-13), of t1 ws1 t2 rnd2 ws2 t3 rnd3 ws3 t4 rnd4 ws4, folded assms(14)] obtain s' where
    s': "serve_in_turn (map fst xs) s = (Return [write_content (iter n) success_ok [] (login_fields (generate_session_id rnd)),
       write_content (iter n) success_ok (''['' @ sensor_array (get_sensors_loop (max_answer_time s) t2 0 (sensors s)) @ '']'')
         [(''Content-Type'', ''application/json'')],
       write_status (iter n) success_ok [], write_status (iter n) client_error_forbidden []], s')"
      "sensors s' = sensors s" "session_list s' = session_list s"
    by blast
  have "length xs = 4" using arg_cong [OF assms(14), of length] by simp
  then show ?thesis
    using exchanges_in_turn [OF assms(15,16) s'(1)] s'(2,3) by (auto simp: get_sensor_list_def get_sensors_def)
qed

theorem session_over_http_witness:
  "\<exists>xs c' s'. length xs = 4 \<and>
    exchanges (new_Config 8080) id xs (read (new_Config 8080) (new_Session new_Connection), example_web) = (c', s') \<and>
    length (delivered c') = 4 \<and> delivered c' ! 3 = write_status id client_error_forbidden []"
proof -
  let ?cfg = "new_Config 8080" and ?rnd = "\<lambda>i :: nat. i" and ?n = example_web_env
  let ?c = "read ?cfg (new_Session new_Connection)" and ?sid = "generate_session_id ?rnd"
  let ?h = "station_handler ?n (\<lambda>_. 0) ?rnd [] :: Web handler"
  let ?r = "\<lambda>m p fs. head_parts m p [] ''1.1'' fs" and ?fs = "[(''Cookie'', cookie_of ?sid)]"
  let ?login = "?r ''POST'' ''/RoSA/login'' []" and ?list = "?r ''GET'' ''/RoSA/sensor'' ?fs" and ?logout = "?r ''POST'' ''/RoSA/logout'' ?fs"
  let ?xs = "[(?h, ?login, Whole []), (?h, ?list, Whole []), (?h, ?logout, Whole []), (?h, ?list, Whole [])]"
  have fresh: "fresh ?cfg ?c" "delivered ?c = []" by (auto simp: fresh_def new_Connection_def)
  have order: "legal_order (iter ?n)" by (simp add: legal_order_def)
  have new: "\<not> has_session (session_list example_web) ?sid" by (auto simp: has_session_def om_find_def)
  have cookie: "mm_find (iter ?n) ''Cookie'' ?fs = Some (cookie_of ?sid)"
    by (simp add: mm_find_def case_insensitive_equal_map)
  have digits: "list_all is_digit ?sid" "length ?sid = 16" by (rule generate_session_id_shape)+
  have "list_all (short_request ?cfg id) ?xs"
    using cookie_plain [OF digits(1)] digits(2)
    by (simp add: short_request_def proper_request_def head_parts_def plain_head_def plain_target_def
        has_content_def mm_find_def keep_connection_def case_insensitive_equal_map to_lower_def
        request_text_def head_text_def request_line_def header_text_def header_line_def CRLF_def new_Config_def cookie_of_def)
  note short = this
  have routes: "req_path ?login = ''/RoSA/login''" "req_method ?login = ''POST''" "req_path ?list = ''/RoSA/sensor''"
      "req_method ?list = ''GET''" "req_path ?logout = ''/RoSA/logout''" "req_method ?logout = ''POST''"
      "req_header ?list = ?fs" "req_header ?logout = ?fs" by (simp_all add: head_parts_def)
  have json: "read_json ?n [] = Inr (\<lambda>k. if k = ''username'' then Some ''ann'' else None)"
      "(\<lambda>k. if k = ''username'' then Some ''ann'' else None) ''username'' = Some ''ann''" by simp_all
  have cookies: "mm_find (iter ?n) ''Cookie'' (req_header ?list) = Some (cookie_of ?sid)"
      "mm_find (iter ?n) ''Cookie'' (req_header ?logout) = Some (cookie_of ?sid)"
    using cookie routes(7,8) by simp_all
  obtain answers s' where run: "serve_in_turn ?xs example_web = (Return answers, s')" "length answers = length ?xs"
    using session_in_turn [OF order example_web_ok new routes(1,2) json routes(3,4) cookies(1) routes(5,6) cookies(2),
        of "\<lambda>_. 0" "[]" "\<lambda>_. 0" ?rnd "[]" "\<lambda>_. 0" ?rnd "[]" "\<lambda>_. 0" ?rnd "[]"] by force
  have arrives: "in_turn ?cfg (iter ?n) (map one_piece ?xs) (?c, example_web)"
    using in_turn_one_piece [OF fresh(1) short run] by simp
  have handlers: "map fst (map one_piece ?xs) = ?xs" by (simp add: one_piece_def)
  note session_over_http [OF order example_web_ok new routes(1,2) json routes(3,4) cookies(1) routes(5,6) cookies(2) handlers fresh(1) arrives]
  then show ?thesis using fresh(2) by (intro exI [of _ "map one_piece ?xs"]) auto
qed

end
