(* ===== verification/Restart.thy ===== *)
theory Restart
  imports CentralMain
begin

text \<open>
  The start from the file that \<open>write_to_file\<close> left: what \<open>init_from_file\<close> reads from it and
  which questions the station asks then.
\<close>

section \<open>Restarting from the file\<close>

text \<open>Reading back what \<open>write_to_file\<close> wrote.\<close>

definition space_free :: "string \<Rightarrow> bool" where
  "space_free w \<longleftrightarrow> w \<noteq> [] \<and> list_all (\<lambda>c. \<not> is_space c) w"

lemma read_word_written:
  assumes "space_free w" "pre = [] \<or> pre = [CHR 10]"
  shows "read_word w0 (pre @ w @ CHR 32 # r, True) = (w, (CHR 32 # r, True))"
proof -
  obtain c cs where w: "w = c # cs" "\<not> is_space c" "list_all (\<lambda>c. \<not> is_space c) cs"
    using assms(1) by (cases w) (auto simp: space_free_def)
  have sp: "is_space (CHR 32)" "is_space (CHR 10)" by (simp_all add: is_space_def)
  have "dropWhile is_space (pre @ w @ CHR 32 # r) = w @ CHR 32 # r"
    using assms(2) w sp by auto
  moreover have "takeWhile (\<lambda>c. \<not> is_space c) (w @ CHR 32 # r) = w"
      "dropWhile (\<lambda>c. \<not> is_space c) (w @ CHR 32 # r) = CHR 32 # r"
    using assms(1) sp by (auto simp: space_free_def list_all_iff takeWhile_append2 dropWhile_append2)
  ultimately show ?thesis using w by (simp add: read_word_def)
qed

lemma read_float_written:
  assumes "k < 2 ^ 24"
  shows "read_float x0 (CHR 32 # show_nat k @ CHR 10 # r, True) = (f32_of_int (int k), (CHR 10 # r, True))"
proof -
  note d = number_show_nat [of k]
  obtain c cs where c: "show_nat k = c # cs" using d by (cases "show_nat k") auto
  have cd: "is_digit c" using d c by simp
  have nd: "\<not> is_digit (CHR 10)" "is_space (CHR 32)" "to_lower (CHR 10) \<noteq> CHR ''e''"
    by (simp_all add: is_digit_def is_space_def to_lower_def)
  have skip: "dropWhile is_space (CHR 32 # show_nat k @ CHR 10 # r) = show_nat k @ CHR 10 # r"
    using digit_facts [OF cd] nd by (simp add: c)
  have sg: "sign_text (show_nat k @ CHR 10 # r) = ([], show_nat k @ CHR 10 # r)"
    using digit_facts [OF cd] by (auto simp: c sign_text_def)
  have tw: "takeWhile is_digit (show_nat k @ CHR 10 # r) = show_nat k"
      "dropWhile is_digit (show_nat k @ CHR 10 # r) = CHR 10 # r"
    using d nd by (auto simp: list_all_iff takeWhile_append2 dropWhile_append2)
  have "float_text (show_nat k @ CHR 10 # r) = (show_nat k, True, CHR 10 # r)"
    using d nd by (simp add: float_text_def sg tw point_text_def exponent_text_def)
  moreover have "strtof (show_nat k) = Converted (f32_of_int (int k)) False"
    using stof_nat(1) [OF assms, of "[]"]
    by (simp add: stof_def f32_of_int_def ends_number_def split: strtof_result.splits if_splits)
  moreover have "\<exists>m e. f32_of_int (int k) = Fin False m e"
    using to_f32_nat [OF _ assms, of False] by (cases "k = 0") (auto simp: f32_of_int_def to_f32_def)
  ultimately show ?thesis
    using c skip by (auto simp: read_float_def)
qed

fun saved_text :: "(string \<times> nat) list \<Rightarrow> string" where
  "saved_text [] = []"
| "saved_text ((w, k) # es) = w @ CHR 32 # show_nat k @ CHR 10 # saved_text es"

text \<open>Adding a list of sensors one after the other.\<close>

fun add_sensors ::
  "'n net_scheme \<Rightarrow> (nat \<Rightarrow> clock) \<Rightarrow> nat \<Rightarrow> (string \<times> float32) list \<Rightarrow> ('a Communicator_scheme, unit) op" where
  "add_sensors n ts i [] = ret ()"
| "add_sensors n ts i ((addr, x) # es) =
     andthen (comm_add_sensor n (ts i) addr x) (\<lambda>_. add_sensors n ts (i + 1) es)"

definition entry_value :: "string \<times> nat \<Rightarrow> string \<times> float32" where
  "entry_value = (\<lambda>(w, k). (w, f32_of_int (int k)))"

text \<open>After the last entry the line end is left, and the last entry is added once more.\<close>

lemma init_loop_saved:
  assumes "list_all (\<lambda>(w, k). space_free w \<and> k < 2 ^ 24) es"
  shows "init_loop n ts i (CHR 10 # saved_text es, True) addr x =
    add_sensors n ts i (map entry_value es @ [last ((addr, x) # map entry_value es)])"
  using assms
proof (induction es arbitrary: i addr x)
  case Nil
  have "read_word addr ([CHR 10], True) = (addr, ([], False))" "read_float x ([], False) = (x, ([], False))"
    by (simp_all add: read_word_def read_float_def is_space_def split: prod.split)
  then show ?case
    by (simp add: init_loop.simps [of n ts i "([CHR 10], True)"] peek_eof_def init_loop.simps [of _ _ _ "([], False)"])
next
  case (Cons e es)
  obtain w k where e: "e = (w, k)" "space_free w" "k < 2 ^ 24" using Cons.prems by (cases e) auto
  show ?case
    using Cons.IH [of "i + 1" w "f32_of_int (int k)"] Cons.prems e
      read_word_written [OF e(2), of "[CHR 10]" addr "show_nat k @ CHR 10 # saved_text es"]
      read_float_written [OF e(3), of x "saved_text es"]
    by (subst init_loop.simps) (simp add: peek_eof_def entry_value_def)
qed

lemma init_loop_file:
  assumes "list_all (\<lambda>(w, k). space_free w \<and> k < 2 ^ 24) es" "es \<noteq> []"
  shows "init_loop n ts i (saved_text es, True) addr x =
    add_sensors n ts i (map entry_value es @ [last (map entry_value es)])"
proof -
  obtain w k es' where e: "es = (w, k) # es'" "space_free w" "k < 2 ^ 24"
    using assms by (cases es) auto
  show ?thesis
    using assms(1) e read_word_written [OF e(2), of "[]" addr "show_nat k @ CHR 10 # saved_text es'"]
      read_float_written [OF e(3), of x "saved_text es'"]
    by (subst init_loop.simps) (auto simp: peek_eof_def entry_value_def init_loop_saved)
qed


lemma comm_add_sensor_fresh:
  fixes s :: "'a Communicator_scheme"
  assumes "comm_ok s" "om_find w (sensors s) = None" "comm_max_answer_time s \<le> t 0"
    and "\<And>s' :: 'a Communicator_scheme. resolve n w (sensor_port1 s) s' = (Return (a, w), s')"
    and "toString n a = Inr key" "\<not> out_of_scale x" "0 \<le> sendto n (''set_threshold '' @ to_string_f32 x) a"
  shows "\<exists>s' info. comm_add_sensor n t w x s = (Return (), s') \<and> comm_ok s' \<and>
    sensor_port1 s' = sensor_port1 s \<and> comm_max_answer_time s' = comm_max_answer_time s \<and>
    sent (client s') = sent (client s) @ [(''set_threshold '' @ to_string_f32 x, a)] \<and>
    om_find w (sensors s') = Some info \<and> last_threshold_question info = t 1 \<and>
    (\<forall>v. v \<noteq> w \<longrightarrow> om_find v (sensors s') = om_find v (sensors s))"
proof -
  let ?s1 = "s\<lparr>sensors := om_emplace w new_SensorInfo (sensors s),
    logs := logs s @ [''Sensor '' @ w @ '' added'']\<rparr>"
  let ?s2 = "?s1\<lparr>logs := logs ?s1 @ [''Sent message set_threshold to: '' @ w],
    client := client_asked (''set_threshold '' @ to_string_f32 x) a key Callback_set_threshold (client s)\<rparr>"
  have ord: "ordered (sensors s)" "ordered (callbackMap (client s))" using assms(1) by (simp_all add: comm_ok_def)
  have found: "om_find w (sensors ?s1) = Some new_SensorInfo"
    using ord(1) assms(2) by (simp add: omap_simps)
  have "comm_set_threshold n t w x ?s1 = set_last_threshold_question (\<lambda>i. t (i + 1)) w ?s2"
    using assms(3-7) found by (subst comm_set_threshold_sent) (auto simp: new_SensorInfo_def)
  then have "comm_add_sensor n t w x s = set_last_threshold_question (\<lambda>i. t (i + 1)) w ?s2"
    using assms(4,6) by (simp add: comm_add_sensor_def andthen_def)
  moreover have "om_find w (sensors ?s2) = Some new_SensorInfo" using found by simp
  ultimately show ?thesis
    using ord assms(2) client_asked_ok [of "client s"]
    by (auto simp: set_last_threshold_question_def found_apply raise_flag_cases omap_simps comm_ok_def
        client_asked_def new_SensorInfo_def)
qed

lemma comm_add_sensor_again:
  fixes s :: "'a Communicator_scheme"
  assumes "comm_ok s" "om_find w (sensors s) = Some info" "t 0 - last_threshold_question info < comm_max_answer_time s"
    and "\<And>s' :: 'a Communicator_scheme. resolve n w (sensor_port1 s) s' = (Return (a, w), s')"
    and "\<not> out_of_scale x"
  shows "comm_add_sensor n t w x s = (Return (), s\<lparr>logs := logs s @ [''Sensor '' @ w @ '' added'']\<rparr>)"
proof -
  have "om_emplace w new_SensorInfo (sensors s) = sensors s"
    using assms(1,2) by (intro om_emplace_present) (auto simp: comm_ok_def)
  then show ?thesis
    using assms(2-5)
    by (simp add: comm_add_sensor_def andthen_def comm_set_threshold_recent [where info = info])
qed

definition threshold_text :: "nat \<Rightarrow> string" where
  "threshold_text k = ''set_threshold '' @ to_string_f32 (f32_of_int (int k))"

text \<open>The host \<open>w\<close> is resolved to \<open>adr w\<close> and can be asked.\<close>

definition can_ask :: "'n net_scheme \<Rightarrow> (string \<Rightarrow> Address) \<Rightarrow> string \<Rightarrow> nat \<Rightarrow> bool" where
  "can_ask n adr w k \<longleftrightarrow> k \<le> 100 \<and> (\<exists>key. toString n (adr w) = Inr key) \<and>
     0 \<le> sendto n (threshold_text k) (adr w)"

lemma in_scale: "k \<le> 100 \<Longrightarrow> \<not> out_of_scale (f32_of_int (int k))"
  using f32_less_nat [of k 0] f32_less_nat [of 100 k] by (simp add: out_of_scale_def)

lemma saved_text_eq:
  "\<forall>(w, k) \<in> set es. k \<le> 100 \<Longrightarrow>
   concat (map (\<lambda>(w, x). w @ '' '' @ show_g x @ [CHR 10]) (map entry_value es)) = saved_text es"
  by (induction es) (auto simp: entry_value_def show_g_nat)

lemma add_sensors_append:
  "add_sensors n ts i (xs @ ys) = andthen (add_sensors n ts i xs) (\<lambda>_. add_sensors n ts (i + length xs) ys)"
  by (induction n ts i xs rule: add_sensors.induct) (auto simp: andthen_def fun_eq_iff split: prod.split outcome.split)

lemma add_sensors_all:
  fixes s :: "'a Communicator_scheme"
  assumes "comm_ok s" "comm_max_answer_time s \<le> now" "\<And>i j. now \<le> ts i j"
    and "distinct (map fst es)" "\<forall>(w, k) \<in> set es. om_find w (sensors s) = None \<and> can_ask n adr w k \<and>
      (\<forall>s' :: 'a Communicator_scheme. resolve n w (sensor_port1 s) s' = (Return (adr w, w), s'))"
  shows "\<exists>s'. add_sensors n ts i (map entry_value es) s = (Return (), s') \<and> comm_ok s' \<and>
    sensor_port1 s' = sensor_port1 s \<and> comm_max_answer_time s' = comm_max_answer_time s \<and>
    sent (client s') = sent (client s) @ map (\<lambda>(w, k). (threshold_text k, adr w)) es \<and>
    (\<forall>v. v \<notin> fst ` set es \<longrightarrow> om_find v (sensors s') = om_find v (sensors s)) \<and>
    (\<forall>v \<in> fst ` set es. \<exists>info. om_find v (sensors s') = Some info \<and> now \<le> last_threshold_question info)"
  using assms
proof (induction es arbitrary: i s)
  case Nil
  then show ?case by simp
next
  case (Cons e es)
  obtain w k where e: "e = (w, k)" by force
  with Cons.prems(5) obtain key where w: "om_find w (sensors s) = None" "k \<le> 100" "toString n (adr w) = Inr key"
      "0 \<le> sendto n (threshold_text k) (adr w)"
      "\<And>s' :: 'a Communicator_scheme. resolve n w (sensor_port1 s) s' = (Return (adr w, w), s')"
    by (auto simp: can_ask_def)
  obtain s1 info where s1: "comm_add_sensor n (ts i) w (f32_of_int (int k)) s = (Return (), s1)" "comm_ok s1"
      "sensor_port1 s1 = sensor_port1 s" "comm_max_answer_time s1 = comm_max_answer_time s"
      "sent (client s1) = sent (client s) @ [(threshold_text k, adr w)]"
      "om_find w (sensors s1) = Some info" "last_threshold_question info = ts i 1"
      "\<forall>v. v \<noteq> w \<longrightarrow> om_find v (sensors s1) = om_find v (sensors s)"
    using comm_add_sensor_fresh [where t = "ts i" and x = "f32_of_int (int k)", OF Cons.prems(1) w(1) _ w(5,3) in_scale [OF w(2)]]
      w(4) Cons.prems(2) Cons.prems(3) [of i 0]
    by (auto simp: threshold_text_def)
  have "\<forall>(w', k') \<in> set es. om_find w' (sensors s1) = None \<and> can_ask n adr w' k' \<and>
      (\<forall>s' :: 'a Communicator_scheme. resolve n w' (sensor_port1 s1) s' = (Return (adr w', w'), s'))"
    using Cons.prems(4,5) s1(3,8) e by (fastforce simp: image_iff)
  then obtain s' where s': "add_sensors n ts (i + 1) (map entry_value es) s1 = (Return (), s')" "comm_ok s'"
      "sensor_port1 s' = sensor_port1 s1" "comm_max_answer_time s' = comm_max_answer_time s1"
      "sent (client s') = sent (client s1) @ map (\<lambda>(w, k). (threshold_text k, adr w)) es"
      "\<forall>v. v \<notin> fst ` set es \<longrightarrow> om_find v (sensors s') = om_find v (sensors s1)"
      "\<forall>v \<in> fst ` set es. \<exists>info. om_find v (sensors s') = Some info \<and> now \<le> last_threshold_question info"
    using Cons.IH [OF s1(2) _ Cons.prems(3), of "i + 1"] Cons.prems(2,4) s1(4) by auto
  have "w \<notin> fst ` set es" using Cons.prems(4) e by simp
  then have "om_find w (sensors s') = Some info" "now \<le> last_threshold_question info"
    using s'(6) s1(6,7) Cons.prems(3) by simp_all
  with s1 s' e show ?case by (auto simp: entry_value_def andthen_def)
qed

text \<open>
  C14: A restart restores the station: from the file that was written for a table
  of whole thresholds, the start adds exactly the sensors of the table, in order, and asks
  each for its threshold once; the last record is processed a second time, which the
  throttling of the questions makes harmless within \<open>max_answer_time\<close>.
\<close>

theorem restart_restores_sensors:
  fixes s0 :: "'a Communicator_scheme"
  assumes "ordered (sensors s)" "fst (write_to_file (Some home) True s) = Return (Some saved)"
    and "map (\<lambda>(w, info). (w, threshold info)) (sensors s) = map entry_value es"
    and "\<forall>(w, k) \<in> set es. space_free w \<and> can_ask n adr w k \<and>
      (\<forall>s' :: 'a Communicator_scheme. resolve n w (sensor_port1 s0) s' = (Return (adr w, w), s'))"
    and "comm_ok s0" "sensors s0 = []" "comm_max_answer_time s0 \<le> now"
    and "\<And>i j. now \<le> ts i j \<and> ts i j < now + comm_max_answer_time s0"
  shows "\<exists>s'. init_from_file n ts (Some home) (Some saved) x0 s0 = (Return (), s') \<and>
    om_keys (sensors s') = om_keys (sensors s) \<and>
    sent (client s') = sent (client s0) @ map (\<lambda>(w, k). (threshold_text k, adr w)) es"
proof -
  have keys: "map fst es = om_keys (sensors s)"
    using arg_cong [OF assms(3), of "map fst"] by (simp add: om_keys_def entry_value_def comp_def split_beta)
  have small: "k \<le> 100" if "(w, k) \<in> set es" for w k
    using assms(4) that by (auto simp: can_ask_def)
  have "saved = concat (map (\<lambda>(w, x). w @ '' '' @ show_g x @ [CHR 10]) (map entry_value es))"
    using assms(2) by (simp add: write_to_file_def andthen_def comp_def case_prod_unfold flip: assms(3))
  also have "\<dots> = saved_text es"
    using small by (intro saved_text_eq) auto
  finally have saved: "saved = saved_text es" .
  have sorted: "sorted_wrt (<) (map fst es)"
    using assms(1) keys by (simp add: ordered_def om_keys_def)
  obtain s1 where s1: "add_sensors n ts 0 (map entry_value es) s0 = (Return (), s1)" "comm_ok s1"
      "sensor_port1 s1 = sensor_port1 s0" "comm_max_answer_time s1 = comm_max_answer_time s0"
      "sent (client s1) = sent (client s0) @ map (\<lambda>(w, k). (threshold_text k, adr w)) es"
      "\<forall>v. v \<notin> fst ` set es \<longrightarrow> om_find v (sensors s1) = None"
      "\<forall>v \<in> fst ` set es. \<exists>info. om_find v (sensors s1) = Some info \<and> now \<le> last_threshold_question info"
    using add_sensors_all [OF assms(5,7), of ts es n adr 0] assms(4,6,8) sorted
    by (fastforce simp: strict_sorted_iff)
  have "set (om_keys (sensors s1)) = set (map fst es)"
    using s1(6,7) by (auto simp flip: om_find_keys)
  then have keys1: "om_keys (sensors s1) = om_keys (sensors s)"
    using s1(2) sorted keys by (intro strict_sorted_equal) (auto simp: comm_ok_def ordered_def om_keys_def)
  have "\<exists>s'. init_loop n ts 0 (saved, True) [] x0 s0 = (Return (), s') \<and>
      sensors s' = sensors s1 \<and> client s' = client s1"
  proof (cases "es = []")
    case True
    then show ?thesis using s1(1) saved by (simp add: init_loop.simps [of _ _ _ "([], _)"] peek_eof_def)
  next
    case False
    obtain w k where l: "last es = (w, k)" by force
    then have wk: "(w, k) \<in> set es" using False by (metis last_in_set)
    then obtain info where info: "om_find w (sensors s1) = Some info" "now \<le> last_threshold_question info"
      using s1(7) by force
    have "ts (length es) 0 - last_threshold_question info < comm_max_answer_time s1"
      using assms(8) [of "length es" 0] info(2) s1(4) by simp
    moreover have "resolve n w (sensor_port1 s1) s' = (Return (adr w, w), s')" for s' :: "'a Communicator_scheme"
      using assms(4) wk s1(3) by auto
    ultimately have again: "comm_add_sensor n (ts (length es)) w (f32_of_int (int k)) s1 =
        (Return (), s1\<lparr>logs := logs s1 @ [''Sensor '' @ w @ '' added'']\<rparr>)"
      using s1(2) info(1) in_scale [OF small [OF wk]] by (intro comm_add_sensor_again)
    have "list_all (\<lambda>(w, k). space_free w \<and> k < 2 ^ 24) es"
      using assms(4) small by (fastforce simp: list_all_iff)
    moreover have "last (map entry_value es) = (w, f32_of_int (int k))"
      using False l by (simp add: last_map entry_value_def)
    ultimately show ?thesis
      using False again s1(1) by (simp add: saved init_loop_file add_sensors_append andthen_def)
  qed
  then show ?thesis using s1(5) keys1 by (auto simp: init_from_file_def try_catch_def)
qed

theorem restart_restores_sensors_witness:
  "\<exists>s'. init_from_file example_env (\<lambda>_ _. 100) (Some ''/root'') (Some (''::1 100'' @ [CHR 10])) (f32_of_int 0)
      (new_Communicator (new_SensorList 5) 7501 ''7000'' ''7001'' 5) = (Return (), s') \<and>
    om_keys (sensors s') = [''::1''] \<and> sent (client s') = [(threshold_text 100, loopback6 7000)]"
proof -
  let ?s0 = "new_Communicator (new_SensorList 5) 7501 ''7000'' ''7001'' 5"
  have s0: "comm_ok ?s0" "sensors ?s0 = []" "comm_max_answer_time ?s0 = 5" "sensor_port1 ?s0 = ''7000''"
      "sent (client ?s0) = []"
    by (simp_all add: comm_ok_def new_Communicator_def new_SensorList_def new_UDPClient_def)
  have "fst (write_to_file (Some ''/root'') True example_comm) = Return (Some (''::1 100'' @ [CHR 10]))"
    using show_g_nat [of 100] by (simp add: write_to_file_def andthen_def new_SensorInfo_def show_nat_eval digit_char_def)
  then show ?thesis
    using restart_restores_sensors [where s = example_comm and es = "[(''::1'', 100)]" and ?s0.0 = ?s0 and now = 100 and
        n = example_env and adr = "\<lambda>_. loopback6 7000" and ts = "\<lambda>_ _. 100" and home = "''/root''" and
        saved = "''::1 100'' @ [CHR 10]" and ?x0.0 = "f32_of_int 0"]
    by (simp add: s0 space_free_def is_space_def can_ask_def entry_value_def new_SensorInfo_def om_keys_def ordered_def)
qed
end
