(* ===== verification/SensorNode.thy ===== *)
theory SensorNode
  imports Udp
begin

text \<open>
  The sensor program: the thread that reads a value, keeps the median of the last
  sixty and raises the alarm, the thread that receives a new threshold, and the
  main thread that answers questions for the values.  One pass of a thread's loop
  is one operation; the state holds what the threads share and what each keeps
  across its passes.  The values of \<open>rand\<close> and the datagrams are inputs.
\<close>

section \<open>Values and their median\<close>

definition read_current_value :: "nat \<Rightarrow> int" where
  "read_current_value rand = int (rand mod 99) + 1"

definition int_fits :: "int \<Rightarrow> bool" where
  "int_fits i \<longleftrightarrow> - (2 ^ 31) \<le> i \<and> i < 2 ^ 31"

text \<open>Division of two \<open>int\<close>s rounds towards zero.\<close>

definition halve :: "int \<Rightarrow> int" where
  "halve i = (if i < 0 then - (- i div 2) else i div 2)"

definition vector_at :: "int list \<Rightarrow> int \<Rightarrow> int outcome" where
  "vector_at v i = (if 0 \<le> i \<and> i < int (length v) then Return (v ! nat i)
     else Throw (Out_of_range ''vector::_M_range_check''))"

definition calculate_median :: "int list \<Rightarrow> 8 word \<Rightarrow> int outcome" where
  "calculate_median array size8 =
     (let sz = unat size8 in
      if length array < sz then Undefined
      else
        let medianVec = sort (take sz array) in
        if sz mod 2 = 1 then vector_at medianVec (int sz div 2)
        else case vector_at medianVec (int sz div 2 - 1) of
               Return a \<Rightarrow> (case vector_at medianVec (int sz div 2) of
                   Return b \<Rightarrow> if int_fits (a + b) then Return (halve (a + b)) else Undefined
                 | r \<Rightarrow> r)
             | r \<Rightarrow> r)"

section \<open>State\<close>

text \<open>\<open>prints\<close> holds the texts given to \<open>print\<close>, without the time that it puts before them.\<close>

record SensorNode =
  node_threshold :: float32
  node_current_value :: float32
  node_typical :: float32
  prints :: "string list"
  last60 :: "int list"
  pointer :: nat
  amount :: nat
  alarm_client :: "unit UDPClient"
  server1 :: UDPServer
  server2 :: UDPServer

definition new_SensorNode :: "int list \<Rightarrow> Address \<Rightarrow> SensorNode" where
  "new_SensorNode uninitialised_array uninitialised_address =
     \<lparr>node_threshold = f32_of_int 100, node_current_value = f32_of_int 40,
        node_typical = f32_of_int 0, prints = [], last60 = uninitialised_array,
        pointer = 0, amount = 0,
        alarm_client = new_UDPClient 6000 None,
        server1 = new_UDPServer uninitialised_address,
        server2 = new_UDPServer uninitialised_address\<rparr>"

definition print_msg :: "string \<Rightarrow> ('a SensorNode_scheme, unit) op" where
  "print_msg s = change (\<lambda>st. st\<lparr>prints := prints st @ [s]\<rparr>)"

definition on_alarm_client :: "(unit UDPClient, 'r) op \<Rightarrow> ('a SensorNode_scheme, 'r) op" where
  "on_alarm_client m = (\<lambda>s. case m (alarm_client s) of (r, c) \<Rightarrow> (r, s\<lparr>alarm_client := c\<rparr>))"

definition on_server1 :: "(UDPServer, 'r) op \<Rightarrow> ('a SensorNode_scheme, 'r) op" where
  "on_server1 m = (\<lambda>s. case m (server1 s) of (r, c) \<Rightarrow> (r, s\<lparr>server1 := c\<rparr>))"

definition on_server2 :: "(UDPServer, 'r) op \<Rightarrow> ('a SensorNode_scheme, 'r) op" where
  "on_server2 m = (\<lambda>s. case m (server2 s) of (r, c) \<Rightarrow> (r, s\<lparr>server2 := c\<rparr>))"

section \<open>The thread that updates the values\<close>

definition store_reading :: "nat \<Rightarrow> ('a SensorNode_scheme, unit) op" where
  "store_reading rand = change (\<lambda>s.
     let x = f32_of_int (read_current_value rand) in
     s\<lparr>node_current_value := x, last60 := (last60 s)[pointer s := f32_truncate x],
       pointer := (pointer s + 1) mod 60,
       amount := (if amount s < 60 then amount s + 1 else amount s)\<rparr>)"

definition store_median :: "('a SensorNode_scheme, unit) op" where
  "store_median = (\<lambda>s. case calculate_median (last60 s) (of_nat (amount s)) of
      Return m \<Rightarrow> (Return (), s\<lparr>node_typical := f32_of_int m\<rparr>)
    | Throw e \<Rightarrow> (Throw e, s)
    | Undefined \<Rightarrow> (Undefined, s))"

definition alarm_text :: "float32 \<Rightarrow> float32 \<Rightarrow> string" where
  "alarm_text current typical =
     ''alarm current_value: '' @ to_string_f32 current @ '' typical_value: '' @ to_string_f32 typical"

definition raise_alarm :: "'n net_scheme \<Rightarrow> Address \<Rightarrow> ('a SensorNode_scheme, unit) op" where
  "raise_alarm n server_address = (\<lambda>s.
     if f32_less (node_threshold s) (node_current_value s) then
       andthen (print_msg ''value too large - sending alarm'') (\<lambda>_.
         try_catch
           (on_alarm_client (sendAndSaveCallback n
              (alarm_text (node_current_value s) (node_typical s)) server_address (Some ())))
           any_exception (\<lambda>ex. print_msg (what ex))) s
     else (Return (), s))"

definition updating_values_round ::
  "'n net_scheme \<Rightarrow> Address \<Rightarrow> nat \<Rightarrow> ('a SensorNode_scheme, unit) op" where
  "updating_values_round n server_address rand =
     andthen (store_reading rand) (\<lambda>_.
     andthen store_median (\<lambda>_.
     andthen (\<lambda>s. print_msg ('' value: '' @ to_string_f32 (node_current_value s) @
       '' median '' @ to_string_f32 (node_typical s)) s) (\<lambda>_.
     raise_alarm n server_address)))"

text \<open>The callback for the answer to an alarm.\<close>

definition alarm_confirmed :: "'n net_scheme \<Rightarrow> Address \<Rightarrow> ('a SensorNode_scheme, unit) op" where
  "alarm_confirmed n addr =
     andthen (or_throw (toString n addr)) (\<lambda>a. print_msg (''alarm confirmed by: '' @ a))"

text \<open>The loop of the thread, for the values of \<open>rand\<close> of its first passes.\<close>

fun updating_values ::
  "'n net_scheme \<Rightarrow> Address \<Rightarrow> nat list \<Rightarrow> ('a SensorNode_scheme, unit) op" where
  "updating_values n server_address [] = ret ()"
| "updating_values n server_address (rand # rands) =
     andthen (updating_values_round n server_address rand) (\<lambda>_.
     updating_values n server_address rands)"

text \<open>
  The thread: it translates the address of the station, makes its client, whose socket is \<open>sock\<close>, and
  goes into the loop.  What the first two throw leaves the thread, which ends the program.
\<close>

definition updating_values_thread ::
  "'n net_scheme \<Rightarrow> string \<Rightarrow> exn + UDPsocket \<Rightarrow> nat list \<Rightarrow> ('a SensorNode_scheme, unit) op" where
  "updating_values_thread n SERVER_HOST sock rands =
     andthen (Address_host n SERVER_HOST ''7500'') (\<lambda>server_address.
     andthen (or_throw sock) (\<lambda>_. updating_values n server_address rands))"

lemma updating_values_thread_begins:
  "AddressInfo n host ''7500'' = Inl e \<Longrightarrow> updating_values_thread n host sock rands s = (Throw e, s)"
  "AddressInfo n host ''7500'' = Inr (a # rest) \<Longrightarrow>
     updating_values_thread n host (Inr client_socket) rands s = updating_values n a rands s"
  by (simp_all add: updating_values_thread_def Address_host_def andthen_def)

section \<open>The thread that receives thresholds\<close>

text \<open>
  \<open>std::string (buffer)\<close> reads up to a zero byte.  \<open>behind\<close> is what is found in
  memory behind the buffer; a read that goes beyond that is undefined (so
  \<open>behind = []\<close> is the view of the C++ standard).
\<close>

definition read_string :: "string \<Rightarrow> string \<Rightarrow> ('s, string) op" where
  "read_string behind buffer =
     (if CHR 0x00 \<in> set (buffer @ behind) then ret (c_str (buffer @ behind)) else undefined_behaviour)"

text \<open>\<open>std::string::substr\<close> with its range check.\<close>

definition substr_checked :: "nat \<Rightarrow> nat \<Rightarrow> string \<Rightarrow> exn + string" where
  "substr_checked pos k s =
     (if length s < pos then Inl (Out_of_range ''basic_string::substr'')
      else Inr (take k (drop pos s)))"

text \<open>
  What follows a threshold in range.  The answer is sent with the length of the
  question: \<open>behind_answer\<close> is the memory behind the characters of \<open>answerStr\<close>.
\<close>

definition accept_threshold ::
  "'n net_scheme \<Rightarrow> string \<Rightarrow> int \<Rightarrow> int \<Rightarrow> ('a SensorNode_scheme, unit) op" where
  "accept_threshold n behind_answer retval tmp =
     andthen (print_msg (''setting new threshold to: '' @ show_int tmp)) (\<lambda>_.
     andthen (change (\<lambda>s. s\<lparr>node_threshold := f32_of_int tmp\<rparr>)) (\<lambda>_.
     andthen (print_msg (''threshold setted to: '' @ to_string_f32 (f32_of_int tmp))) (\<lambda>_.
     let answerStr = ''threshold: '' @ show_int tmp in
     andthen (on_server1 (server_send n (answerStr @ CHR 0x00 # behind_answer) (nat retval))) (\<lambda>sent_bytes.
     if 0 < sent_bytes then print_msg (''->sent answer {'' @ answerStr @ ''}'')
     else print_msg ''failed to sent answer''))))"

text \<open>
  One pass: \<open>None\<close> when the loop goes on, \<open>Some\<close> of the value that the thread
  returns after it has caught an exception.
\<close>

definition set_threshold_receive_round ::
  "'n net_scheme \<Rightarrow> string \<Rightarrow> string \<Rightarrow> recv_result \<Rightarrow> ('a SensorNode_scheme, int option) op" where
  "set_threshold_receive_round n behind behind_answer datagram =
     try_catch
       (andthen (on_server1 (server_receive datagram (replicate 17 (CHR 0x00)) 17)) (\<lambda>(retval, buffer).
        if retval < 0 then andthen (print_msg ''error receiving data'') (\<lambda>_. ret None)
        else
          andthen (read_string behind buffer) (\<lambda>received.
          andthen (print_msg (''<-received '' @ received @ '' on port: 7000'')) (\<lambda>_.
          if starts_with ''set_threshold'' received then
            andthen (or_throw (substr_checked 14 3 received)) (\<lambda>str.
            andthen (or_throw (stoi str)) (\<lambda>tmp.
            if 0 < tmp \<and> tmp < 100 then
              andthen (accept_threshold n behind_answer retval tmp) (\<lambda>_. ret None)
            else
              andthen (print_msg (''value of threshold not valid: '' @ show_int tmp)) (\<lambda>_. ret None)))
          else ret None))))
       any_exception (\<lambda>ex. ret (Some (- 1)))"

section \<open>The main thread\<close>

definition values_text :: "float32 \<Rightarrow> float32 \<Rightarrow> string" where
  "values_text current typical =
     ''current_value: '' @ to_string_f32 current @ '' typical_value: '' @ to_string_f32 typical"

definition answer_values_round ::
  "'n net_scheme \<Rightarrow> recv_result \<Rightarrow> ('a SensorNode_scheme, int option) op" where
  "answer_values_round n datagram =
     try_catch
       (andthen (on_server2 (server_receive datagram (replicate 512 (CHR 0x00)) 9)) (\<lambda>(retval, buffer).
        if retval < 0 then andthen (print_msg ''error receiving data'') (\<lambda>_. ret None)
        else
          andthen (read_string [] buffer) (\<lambda>received.
          andthen (print_msg (''<-received '' @ received @ '' on port: 7000'')) (\<lambda>_.
          if starts_with ''get_value'' received then
            andthen (print_msg ''server demanded value'') (\<lambda>_.
            andthen (reads (\<lambda>s. values_text (node_current_value s) (node_typical s))) (\<lambda>answerStr.
            andthen (on_server2 (server_send n answerStr (length answerStr))) (\<lambda>sent_bytes.
            andthen (if 0 < sent_bytes then print_msg (''->sent answer {'' @ answerStr @ ''}'')
                     else print_msg ''failed to sent answer'') (\<lambda>_. ret None))))
          else ret None))))
       any_exception (\<lambda>ex. ret (Some (- 1)))"

text \<open>The arguments of \<open>main\<close>: the usage message, or the server's host and the pause.\<close>

definition atoi :: "string \<Rightarrow> int" where
  "atoi str =
     (let (neg, s) = sign_of (dropWhile is_space str); n = int (number 10 (takeWhile is_digit s))
      in if neg then - n else n)"

definition sensor_main :: "string list \<Rightarrow> string + string \<times> int" where
  "sensor_main argv =
     (if length argv < 2
      then Inl (''Usage: sensor <server address> [refresh time sec = 60]'' @ [CHR 10])
      else Inr (argv ! 1, if length argv = 3 then atoi (argv ! 2) else 60))"

section \<open>The median\<close>

lemma sorted_nth_count:
  fixes v :: "int list"
  assumes "sorted v" "i < length v"
  shows "v ! i \<le> m \<Longrightarrow> length (filter (\<lambda>x. m < x) v) \<le> length v - 1 - i"
    and "m \<le> v ! i \<Longrightarrow> length (filter (\<lambda>x. x < m) v) \<le> i"
proof -
  have parts: "filter P v = filter P (take k v) @ filter P (drop k v)" for P k
    by (simp only: filter_append [symmetric] append_take_drop_id)
  { assume m: "v ! i \<le> m"
    have "\<not> m < x" if x: "x \<in> set (take (Suc i) v)" for x
    proof -
      obtain k where "k < Suc i" "x = v ! k"
        using x assms by (auto simp: in_set_conv_nth)
      then show ?thesis using m sorted_nth_mono [of v k i] assms by auto
    qed
    then have "filter (\<lambda>x. m < x) (take (Suc i) v) = []" by (simp add: filter_empty_conv)
    then show "length (filter (\<lambda>x. m < x) v) \<le> length v - 1 - i"
      using parts [of "\<lambda>x. m < x" "Suc i"] length_filter_le [of "\<lambda>x. m < x" "drop (Suc i) v"] by simp }
  { assume m: "m \<le> v ! i"
    have "\<not> x < m" if x: "x \<in> set (drop i v)" for x
    proof -
      obtain k where "i \<le> k" "k < length v" "x = v ! k"
        using x assms by (auto simp: in_set_conv_nth) (metis add.commute le_add2 less_diff_conv)
      then show ?thesis using m sorted_nth_mono [of v i k] assms by auto
    qed
    then have "filter (\<lambda>x. x < m) (drop i v) = []" by (simp add: filter_empty_conv)
    then show "length (filter (\<lambda>x. x < m) v) \<le> i"
      using parts [of "\<lambda>x. x < m" i] length_filter_le [of "\<lambda>x. x < m" "take i v"] by simp }
qed

lemma halve_between: "a \<le> b \<Longrightarrow> a \<le> halve (a + b) \<and> halve (a + b) \<le> b"
  by (simp add: halve_def) linarith

lemma filter_sort_length: "length (filter P (sort xs)) = length (filter P xs)"
  by (metis filter_sort length_sort)

text \<open>At most half of the values are below a median, and at most half above it.\<close>

definition is_median :: "int list \<Rightarrow> int \<Rightarrow> bool" where
  "is_median xs m \<longleftrightarrow> 2 * length (filter (\<lambda>x. x < m) xs) \<le> length xs \<and>
     2 * length (filter (\<lambda>x. m < x) xs) \<le> length xs"

lemma is_median_mset: "mset xs = mset ys \<Longrightarrow> is_median xs m = is_median ys m"
  by (metis is_median_def mset_filter size_mset)

lemma middle_is_median:
  assumes "sorted v" "i < length v" "j < length v" "v ! i \<le> m" "m \<le> v ! j"
    and "2 * j \<le> length v" "length v \<le> 2 * i + 2"
  shows "is_median v m"
  using sorted_nth_count(1) [OF assms(1,2,4)] sorted_nth_count(2) [OF assms(1,3,5)] assms(6,7)
  by (simp add: is_median_def)

lemma calculate_median_correct:
  assumes "0 < sz" "sz \<le> length array" "list_all (\<lambda>x. \<bar>x\<bar> < 2 ^ 30) (take sz array)" "sz < 256"
  shows "\<exists>m. calculate_median array (of_nat sz) = Return m \<and> is_median (take sz array) m"
proof -
  have size: "unat (of_nat sz :: 8 word) = sz" using assms(4) by (simp add: unat_of_nat)
  define v where "v = sort (take sz array)"
  have v: "sorted v" "length v = sz" "mset v = mset (take sz array)"
    using assms(2) by (auto simp: v_def min_def)
  have small: "\<bar>v ! i\<bar> < 2 ^ 30" if "i < sz" for i
    using assms(3) nth_mem [of i v] that v(2) by (simp add: list_all_iff v_def)
  have "\<exists>m. calculate_median array (of_nat sz) = Return m \<and> is_median v m"
  proof (cases "sz mod 2 = 1")
    case True
    have "is_median v (v ! (sz div 2))"
      using True v(1,2) assms(1) by (intro middle_is_median [of v "sz div 2" "sz div 2"]) auto
    with True assms(1,2) v(2) show ?thesis
      by (auto simp: calculate_median_def size vector_at_def v_def Let_def nat_div_distrib)
  next
    case False
    let ?a = "v ! (sz div 2 - 1)" and ?b = "v ! (sz div 2)"
    have half: "1 \<le> sz div 2" "sz div 2 < sz" "sz \<le> 2 * (sz div 2 - 1) + 2"
      using False assms(1) by presburger+
    have "?a \<le> ?b" using v(1,2) half by (simp add: sorted_nth_mono)
    then have "is_median v (halve (?a + ?b))"
      using halve_between [of ?a ?b] v(1,2) half
      by (intro middle_is_median [of v "sz div 2 - 1" "sz div 2"]) simp_all
    moreover have "int_fits (?a + ?b)"
      using small [of "sz div 2 - 1", OF less_imp_diff_less [OF half(2)]] small [OF half(2)]
      by (auto simp: int_fits_def)
    ultimately show ?thesis
      using False half assms(2) v(2)
      by (auto simp: calculate_median_def size vector_at_def v_def [symmetric] Let_def nat_div_distrib
          nat_diff_distrib)
  qed
  then show ?thesis using is_median_mset [OF v(3)] by simp
qed

section \<open>The ring of the last sixty readings\<close>

definition ring_ok :: "int list \<Rightarrow> 'a SensorNode_scheme \<Rightarrow> bool" where
  "ring_ok rs s \<longleftrightarrow> length (last60 s) = 60 \<and> pointer s = length rs mod 60 \<and>
     amount s = min (length rs) 60 \<and> list_all (\<lambda>x. 1 \<le> x \<and> x \<le> 99) rs \<and>
     (\<forall>j < length rs. length rs \<le> j + 60 \<longrightarrow> last60 s ! (j mod 60) = rs ! j)"

lemma ring_window:
  assumes "ring_ok rs s"
  shows "mset (take (amount s) (last60 s)) = mset (drop (length rs - 60) rs)"
proof (cases "length rs < 60")
  case True
  then have "take (amount s) (last60 s) = rs"
    using assms by (intro nth_equalityI) (auto simp: ring_ok_def)
  with True show ?thesis by simp
next
  case False
  have "drop (length rs - 60) rs = rotate (length rs) (last60 s)"
  proof (intro nth_equalityI)
    fix i assume "i < length (drop (length rs - 60) rs)"
    then have i: "i < 60" "length rs - 60 + i < length rs" using False by auto
    then have "last60 s ! ((length rs - 60 + i) mod 60) = rs ! (length rs - 60 + i)"
      using assms unfolding ring_ok_def by auto
    moreover have "(length rs - 60 + i) mod 60 = (length rs + i) mod 60"
      using False by (simp add: mod_if [of "length rs + i"])
    ultimately show "drop (length rs - 60) rs ! i = rotate (length rs) (last60 s) ! i"
      using i assms False by (simp add: ring_ok_def nth_rotate)
  qed (use assms False in \<open>auto simp: ring_ok_def\<close>)
  moreover have "mset (rotate k xs) = mset xs" for k and xs :: "int list"
    by (metis append_take_drop_id mset_append rotate_drop_take union_commute)
  ultimately show ?thesis using assms False by (simp add: ring_ok_def)
qed

lemma truncate_reading: "f32_truncate (f32_of_int (read_current_value r)) = read_current_value r"
proof -
  have "nat (read_current_value r) < 2 ^ 24" "0 < read_current_value r"
    by (auto simp: read_current_value_def)
  then show ?thesis
    using f32_units_nat [of "nat (read_current_value r)"]
    by (simp add: f32_truncate_def f32_of_int_def Let_def sgn_if)
qed

lemma ring_store:
  assumes "ring_ok rs s"
  shows "ring_ok (rs @ [read_current_value r]) (snd (store_reading r s))"
proof -
  let ?k = "length rs"
  have entry: "((last60 s)[?k mod 60 := v]) ! (j mod 60) = (rs @ [v]) ! j"
    if j: "j < Suc ?k" "Suc ?k \<le> j + 60" for j v
  proof (cases "j = ?k")
    case False
    then have "\<not> 60 dvd ?k - j" using j by (auto dest!: dvd_imp_le)
    then have "j mod 60 \<noteq> ?k mod 60" using j mod_eq_dvd_iff_nat [of j ?k 60] by auto
    with False j assms show ?thesis by (auto simp: ring_ok_def nth_append)
  qed (use assms in \<open>simp add: ring_ok_def\<close>)
  have "1 \<le> read_current_value r \<and> read_current_value r \<le> 99"
    by (simp add: read_current_value_def)
  with entry assms show ?thesis
    by (auto simp: ring_ok_def store_reading_def Let_def truncate_reading mod_Suc_eq Suc_eq_plus1 [symmetric])
qed

lemma print_msg_apply [simp]: "print_msg m s = (Return (), s\<lparr>prints := prints s @ [m]\<rparr>)"
  by (simp add: print_msg_def)

text \<open>Raising the alarm changes the printed lines and the client, and never throws.\<close>

lemma sendAndSaveCallback_defined:
  "fst (sendAndSaveCallback n msg a cb c) \<noteq> Undefined"
  by (cases "toString n a")
     (auto simp: sendAndSaveCallback_def client_send_def save_callback_def andthen_def Let_def)

definition same_values :: "'a SensorNode_scheme \<Rightarrow> 'a SensorNode_scheme \<Rightarrow> bool" where
  "same_values s s' \<longleftrightarrow> last60 s' = last60 s \<and> pointer s' = pointer s \<and> amount s' = amount s \<and>
     node_threshold s' = node_threshold s \<and> node_current_value s' = node_current_value s \<and>
     node_typical s' = node_typical s"

lemma guarded_client_frame:
  assumes "fst (m (alarm_client s)) \<noteq> Undefined"
  shows "\<exists>s'. try_catch (on_alarm_client m) any_exception (\<lambda>ex. print_msg (f ex)) s = (Return (), s') \<and>
    same_values s s'"
proof -
  obtain r c where m: "m (alarm_client s) = (r, c)" by (cases "m (alarm_client s)")
  then show ?thesis
    using assms by (cases r) (auto simp: try_catch_def on_alarm_client_def any_exception_def same_values_def)
qed

lemma raise_alarm_frame: "\<exists>s'. raise_alarm n a s = (Return (), s') \<and> same_values s s'"
  using guarded_client_frame [OF sendAndSaveCallback_defined, where
      s = "s\<lparr>prints := prints s @ [''value too large - sending alarm'']\<rparr>" and f = what]
  by (auto simp: raise_alarm_def andthen_def same_values_def)

lemma ring_median:
  assumes "ring_ok rs s" "rs \<noteq> []"
  shows "\<exists>m. store_median s = (Return (), s\<lparr>node_typical := f32_of_int m\<rparr>) \<and>
    is_median (drop (length rs - 60) rs) m"
proof -
  have "\<bar>x\<bar> < 2 ^ 30" if "x \<in> set (take (amount s) (last60 s))" for x
  proof -
    have "x \<in> set (drop (length rs - 60) rs)"
      using that ring_window [OF assms(1)] by (metis set_mset_mset)
    then have "1 \<le> x \<and> x \<le> 99"
      using assms(1) in_set_dropD by (fastforce simp: ring_ok_def list_all_iff)
    then show ?thesis by simp
  qed
  then have "list_all (\<lambda>x. \<bar>x\<bar> < 2 ^ 30) (take (amount s) (last60 s))"
    by (simp add: list_all_iff)
  moreover have "0 < amount s" "amount s \<le> length (last60 s)" "amount s < 256"
    using assms by (auto simp: ring_ok_def)
  ultimately obtain m where "calculate_median (last60 s) (of_nat (amount s)) = Return m"
    "is_median (take (amount s) (last60 s)) m"
    using calculate_median_correct by blast
  then show ?thesis
    using is_median_mset [OF ring_window [OF assms(1)]] by (auto simp: store_median_def)
qed

lemma updating_values_round_ring:
  assumes "ring_ok rs s"
  shows "\<exists>s' m. updating_values_round n a r s = (Return (), s') \<and>
    ring_ok (rs @ [read_current_value r]) s' \<and> node_threshold s' = node_threshold s \<and>
    node_current_value s' = f32_of_int (read_current_value r) \<and> node_typical s' = f32_of_int m \<and>
    is_median (drop (length rs + 1 - 60) (rs @ [read_current_value r])) m"
proof -
  let ?rs = "rs @ [read_current_value r]"
  define s1 where "s1 = snd (store_reading r s)"
  have store: "store_reading r s = (Return (), s1)" "node_threshold s1 = node_threshold s"
      "node_current_value s1 = f32_of_int (read_current_value r)" and ring: "ring_ok ?rs s1"
    using ring_store [OF assms] by (simp_all add: s1_def store_reading_def Let_def)
  obtain m where m: "store_median s1 = (Return (), s1\<lparr>node_typical := f32_of_int m\<rparr>)"
      "is_median (drop (length ?rs - 60) ?rs) m"
    using ring_median [OF ring] by blast
  obtain s' where s': "updating_values_round n a r s = (Return (), s')"
      "same_values (s1\<lparr>node_typical := f32_of_int m\<rparr>) s'"
    using raise_alarm_frame [of n a "s1\<lparr>node_typical := f32_of_int m, prints := prints s1 @
        ['' value: '' @ to_string_f32 (node_current_value s1) @ '' median '' @
         to_string_f32 (f32_of_int m)]\<rparr>"]
    by (auto simp: updating_values_round_def andthen_def store(1) m(1) same_values_def)
  then show ?thesis
    using m(2) store ring by (auto simp: same_values_def ring_ok_def)
qed

lemma updating_values_ring:
  assumes "ring_ok rs s"
  shows "\<exists>s'. updating_values n a rands s = (Return (), s') \<and>
    ring_ok (rs @ map read_current_value rands) s' \<and> node_threshold s' = node_threshold s \<and>
    (rands \<noteq> [] \<longrightarrow> node_current_value s' = f32_of_int (read_current_value (last rands)) \<and>
      (\<exists>m. node_typical s' = f32_of_int m \<and>
        is_median (drop (length rs + length rands - 60) (rs @ map read_current_value rands)) m))"
  using assms
proof (induction rands arbitrary: rs s)
  case (Cons r rands)
  obtain s1 m where s1: "updating_values_round n a r s = (Return (), s1)"
      "ring_ok (rs @ [read_current_value r]) s1" "node_threshold s1 = node_threshold s"
      "node_current_value s1 = f32_of_int (read_current_value r)" "node_typical s1 = f32_of_int m"
      "is_median (drop (length rs + 1 - 60) (rs @ [read_current_value r])) m"
    using updating_values_round_ring [OF Cons.prems] by blast
  show ?case
  proof (cases "rands = []")
    case True
    with s1 show ?thesis by (auto simp: andthen_def)
  next
    case False
    with Cons.IH [OF s1(2)] s1 show ?thesis by (auto simp: andthen_def)
  qed
qed simp

lemma ring_start: "length arr = 60 \<Longrightarrow> ring_ok [] (new_SensorNode arr a)"
  by (simp add: ring_ok_def new_SensorNode_def)

section \<open>A threshold question of the central station\<close>

text \<open>The first seventeen bytes hold the whole number of a threshold of at most three digits.\<close>

lemma threshold_question:
  assumes "k < 1000"
  shows "\<exists>d. take 17 (''set_threshold '' @ to_string_f32 (f32_of_int (int k))) = ''set_threshold '' @ d \<and>
    length d = 3 \<and> CHR 0x00 \<notin> set d \<and> stoi d = Inr (int k)"
proof -
  let ?d = "take 3 (show_nat k @ ''.000000'')"
  have "k div 10 div 10 < 10" using assms by (simp add: div_mult2_eq [symmetric] less_mult_imp_div_less)
  then have len: "length (show_nat k) \<in> {1, 2, 3}"
    by (simp add: show_nat.simps [of k] show_nat.simps [of "k div 10"] show_nat.simps [of "k div 10 div 10"])
  then have d: "?d = show_nat k @ take (3 - length (show_nat k)) ''.000000''" by auto
  have "list_all is_digit (show_nat k)" by (simp add: number_show_nat)
  then have "CHR 0x00 \<notin> set (show_nat k)" by (auto simp: list_all_iff is_digit_def)
  then have "CHR 0x00 \<notin> set ?d" by (auto dest!: in_set_takeD)
  moreover have "stoi ?d = Inr (int k)"
    unfolding d using assms len by (intro stoi_nat) (auto simp: is_digit_def)
  moreover have "take 17 (''set_threshold '' @ to_string_f32 (f32_of_int (int k))) = ''set_threshold '' @ ?d"
    using assms to_string_nat [of k] by (simp add: f32_of_int_def)
  moreover have "length ?d = 3" using len by auto
  ultimately show ?thesis by blast
qed

lemma accept_threshold_replies:
  assumes "incrementPort n (clientAddress (server1 s)) = Inr b" "clientAddressIsCorrect (server1 s)"
    and "17 \<le> length (''threshold: '' @ show_int k @ CHR 0x00 # behind_answer)"
    and "0 < sendto n (take 17 (''threshold: '' @ show_int k @ CHR 0x00 # behind_answer)) b"
  shows "\<exists>s'. accept_threshold n behind_answer 17 k s = (Return (), s') \<and>
    node_threshold s' = f32_of_int k \<and>
    replies (server1 s') = replies (server1 s) @
      [(take 17 (''threshold: '' @ show_int k @ CHR 0x00 # behind_answer), b)]"
  using assms
  by (simp add: accept_threshold_def andthen_def Let_def on_server1_def server_send_def)

lemma receive_seventeen:
  assumes "17 \<le> length data"
  shows "on_server1 (server_receive (Received data addr) (replicate 17 (CHR 0x00)) 17) s =
    (Return (17, take 17 data), s\<lparr>server1 :=
       (server1 s)\<lparr>clientAddress := addr, clientAddressIsCorrect := True\<rparr>\<rparr>)"
  using assms by (simp add: on_server1_def Let_def)

text \<open>A buffer without a zero byte is read on into the memory behind it.\<close>

lemma read_string_full:
  "CHR 0x00 \<notin> set buffer \<Longrightarrow> CHR 0x00 \<in> set behind \<Longrightarrow>
     read_string behind buffer s = (Return (buffer @ c_str behind), s)"
  by (simp add: read_string_def c_str_def takeWhile_append)

lemma set_threshold_round_accepts:
  assumes "take 17 data = ''set_threshold '' @ d" "length d = 3" "CHR 0x00 \<notin> set d" "stoi d = Inr k"
    and "0 < k" "k < 100" "CHR 0x00 \<in> set behind" "incrementPort n addr = Inr b"
    and "17 \<le> length (''threshold: '' @ show_int k @ CHR 0x00 # behind_answer)"
    and "0 < sendto n (take 17 (''threshold: '' @ show_int k @ CHR 0x00 # behind_answer)) b"
  shows "\<exists>s'. set_threshold_receive_round n behind behind_answer (Received data addr) s = (Return None, s') \<and>
    node_threshold s' = f32_of_int k \<and>
    replies (server1 s') = replies (server1 s) @
      [(take 17 (''threshold: '' @ show_int k @ CHR 0x00 # behind_answer), b)]"
proof -
  let ?s = "s\<lparr>server1 := (server1 s)\<lparr>clientAddress := addr, clientAddressIsCorrect := True\<rparr>,
    prints := prints s @ [''<-received '' @ (''set_threshold '' @ d @ c_str behind) @ '' on port: 7000'']\<rparr>"
  have "17 = length (take 17 data)" using assms(1,2) by simp
  then have data: "17 \<le> length data" by (metis length_take min.cobounded1)
  have read: "read_string behind (take 17 data) s' = (Return (''set_threshold '' @ d @ c_str behind), s')" for s' :: "'c SensorNode_scheme"
    using assms(1,3,7) read_string_full [of "take 17 data" behind s'] by auto
  have sub: "substr_checked 14 3 (''set_threshold '' @ d @ c_str behind) = Inr d"
    using assms(2) by (simp add: substr_checked_def)
  have start: "starts_with ''set_threshold'' (''set_threshold '' @ d @ c_str behind)"
    by (simp add: starts_with_def)
  obtain s' where "accept_threshold n behind_answer 17 k ?s = (Return (), s')"
      "node_threshold s' = f32_of_int k" "replies (server1 s') = replies (server1 s) @
      [(take 17 (''threshold: '' @ show_int k @ CHR 0x00 # behind_answer), b)]"
    using accept_threshold_replies [of n ?s b k behind_answer] assms by auto
  then show ?thesis
    using assms(4-6) start sub
    by (simp add: set_threshold_receive_round_def try_catch_def andthen_def receive_seventeen [OF data] read
        del: server_receive.simps append_Cons)
qed

text \<open>In the view of the C++ standard the read past the buffer is undefined.\<close>

lemma set_threshold_round_overread:
  assumes "17 \<le> length data" "CHR 0x00 \<notin> set (take 17 data)"
  shows "fst (set_threshold_receive_round n [] behind_answer (Received data addr) s) = Undefined"
  using assms
  by (simp add: set_threshold_receive_round_def try_catch_def andthen_def receive_seventeen
      read_string_def del: server_receive.simps)

text \<open>A threshold outside 1 to 99 changes nothing and gets no answer.\<close>

lemma set_threshold_round_rejects:
  assumes "take 17 data = ''set_threshold '' @ d" "length d = 3" "CHR 0x00 \<notin> set d" "stoi d = Inr k"
    and "k \<le> 0 \<or> 100 \<le> k" "CHR 0x00 \<in> set behind"
  shows "\<exists>s'. set_threshold_receive_round n behind behind_answer (Received data addr) s = (Return None, s') \<and>
    node_threshold s' = node_threshold s \<and> replies (server1 s') = replies (server1 s)"
proof -
  have "17 = length (take 17 data)" using assms(1,2) by simp
  then have data: "17 \<le> length data" by (metis length_take min.cobounded1)
  have read: "read_string behind (take 17 data) s' = (Return (''set_threshold '' @ d @ c_str behind), s')" for s' :: "'c SensorNode_scheme"
    using assms(1,3,6) read_string_full [of "take 17 data" behind s'] by auto
  have sub: "substr_checked 14 3 (''set_threshold '' @ d @ c_str behind) = Inr d"
    using assms(2) by (simp add: substr_checked_def)
  have start: "starts_with ''set_threshold'' (''set_threshold '' @ d @ c_str behind)"
    by (simp add: starts_with_def)
  show ?thesis
    using assms(4,5) start sub
    by (auto simp add: set_threshold_receive_round_def try_catch_def andthen_def receive_seventeen [OF data] read
        simp del: server_receive.simps append_Cons)
qed

text \<open>A question for the values is answered at the next port with both of them.\<close>

lemma server2_answers:
  assumes "clientAddressIsCorrect (server2 s)" "incrementPort n (clientAddress (server2 s)) = Inr b"
    and "0 < sendto n msg b"
  shows "on_server2 (server_send n msg (length msg)) s =
    (Return (sendto n msg b), s\<lparr>server2 := (server2 s)\<lparr>clientAddress := b, clientAddressIsCorrect := False,
       replies := replies (server2 s) @ [(msg, b)]\<rparr>\<rparr>)"
  using assms by (simp add: on_server2_def server_send_def Let_def)

lemma answer_values_round_replies:
  assumes "take 9 data = ''get_value''" "incrementPort n addr = Inr b"
    and "msg = values_text (node_current_value s) (node_typical s)" "0 < sendto n msg b"
  shows "\<exists>s'. answer_values_round n (Received data addr) s = (Return None, s') \<and>
    replies (server2 s') = replies (server2 s) @ [(msg, b)] \<and> same_values s s'"
proof -
  have "9 = length (take 9 data)" using assms(1) by simp
  then have data: "9 \<le> length data" by (metis length_take min.cobounded1)
  let ?buffer = "''get_value'' @ replicate 503 (CHR 0x00)"
  have recv: "on_server2 (server_receive (Received data addr) (replicate 512 (CHR 0x00)) 9) s =
    (Return (9, ?buffer), s\<lparr>server2 := (server2 s)\<lparr>clientAddress := addr, clientAddressIsCorrect := True\<rparr>\<rparr>)"
    using data assms(1) by (simp add: on_server2_def Let_def drop_replicate)
  have read: "read_string [] ?buffer s' = (Return ''get_value'', s')" for s' :: "'b SensorNode_scheme"
    using c_str_append_nul [of "''get_value''" "replicate 502 (CHR 0x00)"]
    by (simp add: read_string_def replicate_Suc [symmetric])
  show ?thesis
    using assms(2-) read
    by (simp add: answer_values_round_def try_catch_def andthen_def recv starts_with_def server2_answers
        same_values_def del: server_receive.simps append_Cons replicate.simps)
qed

section \<open>Properties\<close>

text \<open>
  C5: After any number of passes of the updating thread of a fresh sensor the
  typical value is a median of the last sixty readings (of all of them while there
  are fewer), the current value is the last reading, and no pass throws or runs
  into undefined behaviour, whatever the unset array held.
\<close>

theorem typical_is_median_of_last_60:
  assumes "length arr = 60" "rands \<noteq> []"
  shows "\<exists>s' m. updating_values n addr rands (new_SensorNode arr a) = (Return (), s') \<and>
    node_current_value s' = f32_of_int (read_current_value (last rands)) \<and>
    node_typical s' = f32_of_int m \<and>
    is_median (drop (length rands - 60) (map read_current_value rands)) m"
  using updating_values_ring [OF ring_start [OF assms(1), of a], of n addr rands] assms(2) by auto

theorem typical_is_median_of_last_60_witness:
  "\<exists>s' m. updating_values example_net (loopback6 7500) [9, 4, 7]
      (new_SensorNode (replicate 60 0) (loopback6 0)) = (Return (), s') \<and>
    node_typical s' = f32_of_int m \<and> is_median [10, 5, 8] m"
  using typical_is_median_of_last_60 [of "replicate 60 0" "[9, 4, 7]" example_net "loopback6 7500" "loopback6 0"]
  by (auto simp: read_current_value_def)

lemma store_reading_client:
  "alarm_client (snd (store_reading r s)) = alarm_client s"
  "node_threshold (snd (store_reading r s)) = node_threshold s"
  "node_current_value (snd (store_reading r s)) = f32_of_int (read_current_value r)"
  by (simp_all add: store_reading_def Let_def)

text \<open>
  C6: A pass sends an alarm exactly when the reading is above the threshold: one
  datagram to the server with the reading and the new typical value.
\<close>

theorem alarm_sent_iff_above:
  assumes "ring_ok rs s" "node_threshold s = f32_of_int (int k)" "k \<le> 100"
    and "toString n addr = Inr key" "\<And>msg. 0 \<le> sendto n msg addr"
  shows "\<exists>s'. updating_values_round n addr r s = (Return (), s') \<and>
    sent (alarm_client s') = sent (alarm_client s) @
      (if int k < read_current_value r
       then [(alarm_text (f32_of_int (read_current_value r)) (node_typical s'), addr)] else [])"
proof -
  define s1 where "s1 = snd (store_reading r s)"
  have s1: "store_reading r s = (Return (), s1)" "alarm_client s1 = alarm_client s"
      "node_threshold s1 = f32_of_int (int k)" "node_current_value s1 = f32_of_int (read_current_value r)"
    using assms(2) by (simp_all add: s1_def store_reading_client) (simp add: store_reading_def)
  obtain m where m: "store_median s1 = (Return (), s1\<lparr>node_typical := f32_of_int m\<rparr>)"
    using ring_median [OF ring_store [OF assms(1), of r]] by (auto simp: s1_def)
  have less: "f32_less (f32_of_int (int k)) (f32_of_int (read_current_value r)) \<longleftrightarrow> int k < read_current_value r"
    using f32_less_nat [of k "nat (read_current_value r)"] assms(3)
    by (auto simp: read_current_value_def)
  have sends: "\<exists>c'. sendAndSaveCallback n msg addr (Some ()) c = (Return (), c') \<and>
      sent c' = sent c @ [(msg, addr)]" for msg c
    using assms(4) assms(5) [of msg]
    by (simp add: sendAndSaveCallback_def client_send_def save_callback_def andthen_def Let_def)
  obtain c' where c': "sendAndSaveCallback n (alarm_text (f32_of_int (read_current_value r)) (f32_of_int m))
      addr (Some ()) (alarm_client s) = (Return (), c')"
      "sent c' = sent (alarm_client s) @
        [(alarm_text (f32_of_int (read_current_value r)) (f32_of_int m), addr)]"
    using sends by blast
  show ?thesis
    using s1 m less c'
    by (simp add: updating_values_round_def andthen_def raise_alarm_def try_catch_def on_alarm_client_def)
qed

theorem alarm_sent_iff_above_witness:
  "\<exists>s'. updating_values_round example_net (loopback6 7500) 60
      ((new_SensorNode (replicate 60 0) (loopback6 0))\<lparr>node_threshold := f32_of_int 50\<rparr>) = (Return (), s') \<and>
    sent (alarm_client s') = [(alarm_text (f32_of_int 61) (node_typical s'), loopback6 7500)]"
  using alarm_sent_iff_above [where rs = "[]" and k = 50 and n = example_net and addr = "loopback6 7500" and r = 60
      and s = "(new_SensorNode (replicate 60 0) (loopback6 0))\<lparr>node_threshold := f32_of_int 50\<rparr>"]
  by (simp add: ring_ok_def new_SensorNode_def read_current_value_def new_UDPClient_def)

text \<open>
  C18: Of the whole thresholds that the station may send, 0 to 100, the sensor takes
  over exactly 1 to 99 and answers them at the next port; for the others it keeps its threshold
  and stays silent.  The question fills the receive buffer, so that the sensor reads on into the memory
  behind it; somewhere there a zero byte is assumed (\<open>threshold_question_overreads\<close>), the
  rest of it does not matter.
\<close>

theorem sensor_takes_threshold:
  assumes "k \<le> 100" "data = ''set_threshold '' @ to_string_f32 (f32_of_int (int k))"
    and "CHR 0x00 \<in> set behind" "incrementPort n addr = Inr b"
    and "reply = take 17 (''threshold: '' @ show_int (int k) @ CHR 0x00 # behind_answer)"
    and "length reply = 17" "0 < sendto n reply b"
  shows "\<exists>s'. set_threshold_receive_round n behind behind_answer (Received data addr) s = (Return None, s') \<and>
    (if 0 < k \<and> k < 100
     then node_threshold s' = f32_of_int (int k) \<and> replies (server1 s') = replies (server1 s) @ [(reply, b)]
     else node_threshold s' = node_threshold s \<and> replies (server1 s') = replies (server1 s))"
proof -
  obtain d where d: "take 17 data = ''set_threshold '' @ d" "length d = 3" "CHR 0x00 \<notin> set d" "stoi d = Inr (int k)"
    using threshold_question [of k] assms(1,2) by auto
  have long: "17 \<le> length (''threshold: '' @ show_int (int k) @ CHR 0x00 # behind_answer)"
    using assms(5,6) by (metis length_take min.cobounded1)
  show ?thesis
  proof (cases "0 < k \<and> k < 100")
    case True
    then show ?thesis
      using set_threshold_round_accepts [OF d, where behind = behind and n = n and addr = addr and b = b
          and behind_answer = behind_answer and s = s] assms long by auto
  next
    case False
    then show ?thesis
      using set_threshold_round_rejects [OF d, where behind = behind and n = n and addr = addr
          and behind_answer = behind_answer and s = s] assms by auto
  qed
qed

theorem sensor_takes_threshold_witness:
  "\<exists>s'. set_threshold_receive_round example_net [CHR 0x00] (replicate 9 (CHR 0x00))
      (Received (''set_threshold '' @ to_string_f32 (f32_of_int (int 40))) (loopback6 7501))
      (new_SensorNode (replicate 60 0) (loopback6 0)) = (Return None, s') \<and>
    node_threshold s' = f32_of_int (int 40)"
  using sensor_takes_threshold [where k = 40 and n = example_net and addr = "loopback6 7501" and
      b = "loopback6 7502" and behind = "[CHR 0x00]" and behind_answer = "replicate 9 (CHR 0x00)" and
      data = "''set_threshold '' @ to_string_f32 (f32_of_int (int 40))" and
      reply = "take 17 (''threshold: '' @ show_int (int 40) @ CHR 0x00 # replicate 9 (CHR 0x00))" and
      s = "new_SensorNode (replicate 60 0) (loopback6 0)"]
  by (force simp: show_int_def show_nat.simps)

text \<open>
  In the view of the C++ standard every threshold question of the station is
  undefined behaviour on the sensor: its text fills the receive buffer of 17 bytes
  without a terminating zero.
\<close>

lemma threshold_question_overreads:
  "fst (set_threshold_receive_round n [] behind_answer
     (Received (''set_threshold '' @ to_string_f32 x) addr) s) = Undefined"
  by (rule set_threshold_round_overread) (auto simp: to_string_f32_shape dest!: in_set_takeD)

text \<open>
  A question \<open>get_value\<close>, with whatever follows it, is answered at the next port
  with the current and the typical value, and changes neither.
\<close>

lemma sensor_answers_values:
  assumes "take 9 data = ''get_value''" "incrementPort n addr = Inr b"
    and "msg = values_text (node_current_value s) (node_typical s)" "0 < sendto n msg b"
  shows "\<exists>s'. answer_values_round n (Received data addr) s = (Return None, s') \<and>
    replies (server2 s') = replies (server2 s) @ [(msg, b)] \<and> same_values s s'"
  using answer_values_round_replies [OF assms] by auto

lemma new_SensorNode_values [simp]:
  "node_current_value (new_SensorNode arr a) = f32_of_int 40"
  "node_typical (new_SensorNode arr a) = f32_of_int 0"
  "replies (server2 (new_SensorNode arr a)) = []" "values_text c v \<noteq> []"
  by (simp_all add: new_SensorNode_def new_UDPServer_def values_text_def)

end
