(* ===== verification/ScopeRunner.thy ===== *)
theory ScopeRunner
  imports Main
begin

text \<open>
  \<open>ScopeRunner\<close> of \<open>utility.hpp\<close>: the lock under which every handler of the HTTP server
  runs, so that the destructor of the server can wait for the handlers and refuse new
  ones.  It is a shared counter that the threads change by atomic operations;
  \<open>compare_exchange_weak\<close> may fail without a reason.  The state holds the counter and
  where each thread is; a step is one atomic operation of one thread.
\<close>

section \<open>State and steps\<close>

text \<open>
  \<open>Trying e\<close> is a thread in the loop of \<open>continue_lock\<close> with \<open>e\<close> in \<open>expected\<close>, and
  \<open>Stopping\<close> one in the loop of \<open>stop\<close>, where \<open>expected\<close> is 0 before every attempt.
  \<open>Granted\<close> is a thread that holds a \<open>SharedLock\<close>, \<open>Refused\<close> one that has received a
  null pointer, and \<open>Stopped\<close> one whose \<open>stop\<close> has returned.
\<close>

datatype location = Idle | Trying int | Granted | Refused | Stopping | Stopped

record runner =
  scope_count :: int
  scope_threads :: "location list"

definition new_ScopeRunner :: "nat \<Rightarrow> runner" where
  "new_ScopeRunner k = \<lparr>scope_count = 0, scope_threads = replicate k Idle\<rparr>"

inductive scope_step :: "runner \<Rightarrow> runner \<Rightarrow> bool" where
  load: "i < length ts \<Longrightarrow> ts ! i = Idle \<Longrightarrow>
     scope_step \<lparr>scope_count = c, scope_threads = ts\<rparr> \<lparr>scope_count = c, scope_threads = ts[i := Trying c]\<rparr>"
| exchange: "i < length ts \<Longrightarrow> ts ! i = Trying c \<Longrightarrow> 0 \<le> c \<Longrightarrow>
     scope_step \<lparr>scope_count = c, scope_threads = ts\<rparr> \<lparr>scope_count = c + 1, scope_threads = ts[i := Granted]\<rparr>"
| exchange_fails: "i < length ts \<Longrightarrow> ts ! i = Trying e \<Longrightarrow> 0 \<le> e \<Longrightarrow>
     scope_step \<lparr>scope_count = c, scope_threads = ts\<rparr> \<lparr>scope_count = c, scope_threads = ts[i := Trying c]\<rparr>"
| refuse: "i < length ts \<Longrightarrow> ts ! i = Trying e \<Longrightarrow> e < 0 \<Longrightarrow>
     scope_step \<lparr>scope_count = c, scope_threads = ts\<rparr> \<lparr>scope_count = c, scope_threads = ts[i := Refused]\<rparr>"
| release: "i < length ts \<Longrightarrow> ts ! i = Granted \<Longrightarrow>
     scope_step \<lparr>scope_count = c, scope_threads = ts\<rparr> \<lparr>scope_count = c - 1, scope_threads = ts[i := Idle]\<rparr>"
| leave: "i < length ts \<Longrightarrow> ts ! i = Refused \<Longrightarrow>
     scope_step \<lparr>scope_count = c, scope_threads = ts\<rparr> \<lparr>scope_count = c, scope_threads = ts[i := Idle]\<rparr>"
| stop: "i < length ts \<Longrightarrow> ts ! i = Idle \<Longrightarrow>
     scope_step \<lparr>scope_count = c, scope_threads = ts\<rparr> \<lparr>scope_count = c, scope_threads = ts[i := Stopping]\<rparr>"
| stop_exchange: "i < length ts \<Longrightarrow> ts ! i = Stopping \<Longrightarrow>
     scope_step \<lparr>scope_count = 0, scope_threads = ts\<rparr> \<lparr>scope_count = - 1, scope_threads = ts[i := Stopped]\<rparr>"
| stop_fails: "i < length ts \<Longrightarrow> ts ! i = Stopping \<Longrightarrow>
     scope_step \<lparr>scope_count = c, scope_threads = ts\<rparr>
       \<lparr>scope_count = c, scope_threads = ts[i := (if c < 0 then Stopped else Stopping)]\<rparr>"

inductive_cases scope_stepE: "scope_step s s'"

inductive scope_run :: "runner \<Rightarrow> runner \<Rightarrow> bool" where
  start: "scope_run s s"
| step: "scope_run s s' \<Longrightarrow> scope_step s' s'' \<Longrightarrow> scope_run s s''"

section \<open>The counter\<close>

definition locks :: "location list \<Rightarrow> nat" where
  "locks ts = length (filter (\<lambda>l. l = Granted) ts)"

definition granted :: "runner \<Rightarrow> nat" where
  "granted s = locks (scope_threads s)"

text \<open>What a thread has seen, depending on whether the runner has ended.\<close>

fun location_ok :: "bool \<Rightarrow> location \<Rightarrow> bool" where
  "location_ok ended (Trying e) \<longleftrightarrow> 0 \<le> e \<or> ended"
| "location_ok ended Granted \<longleftrightarrow> \<not> ended"
| "location_ok ended Refused \<longleftrightarrow> ended"
| "location_ok ended Stopped \<longleftrightarrow> ended"
| "location_ok ended _ \<longleftrightarrow> True"

text \<open>Before the end the counter is the number of the locks that are held.\<close>

definition runner_ok :: "runner \<Rightarrow> bool" where
  "runner_ok s \<longleftrightarrow> (scope_count s = - 1 \<or> scope_count s = int (granted s)) \<and>
     list_all (location_ok (scope_count s = - 1)) (scope_threads s)"

lemma filter_update:
  "i < length xs \<Longrightarrow> length (filter P (xs[i := x])) + (if P (xs ! i) then 1 else 0) =
    length (filter P xs) + (if P x then 1 else 0)"
proof (induction xs arbitrary: i)
  case (Cons y xs)
  then show ?case using Cons.IH [of "i - 1"] by (cases i) (auto split: if_splits)
qed simp

lemma locks_update:
  "i < length ts \<Longrightarrow> locks (ts[i := l]) + (if ts ! i = Granted then 1 else 0) =
     locks ts + (if l = Granted then 1 else 0)"
  using filter_update [of i ts "\<lambda>l. l = Granted" l] by (simp add: locks_def)

lemma locks_same [simp]:
  "i < length ts \<Longrightarrow> ts ! i \<noteq> Granted \<Longrightarrow> l \<noteq> Granted \<Longrightarrow> locks (ts[i := l]) = locks ts"
  using locks_update [of i ts l] by simp

lemma list_all_update: "list_all P xs \<Longrightarrow> P x \<Longrightarrow> list_all P (xs[i := x])"
  using set_update_subset_insert [of xs i x] by (auto simp: list_all_iff)

lemma location_ok_at: "list_all (location_ok e) ts \<Longrightarrow> i < length ts \<Longrightarrow> location_ok e (ts ! i)"
  by (simp add: list_all_length)

lemma location_ok_end: "location_ok False l \<Longrightarrow> l \<noteq> Granted \<Longrightarrow> location_ok True l"
  by (cases l) auto

lemma scope_step_ok: "scope_step s s' \<Longrightarrow> runner_ok s \<Longrightarrow> runner_ok s'"
proof (induction rule: scope_step.induct)
  case (stop_exchange i ts)
  then have "\<forall>l \<in> set ts. l \<noteq> Granted"
    by (auto simp: runner_ok_def granted_def locks_def filter_empty_conv)
  then have "list_all (location_ok True) ts"
    using stop_exchange(3) location_ok_end by (auto simp: runner_ok_def list_all_iff)
  then show ?case by (simp add: runner_ok_def list_all_update)
next
  case (release i ts c)
  then show ?case
    using locks_update [of i ts Idle] location_ok_at [of "c = - 1" ts i]
    by (auto simp: runner_ok_def granted_def intro: list_all_update)
next
  case (exchange i ts c)
  then show ?case
    using locks_update [of i ts Granted]
    by (auto simp: runner_ok_def granted_def intro: list_all_update)
qed (auto simp: runner_ok_def granted_def intro!: list_all_update dest: location_ok_at)

lemma scope_run_ok: "scope_run s s' \<Longrightarrow> runner_ok s \<Longrightarrow> runner_ok s'"
  by (induction rule: scope_run.induct) (auto intro: scope_step_ok)

lemma new_ScopeRunner_ok: "runner_ok (new_ScopeRunner k)"
  by (simp add: runner_ok_def new_ScopeRunner_def granted_def locks_def list_all_iff)

lemma ended_step: "scope_step s s' \<Longrightarrow> runner_ok s \<Longrightarrow> scope_count s = - 1 \<Longrightarrow> scope_count s' = - 1"
  by (induction rule: scope_step.induct) (auto simp: runner_ok_def dest: location_ok_at)

lemma ended_run: "scope_run s s' \<Longrightarrow> runner_ok s \<Longrightarrow> scope_count s = - 1 \<Longrightarrow> scope_count s' = - 1"
  by (induction rule: scope_run.induct) (auto intro: ended_step scope_run_ok)

lemma stopped_ended: "runner_ok s \<Longrightarrow> Stopped \<in> set (scope_threads s) \<Longrightarrow> scope_count s = - 1"
  by (auto simp: runner_ok_def list_all_iff)

lemma ended_no_lock: "runner_ok s \<Longrightarrow> scope_count s = - 1 \<Longrightarrow> Granted \<notin> set (scope_threads s)"
  by (auto simp: runner_ok_def list_all_iff)

section \<open>Properties\<close>

text \<open>
  C40: In every reachable state the counter is the number of the threads that hold a lock,
  or -1 when the runner has ended, and then none holds one; \<open>continue_lock\<close> gives a null
  pointer, and \<open>stop\<close> returns, only when it has ended.
\<close>

theorem scope_count_exact:
  assumes "scope_run (new_ScopeRunner k) s"
  shows "scope_count s = (if scope_count s = - 1 then - 1 else int (granted s)) \<and>
    (scope_count s = - 1 \<longrightarrow> Granted \<notin> set (scope_threads s)) \<and>
    (Refused \<in> set (scope_threads s) \<or> Stopped \<in> set (scope_threads s) \<longrightarrow> scope_count s = - 1)"
  using scope_run_ok [OF assms new_ScopeRunner_ok]
  by (auto simp: runner_ok_def list_all_iff)

text \<open>
  C24: Once a call of \<open>stop\<close> has returned, in any interleaving of any number of threads,
  no thread holds a lock and none ever gets one again.
\<close>

theorem stop_is_final:
  assumes "scope_run (new_ScopeRunner k) s" "Stopped \<in> set (scope_threads s)" "scope_run s s'"
  shows "Granted \<notin> set (scope_threads s')"
proof -
  have ok: "runner_ok s" using assms(1) new_ScopeRunner_ok by (rule scope_run_ok)
  then have "scope_count s' = - 1" using assms(2,3) by (blast intro: ended_run stopped_ended)
  with scope_run_ok [OF assms(3) ok] show ?thesis by (rule ended_no_lock)
qed

text \<open>Two threads: one gets a lock and gives it back, the other stops the runner.\<close>

lemma example_run:
  "scope_run (new_ScopeRunner 2) \<lparr>scope_count = 1, scope_threads = [Granted, Stopping]\<rparr>"
  "scope_run (new_ScopeRunner 2) \<lparr>scope_count = - 1, scope_threads = [Idle, Stopped]\<rparr>"
proof -
  have "scope_run (new_ScopeRunner 2) \<lparr>scope_count = 0, scope_threads = [Idle, Idle]\<rparr>"
    by (simp add: new_ScopeRunner_def numeral_2_eq_2 scope_run.start)
  then have "scope_run (new_ScopeRunner 2) \<lparr>scope_count = 0, scope_threads = [Trying 0, Idle]\<rparr>"
    by (rule scope_run.step) (use scope_step.load [of 0 "[Idle, Idle]" 0] in simp)
  then have "scope_run (new_ScopeRunner 2) \<lparr>scope_count = 0, scope_threads = [Trying 0, Stopping]\<rparr>"
    by (rule scope_run.step) (use scope_step.stop [of 1 "[Trying 0, Idle]" 0] in simp)
  then show granted: "scope_run (new_ScopeRunner 2) \<lparr>scope_count = 1, scope_threads = [Granted, Stopping]\<rparr>"
    by (rule scope_run.step) (use scope_step.exchange [of 0 "[Trying 0, Stopping]" 0] in simp)
  then have "scope_run (new_ScopeRunner 2) \<lparr>scope_count = 0, scope_threads = [Idle, Stopping]\<rparr>"
    by (rule scope_run.step) (use scope_step.release [of 0 "[Granted, Stopping]" 1] in simp)
  then show "scope_run (new_ScopeRunner 2) \<lparr>scope_count = - 1, scope_threads = [Idle, Stopped]\<rparr>"
    by (rule scope_run.step) (use scope_step.stop_exchange [of 1 "[Idle, Stopping]"] in simp)
qed

theorem scope_count_exact_witness:
  "Granted \<in> set (scope_threads \<lparr>scope_count = 1, scope_threads = [Granted, Stopping]\<rparr>) \<and>
   (1::int) = int (granted \<lparr>scope_count = 1, scope_threads = [Granted, Stopping]\<rparr>)"
  using scope_count_exact [OF example_run(1)] by simp

theorem stop_is_final_witness:
  "\<exists>s'. scope_run \<lparr>scope_count = - 1, scope_threads = [Idle, Stopped]\<rparr> s' \<and> scope_threads s' = [Trying (- 1), Stopped] \<and>
     Granted \<notin> set (scope_threads s')"
proof -
  let ?s = "\<lparr>scope_count = - 1, scope_threads = [Idle, Stopped]\<rparr>" and ?s' = "\<lparr>scope_count = - 1, scope_threads = [Trying (- 1), Stopped]\<rparr>"
  have "scope_run ?s ?s'"
    by (rule scope_run.step [OF scope_run.start]) (use scope_step.load [of 0 "[Idle, Stopped]" "- 1"] in simp)
  with stop_is_final [OF example_run(2) _ this] show ?thesis by auto
qed

end
