(* ===== verification/EndToEnd.thy ===== *)
theory EndToEnd
  imports CentralSteps Restart SensorNode ScopeRunner
begin

text \<open>
  Lemmas for the exchanges between the programs: how the texts that one of them sends are
  split and read by the other, and what the alarm server and the executor do with
  the messages of a sensor and of the config program.
\<close>

section \<open>What a receiver reads\<close>

lemma split_blank_prefix:
  "CHR '' '' \<notin> set w \<Longrightarrow> split_blank (w @ r) = (w @ hd (split_blank r)) # tl (split_blank r)"
proof (induction w)
  case Nil
  then show ?case using split_blank_nonempty [of r] by simp
qed auto

lemma blank_free_number: "CHR '' '' \<notin> set (show_nat k)" "CHR 0x00 \<notin> set (show_nat k)"
  using number_show_nat [of k] by (auto simp: list_all_iff is_digit_def)

lemma to_string_int:
  "k < 2 ^ 24 \<Longrightarrow> to_string_f32 (f32_of_int (int k)) = show_nat k @ ''.000000''"
  using to_string_nat by (simp add: f32_of_int_def)

lemma stof_to_string: "k < 2 ^ 24 \<Longrightarrow> stof (to_string_f32 (f32_of_int (int k))) = Inr (f32_of_int (int k))"
  using stof_nat(2) [of k "[]" 6] to_string_int [of k]
  by (simp add: ends_number_def f32_of_int_def replicate_eval)

lemma blank_free_string: "k < 2 ^ 24 \<Longrightarrow> CHR '' '' \<notin> set (to_string_f32 (f32_of_int (int k)))"
  using blank_free_number(1) [of k] by (simp add: to_string_int)

lemma split_values:
  assumes "c < 2 ^ 24" "v < 2 ^ 24"
  shows "split_blank (values_text (f32_of_int (int c)) (f32_of_int (int v))) =
    [''current_value:'', to_string_f32 (f32_of_int (int c)), ''typical_value:'', to_string_f32 (f32_of_int (int v))]"
  using assms blank_free_string [of c] blank_free_string [of v]
  by (simp add: values_text_def split_blank_cons split_blank_word)

lemma split_alarm:
  assumes "c < 2 ^ 24" "v < 2 ^ 24"
  shows "split_blank (alarm_text (f32_of_int (int c)) (f32_of_int (int v))) =
    [''alarm'', ''current_value:'', to_string_f32 (f32_of_int (int c)), ''typical_value:'',
     to_string_f32 (f32_of_int (int v))]"
  using assms blank_free_string [of c] blank_free_string [of v]
  by (simp add: alarm_text_def split_blank_cons split_blank_word)

lemma short_number: "k < 100 \<Longrightarrow> length (show_nat k) \<le> 2"
proof -
  assume "k < 100"
  then have "k div 10 < 10" by (simp add: less_mult_imp_div_less)
  then show "length (show_nat k) \<le> 2"
    by (simp add: show_nat.simps [of k] show_nat.simps [of "k div 10"])
qed

text \<open>The answer of the sensor to a threshold, cut at the length of the question.\<close>

lemma split_threshold_answer:
  assumes "k < 100" "reply = take 17 (''threshold: '' @ show_int (int k) @ CHR 0x00 # behind)"
  shows "\<exists>v rest. split_blank reply = ''threshold:'' # v # rest \<and> stof v = Inr (f32_of_int (int k))"
proof -
  have len: "length (show_nat k) \<le> 2" using assms(1) by (rule short_number)
  let ?m = "take (5 - length (show_nat k)) behind"
  have "reply = ''threshold:'' @ CHR '' '' # show_nat k @ CHR 0x00 # ?m"
    using len assms(2) by (simp add: show_int_def take_Cons')
  moreover have "CHR '' '' \<notin> set (show_nat k @ [CHR 0x00])" using blank_free_number(1) by simp
  ultimately have "split_blank reply = ''threshold:'' # (show_nat k @ CHR 0x00 # hd (split_blank ?m)) # tl (split_blank ?m)"
    using split_blank_prefix [of "show_nat k @ [CHR 0x00]" ?m] by (simp add: split_blank_cons)
  moreover have "stof (show_nat k @ CHR 0x00 # hd (split_blank ?m)) = Inr (f32_of_int (int k))"
    using stof_nat(1) [of k "CHR 0x00 # hd (split_blank ?m)"] assms(1)
    by (simp add: ends_number_def is_digit_def to_lower_def f32_of_int_def)
  ultimately show ?thesis by simp
qed

text \<open>A well-formed alarm of a known sensor.\<close>

lemma alarm_round_known:
  assumes "alarm_buffer s = replicate 512 (CHR 0x00)" "split_ok n"
    and "split_blank data = [''alarm'', ''current_value:'', cw, ''typical_value:'', vw]"
    and "stof cw = Inr c" "stof vw = Inr v" "hostToString n src = Inr host" "om_find host (sensors s) = Some info"
    and "incrementPort n src = Inr b" "0 \<le> sendto n data b"
    and "data \<noteq> []" "length data \<le> 511" "CHR 0x00 \<notin> set data" "hd data \<noteq> CHR 0xFF"
  shows "\<exists>s'. alarm_round n (Received data src) s = (Return False, s') \<and>
    alarm_buffer s' = replicate 512 (CHR 0x00) \<and>
    om_find host (sensors s') = Some (info\<lparr>current_value := c, typical_value := v, flag := False\<rparr>) \<and>
    replies (alarm_server s') = replies (alarm_server s) @ [(data, b)]"
proof -
  define buf where "buf = data @ replicate (512 - length data) (CHR 0x00)"
  let ?s = "s\<lparr>alarm_server := (alarm_server s)\<lparr>clientAddress := src, clientAddressIsCorrect := True\<rparr>,
    alarm_buffer := buf\<rparr>"
  have nul: "replicate (512 - length data) (CHR 0x00) = CHR 0x00 # replicate (511 - length data) (CHR 0x00)"
    using assms(11) by (simp flip: replicate_Suc)
  have recv: "alarm_receive (Received data src) s = (Return (int (length data)), ?s)"
    using assms(1,11) by (simp add: alarm_receive_apply buf_def)
  have str: "c_str buf = data" using assms(12) nul by (simp add: buf_def c_str_append_nul)
  have first: "buf ! 0 \<noteq> CHR 0xFF" "CHR 0x00 \<in> set buf"
    using assms(10,13) nul by (simp_all add: buf_def nth_append hd_conv_nth)
  obtain s1 where s1: "handle_alarm n host data ?s = (Return (), s1)" "alarm_server s1 = alarm_server ?s"
      "om_find host (sensors s1) = Some (info\<lparr>current_value := c, typical_value := v, flag := False\<rparr>)"
    using assms(2-5,7)
    by (simp add: handle_alarm_def split_ok_eq andthen_def set_values_def find_sensor_def omap_simps)
  have "server_send n buf (length data) (alarm_server ?s) = (Return (sendto n data b),
      (alarm_server s)\<lparr>clientAddress := b, clientAddressIsCorrect := False, replies := replies (alarm_server s) @ [(data, b)]\<rparr>)"
    using assms(8,9) by (simp add: server_send_def Let_def buf_def)
  then show ?thesis
    using s1 first assms(6)
    by (simp add: alarm_round_def alarm_pass_def try_catch_def andthen_def recv str on_alarm_server_def)
qed

text \<open>The command \<open>exit\<close> of the config program ends the loop of the executor.\<close>

lemma execute_round_exit:
  assumes "r = \<lparr>open_in = True, open_out = True, read_in = Some (config_written ''exit''), write_out = w\<rparr>"
    and "length buf = BUFSIZ"
  shows "execute_round n t r buf s = (Return None, s\<lparr>logs := logs s @ [''Listening scripts OFF.'']\<rparr>)"
proof -
  let ?b = "take BUFSIZ (config_written ''exit'') @ drop (length (take BUFSIZ (config_written ''exit''))) buf"
  have b: "?b = config_written ''exit''" using assms(2) by (simp add: config_written_def length_copy_to_buffer)
  have c: "c_str ''exit'' = ''exit''" by (simp add: c_str_def)
  have "c_str (config_written ''exit'') = ''exit''" "config_written ''exit'' \<noteq> []"
    using length_copy_to_buffer [OF BUFSIZ_pos, of "''exit''"]
    by (auto simp: config_written_def c_str_copy_to_buffer c BUFSIZ_def)
  moreover have "CHR 0x00 \<in> set (config_written ''exit'')" by (simp add: config_written_def nul_copy_to_buffer)
  ultimately show ?thesis
    using assms(1) b by (simp add: andthen_def execute_round_def Let_def)
qed

lemma execute_exit:
  assumes "r = \<lparr>open_in = True, open_out = True, read_in = Some (config_written ''exit''), write_out = w\<rparr>"
    and "length buf = BUFSIZ"
  shows "execute n Created Created [(t, r)] buf s = (Return True, s\<lparr>fifo_in := False, fifo_out := False,
    logs := logs s @ [''Listening for scripts - ON.'', ''Listening scripts OFF.'']\<rparr>)"
  by (simp add: execute_def make_fifos_def andthen_def execute_round_exit [OF assms])

end
