(* ===== verification/MainProcess.thy ===== *)
theory MainProcess
  imports HttpStation EndToEnd Restart
begin

text \<open>
  The whole process of the station: \<open>main\<close> of \<open>central/src/main.cpp\<close> with its threads.  The
  state holds the HTTP server, which contains the state of the station, where the main
  thread is, and which of the other threads run.  A step is one step of one thread.  An
  exception that leaves a thread, or the main thread while the others are joinable, ends
  the process at once; undefined behaviour has no step.
\<close>

section \<open>State\<close>

datatype main_place =
    Main_create_http
  | Main_create_alarm
  | Main_create_polling
  | Main_fifos
  | Main_scripts string
  | Main_end_alarm
  | Main_end_polling
  | Main_stop_http
  | Main_join
  | Main_saved

datatype thread_place = No_thread | Thread_created | Thread_runs | Thread_ended

record Process =
  service :: "Central Service"
  main_at :: main_place
  http_thread :: thread_place
  alarm_thread :: thread_place
  polling_thread :: thread_place
  receiver_thread_runs :: bool
  process_terminated :: bool

text \<open>\<open>main\<close> after the start from the file, before it creates the threads.\<close>

definition new_Process :: "Central \<Rightarrow> Process" where
  "new_Process a = \<lparr>service = new_Service a, main_at = Main_create_http, http_thread = No_thread,
     alarm_thread = No_thread, polling_thread = No_thread, receiver_thread_runs = True,
     process_terminated = False\<rparr>"

abbreviation station_of :: "Process \<Rightarrow> Central" where
  "station_of p \<equiv> app (service p)"

definition set_station :: "Central \<Rightarrow> Process \<Rightarrow> Process" where
  "set_station a p = p\<lparr>service := (service p)\<lparr>app := a\<rparr>\<rparr>"

definition terminate_process :: "Process \<Rightarrow> Process" where
  "terminate_process p = p\<lparr>process_terminated := True\<rparr>"

text \<open>An operation of a thread on the station, and where the thread goes when it has returned.\<close>

definition thread_op :: "(Central, 'r) op \<Rightarrow> ('r \<Rightarrow> Process \<Rightarrow> Process) \<Rightarrow> Process \<Rightarrow> Process option" where
  "thread_op m continue p =
     (case m (station_of p) of
        (Return x, a) \<Rightarrow> Some (continue x (set_station a p))
      | (Throw e, a) \<Rightarrow> Some (terminate_process (set_station a p))
      | (Undefined, a) \<Rightarrow> None)"

section \<open>The threads\<close>

text \<open>The thread of the HTTP server: \<open>httpServer.start ()\<close>.\<close>

definition http_begins :: "bool \<Rightarrow> Process \<Rightarrow> Process option" where
  "http_begins bound p =
     (case start bound (service p) of
        (Return _, sv) \<Rightarrow> Some (p\<lparr>service := sv, http_thread := Thread_runs\<rparr>)
      | (Throw e, sv) \<Rightarrow> Some (terminate_process (p\<lparr>service := sv\<rparr>))
      | (Undefined, sv) \<Rightarrow> None)"

definition has_thrown :: "'a Service \<Rightarrow> bool" where
  "has_thrown sv \<longleftrightarrow> list_ex (\<lambda>(k, c). awaiting c = Exception_thrown) (objects sv)"

definition http_goes_on :: "Central Service \<Rightarrow> Process \<Rightarrow> Process" where
  "http_goes_on sv p = p\<lparr>service := sv, process_terminated := has_thrown sv\<rparr>"

text \<open>
  The alarm server: the constructor of its \<open>UDPServer\<close>, then the passes of its loop.
  \<open>sock\<close> is what the constructor of the socket gives.
\<close>

definition alarm_begins :: "exn + UDPsocket \<Rightarrow> Process \<Rightarrow> Process" where
  "alarm_begins sock p = (case sock of Inl e \<Rightarrow> terminate_process p | Inr _ \<Rightarrow> p\<lparr>alarm_thread := Thread_runs\<rparr>)"

definition alarm_goes_on :: "'n central_env_scheme \<Rightarrow> recv_result \<Rightarrow> Process \<Rightarrow> Process option" where
  "alarm_goes_on n r = thread_op (alarm_round n r)
     (\<lambda>ended p. if ended then p\<lparr>alarm_thread := Thread_ended\<rparr> else p)"

definition polling_begins :: "exn + UDPsocket \<Rightarrow> Process \<Rightarrow> Process" where
  "polling_begins sock p = (case sock of
      Inl e \<Rightarrow> terminate_process p
    | Inr s \<Rightarrow> (set_station ((station_of p)\<lparr>polling_socket := s\<rparr>) p)\<lparr>polling_thread := Thread_runs\<rparr>)"

definition polling_goes_on :: "'n central_env_scheme \<Rightarrow> clock \<Rightarrow> recv_result \<Rightarrow> bool \<Rightarrow> Process \<Rightarrow> Process option" where
  "polling_goes_on n t r opens = thread_op (polling_step n t r opens)
     (\<lambda>_ p. if polling (station_of p) = Poll_ended then p\<lparr>polling_thread := Thread_ended\<rparr> else p)"

definition receiver_goes_on :: "'n central_env_scheme \<Rightarrow> Address \<Rightarrow> string \<Rightarrow> Process \<Rightarrow> Process option" where
  "receiver_goes_on n addr data = thread_op (receiver_step n addr data)
     (\<lambda>ended p. if ended then p\<lparr>receiver_thread_runs := False\<rparr> else p)"

section \<open>The main thread\<close>

definition main_op :: "(Central, main_place) op \<Rightarrow> Process \<Rightarrow> Process option" where
  "main_op m = thread_op m (\<lambda>place p. p\<lparr>main_at := place\<rparr>)"

text \<open>The creation of a thread, and the line in the log behind it.\<close>

definition main_creates_http :: "Process \<Rightarrow> Process option" where
  "main_creates_http p = main_op
     (andthen (log_msg ''Http web server started...'') (\<lambda>_. ret Main_create_alarm)) (p\<lparr>http_thread := Thread_created\<rparr>)"

definition main_creates_alarm :: "Process \<Rightarrow> Process option" where
  "main_creates_alarm p = main_op
     (andthen (log_msg ''Alarm server started...'') (\<lambda>_. ret Main_create_polling)) (p\<lparr>alarm_thread := Thread_created\<rparr>)"

definition main_creates_polling :: "Process \<Rightarrow> Process option" where
  "main_creates_polling p = main_op
     (andthen (log_msg ''Polling thread started...'') (\<lambda>_. ret Main_fifos)) (p\<lparr>polling_thread := Thread_created\<rparr>)"

text \<open>
  \<open>executeScripts\<close>: a \<open>std::logic_error\<close> is logged and ends the scripts, whatever else it
  throws leaves \<open>main\<close> while the threads are joinable.
\<close>

definition scripts_caught :: "(Central, main_place) op \<Rightarrow> (Central, main_place) op" where
  "scripts_caught m = try_catch m is_logic_error
     (\<lambda>_. andthen (log_msg ''Problem with creating pipe to listen scripts'') (\<lambda>_. ret Main_end_alarm))"

definition main_makes_fifos :: "mkfifo_result \<Rightarrow> mkfifo_result \<Rightarrow> string \<Rightarrow> Process \<Rightarrow> Process option" where
  "main_makes_fifos r_in r_out stack_buffer = main_op (scripts_caught
     (andthen (make_fifos r_in r_out) (\<lambda>_.
      andthen (log_msg ''Listening for scripts - ON.'') (\<lambda>_. ret (Main_scripts stack_buffer)))))"

definition main_runs_script :: "'n central_env_scheme \<Rightarrow> clock \<Rightarrow> fifo_round \<Rightarrow> string \<Rightarrow> Process \<Rightarrow> Process option" where
  "main_runs_script n t r buf = main_op (scripts_caught
     (andthen (execute_round n t r buf) (\<lambda>next.
        case next of
          None \<Rightarrow> andthen (change (\<lambda>s. s\<lparr>fifo_in := False, fifo_out := False\<rparr>)) (\<lambda>_. ret Main_end_alarm)
        | Some buf' \<Rightarrow> ret (Main_scripts buf'))))"

definition main_ends_alarm :: "'n central_env_scheme \<Rightarrow> Process \<Rightarrow> Process option" where
  "main_ends_alarm n = main_op (andthen (send_server_terminating_msg n ''7500'') (\<lambda>_. ret Main_end_polling))"

definition main_ends_polling :: "'n central_env_scheme \<Rightarrow> Process \<Rightarrow> Process option" where
  "main_ends_polling n = main_op (andthen (send_server_terminating_msg n ''7503'') (\<lambda>_. ret Main_stop_http))"

definition main_stops_http :: "Process \<Rightarrow> Process option" where
  "main_stops_http p =
     (case HttpService.stop (service p) of
        (Return _, sv) \<Rightarrow> Some (p\<lparr>service := sv, main_at := Main_join\<rparr>)
      | (_, sv) \<Rightarrow> None)"

text \<open>
  The three \<open>join\<close>s return when their threads have ended; \<open>opens\<close> tells whether the file of the
  table could be opened for the last save.
\<close>

definition main_saves :: "'n central_env_scheme \<Rightarrow> bool \<Rightarrow> Process \<Rightarrow> Process option" where
  "main_saves n opens p =
     (if alarm_thread p = Thread_ended \<and> http_thread p = Thread_ended \<and> polling_thread p = Thread_ended
      then main_op (andthen (last_save n opens) (\<lambda>_. ret Main_saved)) p else None)"

section \<open>Steps\<close>

inductive process_step :: "'n central_env_scheme \<Rightarrow> Config \<Rightarrow> Process \<Rightarrow> Process \<Rightarrow> bool" for n cfg where
  http_begin: "\<not> process_terminated p \<Longrightarrow> http_thread p = Thread_created \<Longrightarrow> http_begins bound p = Some p' \<Longrightarrow>
     process_step n cfg p p'"
| http_event: "\<not> process_terminated p \<Longrightarrow> http_thread p = Thread_runs \<Longrightarrow>
     service_event cfg (iter n) (station_handlers n) (service p) sv \<Longrightarrow> process_step n cfg p (http_goes_on sv p)"
| http_end: "\<not> process_terminated p \<Longrightarrow> http_thread p = Thread_runs \<Longrightarrow> \<not> io_running (service p) \<Longrightarrow>
     process_step n cfg p (p\<lparr>http_thread := Thread_ended\<rparr>)"
| alarm_begin: "\<not> process_terminated p \<Longrightarrow> alarm_thread p = Thread_created \<Longrightarrow>
     process_step n cfg p (alarm_begins (new_UDPsocket n 7500 d reuse bound) p)"
| alarm: "\<not> process_terminated p \<Longrightarrow> alarm_thread p = Thread_runs \<Longrightarrow> alarm_goes_on n r p = Some p' \<Longrightarrow>
     process_step n cfg p p'"
| polling_begin: "\<not> process_terminated p \<Longrightarrow> polling_thread p = Thread_created \<Longrightarrow>
     process_step n cfg p (polling_begins (new_UDPsocket n 7503 d reuse bound) p)"
| polling: "\<not> process_terminated p \<Longrightarrow> polling_thread p = Thread_runs \<Longrightarrow> polling_goes_on n t r opens p = Some p' \<Longrightarrow>
     process_step n cfg p p'"
| receiver: "\<not> process_terminated p \<Longrightarrow> receiver_thread_runs p \<Longrightarrow> receiver_goes_on n addr data p = Some p' \<Longrightarrow>
     process_step n cfg p p'"
| create_http: "\<not> process_terminated p \<Longrightarrow> main_at p = Main_create_http \<Longrightarrow> main_creates_http p = Some p' \<Longrightarrow>
     process_step n cfg p p'"
| create_alarm: "\<not> process_terminated p \<Longrightarrow> main_at p = Main_create_alarm \<Longrightarrow> main_creates_alarm p = Some p' \<Longrightarrow>
     process_step n cfg p p'"
| create_polling: "\<not> process_terminated p \<Longrightarrow> main_at p = Main_create_polling \<Longrightarrow> main_creates_polling p = Some p' \<Longrightarrow>
     process_step n cfg p p'"
| fifos: "\<not> process_terminated p \<Longrightarrow> main_at p = Main_fifos \<Longrightarrow> length buf = BUFSIZ \<Longrightarrow>
     main_makes_fifos r_in r_out buf p = Some p' \<Longrightarrow> process_step n cfg p p'"
| script: "\<not> process_terminated p \<Longrightarrow> main_at p = Main_scripts buf \<Longrightarrow> main_runs_script n t f buf p = Some p' \<Longrightarrow>
     process_step n cfg p p'"
| end_alarm: "\<not> process_terminated p \<Longrightarrow> main_at p = Main_end_alarm \<Longrightarrow> main_ends_alarm n p = Some p' \<Longrightarrow>
     process_step n cfg p p'"
| end_polling: "\<not> process_terminated p \<Longrightarrow> main_at p = Main_end_polling \<Longrightarrow> main_ends_polling n p = Some p' \<Longrightarrow>
     process_step n cfg p p'"
| stop_http: "\<not> process_terminated p \<Longrightarrow> main_at p = Main_stop_http \<Longrightarrow> main_stops_http p = Some p' \<Longrightarrow>
     process_step n cfg p p'"
| save: "\<not> process_terminated p \<Longrightarrow> main_at p = Main_join \<Longrightarrow> main_saves n opens p = Some p' \<Longrightarrow>
     process_step n cfg p p'"

inductive process_run :: "'n central_env_scheme \<Rightarrow> Config \<Rightarrow> Process \<Rightarrow> Process \<Rightarrow> bool" for n cfg where
  stay: "process_run n cfg p p"
| go: "process_run n cfg p p' \<Longrightarrow> process_step n cfg p' p'' \<Longrightarrow> process_run n cfg p p''"

text \<open>
  A process that has been started from the file of saved sensors or without it, with \<open>HOME\<close> set:
  without it the first line of the log ends the process by an exception.
\<close>

definition started_process :: "'n central_env_scheme \<Rightarrow> Process \<Rightarrow> bool" where
  "started_process n p \<longleftrightarrow> home_dir n \<noteq> None \<and> (\<exists>buf c sock a ts saved x0 from_file s.
     length buf = 512 \<and> length c = 1 \<and> receive_timeout sock = (0, 0) \<and>
     start_up n ts (home_dir n) saved x0 from_file (new_Central sock a buf c) = (Return (), s) \<and> p = new_Process s)"

section \<open>What the threads leave to each other\<close>

lemma set_station_simps [simp]:
  "app (service (set_station a p)) = a" "main_at (set_station a p) = main_at p"
  "http_thread (set_station a p) = http_thread p" "alarm_thread (set_station a p) = alarm_thread p"
  "polling_thread (set_station a p) = polling_thread p" "process_terminated (set_station a p) = process_terminated p"
  "receiver_thread_runs (set_station a p) = receiver_thread_runs p"
  "service (set_station a p) = (service p)\<lparr>app := a\<rparr>"
  by (simp_all add: set_station_def)

lemma terminate_process_simps [simp]:
  "service (terminate_process p) = service p" "main_at (terminate_process p) = main_at p"
  "http_thread (terminate_process p) = http_thread p" "alarm_thread (terminate_process p) = alarm_thread p"
  "polling_thread (terminate_process p) = polling_thread p" "process_terminated (terminate_process p)"
  "receiver_thread_runs (terminate_process p) = receiver_thread_runs p"
  by (simp_all add: terminate_process_def)

lemma thread_op_Some:
  "thread_op m continue p = Some p' \<longleftrightarrow>
     (\<exists>x a. m (station_of p) = (Return x, a) \<and> p' = continue x (set_station a p)) \<or>
     (\<exists>e a. m (station_of p) = (Throw e, a) \<and> p' = terminate_process (set_station a p))"
  by (auto simp: thread_op_def split: prod.splits outcome.splits)

text \<open>The variables of the polling thread and the file, which the other threads do not touch.\<close>

definition others_ok :: "polling_phase \<Rightarrow> string \<Rightarrow> Central \<Rightarrow> bool" where
  "others_ok ph d s \<longleftrightarrow> central_ok s \<and> polling s = ph \<and> data_txt s = d"

interpretation others: web_frame "others_ok ph d" for ph d
  by unfold_locales (auto simp: others_ok_def central_ok_def web_ok_def comm_ok_def client_ok_def)

interpretation other_requests: http_application "station_handlers n" "others_ok ph d" for n ph d
  by unfold_locales (auto simp: station_handlers_def station_handler_def intro: others.keeps_serve)

lemma keeps_alarm_others: "keeps (others_ok ph d) (alarm_round n r)"
proof -
  have "keeps (others_ok ph d) (on_alarm_server m)" for m :: "(UDPServer, 'b) op"
    by (auto simp: keeps_def on_alarm_server_def others_ok_def central_ok_def web_ok_def comm_ok_def split: prod.split)
  moreover have "keeps (others_ok ph d) (alarm_receive r)"
    by (cases r) (auto simp: keeps_def alarm_receive_def andthen_def Let_def on_alarm_server_def others_ok_def
        central_ok_def web_ok_def comm_ok_def)
  moreover have "keeps (others_ok ph d) (handle_alarm n a msg)" for a msg
    unfolding handle_alarm_def Let_def by (auto intro!: others.keeps_rules)
  moreover have "keeps (others_ok ph d) (change (\<lambda>s. s\<lparr>alarm_buffer := replicate 512 (CHR 0x00)\<rparr>))"
    by (auto simp: keeps_def others_ok_def central_ok_def web_ok_def comm_ok_def)
  ultimately show ?thesis
    unfolding alarm_round_def alarm_pass_def by (auto intro!: others.keeps_rules)
qed

lemma keeps_main_others:
  "keeps (others_ok ph d) (scripts_caught m)" if "keeps (others_ok ph d) m"
  using that unfolding scripts_caught_def by (auto intro!: others.keeps_rules)

lemma keeps_main_ops:
  "keeps (others_ok ph d) (andthen (make_fifos r_in r_out) (\<lambda>_.
      andthen (log_msg ''Listening for scripts - ON.'') (\<lambda>_. ret (Main_scripts buf))))"
  "keeps (others_ok ph d) (andthen (execute_round n t r buf) (\<lambda>next.
        case next of
          None \<Rightarrow> andthen (change (\<lambda>s. s\<lparr>fifo_in := False, fifo_out := False\<rparr>)) (\<lambda>_. ret Main_end_alarm)
        | Some buf' \<Rightarrow> ret (Main_scripts buf')))"
  "keeps (others_ok ph d) (andthen (send_server_terminating_msg n port) (\<lambda>_. ret place))"
  "keeps (others_ok ph d) (andthen (log_msg line) (\<lambda>_. ret place))"
  unfolding make_fifos_def
  by (auto intro!: others.keeps_rules others.keeps_fifos others.keeps_execute_round others.keeps_terminating_msg
      split: option.split)

section \<open>Invariant\<close>

text \<open>The server before its thread has begun, and after it has been stopped.\<close>

definition idle_service :: "'a Service \<Rightarrow> bool" where
  "idle_service sv \<longleftrightarrow> acceptor sv = None \<and> \<not> io_running sv \<and> accepting sv = None \<and> objects sv = [] \<and> connections sv = []"

definition stopped_service :: "'a Service \<Rightarrow> bool" where
  "stopped_service sv \<longleftrightarrow> acceptor sv = Some False \<and> \<not> io_running sv \<and> connections sv = [] \<and>
     (\<forall>k c. om_find k (objects sv) = Some c \<longrightarrow> \<not> socket_open c)"

definition serving :: "'a Service \<Rightarrow> bool" where
  "serving sv \<longleftrightarrow> acceptor sv = Some True \<and> io_running sv"

fun service_at :: "thread_place \<Rightarrow> main_place \<Rightarrow> 'a Service \<Rightarrow> bool" where
  "service_at No_thread m sv \<longleftrightarrow> idle_service sv"
| "service_at Thread_created m sv \<longleftrightarrow> idle_service sv \<and> m \<noteq> Main_create_http"
| "service_at Thread_runs m sv \<longleftrightarrow> serving sv \<and> m \<noteq> Main_create_http \<or> stopped_service sv \<and> m \<in> {Main_join, Main_saved}"
| "service_at Thread_ended m sv \<longleftrightarrow> stopped_service sv \<and> m \<in> {Main_join, Main_saved}"

text \<open>The buffer of the scripts keeps its size.\<close>

fun place_ok :: "main_place \<Rightarrow> bool" where
  "place_ok (Main_scripts buf) \<longleftrightarrow> length buf = BUFSIZ"
| "place_ok _ \<longleftrightarrow> True"

definition process_ok :: "Config \<Rightarrow> Process \<Rightarrow> bool" where
  "process_ok cfg p \<longleftrightarrow> service_ok cfg central_ok (service p) \<and> place_ok (main_at p) \<and>
     (\<not> process_terminated p \<longrightarrow>
        service_at (http_thread p) (main_at p) (service p) \<and>
        (polling_thread p = Thread_ended \<longrightarrow> polling (station_of p) = Poll_ended) \<and>
        (main_at p = Main_saved \<longrightarrow>
           http_thread p = Thread_ended \<and> alarm_thread p = Thread_ended \<and> polling_thread p = Thread_ended))"

lemma service_ok_app: "service_ok cfg I sv \<Longrightarrow> J a \<Longrightarrow> service_ok cfg J (sv\<lparr>app := a\<rparr>)"
  by (simp add: service_ok_def pointers_ok_def all_connections_ok_def)

lemma service_at_app [simp]: "service_at h m (sv\<lparr>app := a\<rparr>) = service_at h m sv"
  by (cases h) (simp_all add: idle_service_def serving_def stopped_service_def)

lemma service_ok_mono: "service_ok cfg I sv \<Longrightarrow> J (app sv) \<Longrightarrow> service_ok cfg J sv"
  by (simp add: service_ok_def)

lemma others_central: "others_ok ph d s \<Longrightarrow> central_ok s"
  by (simp add: others_ok_def)

lemma others_self: "central_ok s \<Longrightarrow> others_ok (polling s) (data_txt s) s"
  by (simp add: others_ok_def)

text \<open>An operation of a thread that leaves the variables of the others alone.\<close>

lemma thread_op_others:
  assumes "process_ok cfg p" "\<not> process_terminated p" "\<And>ph d. keeps (others_ok ph d) m"
    and "thread_op m continue p = Some p'"
  obtains (returned) x a where "m (station_of p) = (Return x, a)" "p' = continue x (set_station a p)"
      "process_ok cfg (set_station a p)" "polling a = polling (station_of p)" "data_txt a = data_txt (station_of p)"
    | (thrown) a where "p' = terminate_process (set_station a p)" "process_ok cfg p'"
proof -
  have ok: "central_ok (station_of p)" using assms(1) by (simp add: process_ok_def service_ok_def)
  have after: "others_ok (polling (station_of p)) (data_txt (station_of p)) (snd (m (station_of p)))"
    by (rule keepsD [OF assms(3) others_self [OF ok]])
  from assms(4) consider
      x a where "m (station_of p) = (Return x, a)" "p' = continue x (set_station a p)"
    | e a where "m (station_of p) = (Throw e, a)" "p' = terminate_process (set_station a p)"
    by (auto simp: thread_op_Some)
  then show ?thesis
  proof cases
    case 1
    then have "others_ok (polling (station_of p)) (data_txt (station_of p)) a" using after by simp
    moreover from this have "process_ok cfg (set_station a p)"
      using assms(1) by (auto simp: process_ok_def others_ok_def intro: service_ok_app)
    ultimately show ?thesis using 1 returned by (simp add: others_ok_def)
  next
    case 2
    then have "central_ok a" using after others_central by (metis snd_conv)
    then show ?thesis
      using 2 thrown assms(1) by (auto simp: process_ok_def intro: service_ok_app)
  qed
qed

lemma start_idle:
  assumes "start bound sv = (Return (), sv')" "service_ok cfg I sv" "idle_service sv"
  shows "service_ok cfg I sv'" "serving sv'" "app sv' = app sv"
proof -
  have b: "bound" using assms(1) by (cases bound) (simp_all add: start_def andthen_def bind_def)
  have sv': "sv' = (HttpService.accept (sv\<lparr>acceptor := Some True\<rparr>))\<lparr>io_running := True\<rparr>"
    using assms(1) b by (simp add: start_apply)
  have acc: "pointers_ok (sv\<lparr>acceptor := Some True\<rparr>)" "all_connections_ok cfg (sv\<lparr>acceptor := Some True\<rparr>)"
    using assms(2) by (simp_all add: service_ok_def pointers_ok_def all_connections_ok_def)
  have "pointers_ok sv'"
    using pointers_accept [OF acc(1)] assms(3)
    by (auto simp: sv' pointers_ok_def idle_service_def accept_def create_connection_def om_keys_def Let_def)
  moreover have "all_connections_ok cfg sv'"
    using all_connections_accept [OF acc] by (simp add: sv' all_connections_ok_def)
  ultimately show "service_ok cfg I sv'" "app sv' = app sv"
    using assms(2) by (simp_all add: service_ok_def sv')
  show "serving sv'" by (simp add: serving_def sv')
qed

lemma event_serving: "service_event cfg order allowed sv sv' \<Longrightarrow> io_running sv' = io_running sv"
  by (induction rule: service_event.induct)
    (auto simp: accepted_def accept_def create_connection_def connection_completed_def timer_expired_def
      delete_connection_def Let_def split: option.split prod.split)

lemma om_erase_Nil [simp]: "om_erase k [] = []"
  by (simp add: om_erase_def)

lemma event_stopped: "service_event cfg order allowed sv sv' \<Longrightarrow> stopped_service sv \<Longrightarrow> pointers_ok sv \<Longrightarrow> stopped_service sv'"
  by (induction rule: service_event.induct)
    (auto simp: stopped_service_def delete_connection_def om_find_erase pointers_ok_def split: if_splits)

lemma stop_serving:
  assumes "HttpService.stop sv = (Return (), sv')" "service_ok cfg I sv" "serving sv"
  shows "service_ok cfg I sv'" "stopped_service sv'" "app sv' = app sv"
proof -
  show "service_ok cfg I sv'" by (rule service_ok_stop [OF assms(2,1)])
  show "app sv' = app sv" by (rule app_stop [OF assms(1)])
  have "pointers_ok sv" "acceptor sv \<noteq> None" "io_running sv"
    using assms(2,3) by (simp_all add: service_ok_def serving_def)
  from stop_closes [OF this] show "stopped_service sv'" using assms(1) by (auto simp: stopped_service_def)
qed

lemma stop_idle: "idle_service sv \<Longrightarrow> HttpService.stop sv = (Return (), sv)"
  by (simp add: idle_service_def stop_def)

lemma service_at_event:
  assumes "service_event cfg order allowed sv sv'" "service_at Thread_runs m sv" "pointers_ok sv"
  shows "service_at Thread_runs m sv'"
  using assms event_serving [OF assms(1)] acceptor_event [OF assms(1)] event_stopped [OF assms(1)]
  by (auto simp: serving_def)

section \<open>Every step keeps the invariant\<close>

lemma process_ok_simps:
  assumes "process_ok cfg p" "\<not> process_terminated p"
  shows "service_ok cfg central_ok (service p)" "service_at (http_thread p) (main_at p) (service p)"
    "polling_thread p = Thread_ended \<Longrightarrow> polling (station_of p) = Poll_ended"
    "main_at p = Main_saved \<Longrightarrow> http_thread p = Thread_ended \<and> alarm_thread p = Thread_ended \<and> polling_thread p = Thread_ended"
    "place_ok (main_at p)"
  using assms by (simp_all add: process_ok_def)

lemma process_ok_terminated: "process_ok cfg p \<Longrightarrow> process_ok cfg (terminate_process p)"
  by (simp add: process_ok_def)

text \<open>The main thread moves on only to places before the end of the server.\<close>

lemma process_ok_main:
  "process_ok cfg p \<Longrightarrow> main_at p \<notin> {Main_join, Main_saved} \<Longrightarrow> place \<notin> {Main_create_http, Main_saved} \<Longrightarrow> place_ok place \<Longrightarrow>
     process_ok cfg (p\<lparr>main_at := place\<rparr>)"
  by (cases "http_thread p") (auto simp: process_ok_def)

text \<open>It moves from its first place with the creation of the thread of the server.\<close>

lemma process_ok_created:
  "process_ok cfg p \<Longrightarrow> main_at p = Main_create_http \<Longrightarrow>
     process_ok cfg (p\<lparr>http_thread := Thread_created, main_at := Main_create_alarm\<rparr>)"
  "process_ok cfg p \<Longrightarrow> main_at p \<noteq> Main_saved \<Longrightarrow> process_ok cfg (p\<lparr>alarm_thread := Thread_created\<rparr>)"
  "process_ok cfg p \<Longrightarrow> main_at p \<noteq> Main_saved \<Longrightarrow> process_ok cfg (p\<lparr>polling_thread := Thread_created\<rparr>)"
  by (cases "http_thread p"; auto simp: process_ok_def)+

lemma main_op_ok:
  assumes "process_ok cfg p" "\<not> process_terminated p" "\<And>ph d. keeps (others_ok ph d) m" "main_op m p = Some p'"
    and "main_at p \<notin> {Main_join, Main_saved}" "\<And>x s. fst (m s) = Return x \<Longrightarrow> x \<notin> {Main_create_http, Main_saved} \<and> place_ok x"
  shows "process_ok cfg p'"
  using assms(4) unfolding main_op_def
proof (rule thread_op_others [OF assms(1-3)])
  fix x a
  assume "m (station_of p) = (Return x, a)" "p' = set_station a p\<lparr>main_at := x\<rparr>" "process_ok cfg (set_station a p)"
  then show ?thesis using process_ok_main [of cfg "set_station a p" x] assms(5) assms(6) [of "station_of p" x] by simp
qed

lemma scripts_place:
  "fst (scripts_caught m s) = Return x \<longleftrightarrow> fst (m s) = Return x \<or>
     (\<exists>e. fst (m s) = Throw e \<and> is_logic_error e \<and> x = Main_end_alarm)"
  by (auto simp: scripts_caught_def returns_try_catch returns_andthen)

lemma script_place:
  assumes "fst (scripts_caught (andthen (execute_round n t r buf) (\<lambda>next.
      case next of
        None \<Rightarrow> andthen (change (\<lambda>s. s\<lparr>fifo_in := False, fifo_out := False\<rparr>)) (\<lambda>_. ret Main_end_alarm)
      | Some buf' \<Rightarrow> ret (Main_scripts buf'))) s) = Return x"
  shows "x \<notin> {Main_create_http, Main_saved} \<and> place_ok x"
proof -
  have "fst (execute_round n t r buf s) = Return (Some buf') \<Longrightarrow> length buf' = BUFSIZ" for buf' s
    by (auto simp: execute_round_def returns_andthen Let_def split: if_splits)
  then show ?thesis
    using assms by (auto simp: scripts_place returns_andthen split: option.splits)
qed

text \<open>Each step keeps the invariant.\<close>

lemma http_begins_ok:
  assumes "process_ok cfg p" "\<not> process_terminated p" "http_thread p = Thread_created" "http_begins bound p = Some p'"
  shows "process_ok cfg p'"
proof -
  note ok = process_ok_simps [OF assms(1,2)]
  have idle: "idle_service (service p)" using ok(2) assms(3) by simp
  show ?thesis
  proof (cases bound)
    case True
    then obtain sv where sv: "start bound (service p) = (Return (), sv)" by (simp add: start_apply)
    then show ?thesis
      using assms(3,4) start_idle [OF sv ok(1) idle] ok(2-5) by (auto simp: http_begins_def process_ok_def)
  next
    case False
    then have "p' = terminate_process (p\<lparr>service := (service p)\<lparr>acceptor := Some True\<rparr>\<rparr>)"
      using assms(4) by (auto simp: http_begins_def start_def andthen_def bind_def Let_def)
    then show ?thesis
      using ok(1,5) by (simp add: process_ok_def service_ok_def pointers_ok_def all_connections_ok_def)
  qed
qed

lemma http_goes_on_ok:
  assumes "process_ok cfg p" "\<not> process_terminated p" "http_thread p = Thread_runs" "limited cfg"
    and "service_event cfg (iter n) (station_handlers n) (service p) sv"
  shows "process_ok cfg (http_goes_on sv p)"
proof -
  note ok = process_ok_simps [OF assms(1,2)]
  let ?I = "others_ok (polling (station_of p)) (data_txt (station_of p))"
  have "service_ok cfg ?I (service p)" using ok(1) others_self by (auto simp: service_ok_def)
  then have "service_ok cfg ?I sv" by (rule other_requests.service_event_ok [OF assms(5,4)])
  moreover have "service_at Thread_runs (main_at p) sv"
    using service_at_event [OF assms(5)] ok(1,2) assms(3) by (simp add: service_ok_def)
  ultimately show ?thesis
    using ok(3-5) assms(2,3) by (auto simp: http_goes_on_def process_ok_def service_ok_def others_ok_def)
qed

lemma alarm_goes_on_ok:
  assumes "process_ok cfg p" "\<not> process_terminated p" "alarm_goes_on n r p = Some p'"
  shows "process_ok cfg p'"
  using assms(3) unfolding alarm_goes_on_def
proof (rule thread_op_others [OF assms(1,2) keeps_alarm_others])
  fix x a
  assume "p' = (if x then set_station a p\<lparr>alarm_thread := Thread_ended\<rparr> else set_station a p)"
    "process_ok cfg (set_station a p)"
  then show ?thesis by (auto simp: process_ok_def)
qed

lemma receiver_goes_on_ok:
  assumes "process_ok cfg p" "\<not> process_terminated p" "receiver_goes_on n addr data p = Some p'"
  shows "process_ok cfg p'"
  using assms(3) unfolding receiver_goes_on_def
proof (rule thread_op_others [OF assms(1,2) others.keeps_receiver_step])
  fix x a
  assume "p' = (if x then set_station a p\<lparr>receiver_thread_runs := False\<rparr> else set_station a p)"
    "process_ok cfg (set_station a p)"
  then show ?thesis by (auto simp: process_ok_def)
qed

lemma polling_begins_ok:
  assumes "process_ok cfg p" "polling_thread p = Thread_created"
  shows "process_ok cfg (polling_begins (new_UDPsocket n 7503 d reuse bound) p)"
proof -
  have "central_ok (station_of p)" using assms(1) by (simp add: process_ok_def service_ok_def)
  then have "central_ok ((station_of p)\<lparr>polling_socket := sock\<rparr>)" if "receive_timeout sock = (0, 0)" for sock
    using that by (simp add: central_ok_def web_ok_def comm_ok_def)
  moreover have "receive_timeout sock = (0, 0)" if "new_UDPsocket n 7503 d reuse bound = Inr sock" for sock
    using that by (auto simp: new_UDPsocket_def split: if_splits)
  ultimately show ?thesis
    using assms process_ok_terminated [OF assms(1)]
    by (auto simp: polling_begins_def process_ok_def intro: service_ok_app split: sum.split)
qed

lemma polling_goes_on_ok:
  assumes "process_ok cfg p" "\<not> process_terminated p" "polling_thread p = Thread_runs" "polling_goes_on n t r opens p = Some p'"
  shows "process_ok cfg p'"
proof -
  have ok: "central_ok (station_of p)" using assms(1) by (simp add: process_ok_def service_ok_def)
  obtain a where a: "a = snd (polling_step n t r opens (station_of p))"
      "p' = (if polling a = Poll_ended then set_station a p\<lparr>polling_thread := Thread_ended\<rparr> else set_station a p) \<or>
       p' = terminate_process (set_station a p)"
    using assms(4) by (auto simp: polling_goes_on_def thread_op_Some)
  then have "central_ok a" using keepsD [OF keeps_polling_step ok] by simp
  then show ?thesis
    using a(2) assms(1-3) by (auto simp: process_ok_def intro: service_ok_app split: if_splits)
qed

lemma main_stops_http_ok:
  assumes "process_ok cfg p" "\<not> process_terminated p" "main_at p = Main_stop_http" "main_stops_http p = Some p'"
  shows "process_ok cfg p'"
proof -
  note ok = process_ok_simps [OF assms(1,2)]
  obtain sv where sv: "HttpService.stop (service p) = (Return (), sv)" "p' = p\<lparr>service := sv, main_at := Main_join\<rparr>"
    using assms(4) by (auto simp: main_stops_http_def split: prod.splits outcome.splits)
  show ?thesis
  proof (cases "http_thread p")
    case No_thread
    then show ?thesis using sv ok stop_idle [of "service p"] by (auto simp: process_ok_def)
  next
    case Thread_created
    then show ?thesis using sv ok stop_idle [of "service p"] by (auto simp: process_ok_def)
  next
    case Thread_runs
    then have "serving (service p)" using ok(2) assms(3) by auto
    from stop_serving [OF sv(1) ok(1) this] show ?thesis
      using sv(2) ok(3) Thread_runs by (auto simp: process_ok_def)
  next
    case Thread_ended
    then show ?thesis using ok(2) assms(3) by auto
  qed
qed

text \<open>What the last step of \<open>main\<close> does.\<close>

lemma last_save_apply:
  "last_save n opens s = (case home_dir n of
      None \<Rightarrow> (Throw (Logic_error ''basic_string: construction from null is not valid''), s)
    | Some home \<Rightarrow> (Return (), (if opens then s\<lparr>data_txt := saved_table (sensors s)\<rparr> else s)
        \<lparr>logs := logs s @ [''Saving list of sensors to file'']\<rparr>))"
  by (simp add: last_save_def andthen_def save_table_apply split: option.split)

lemma main_saves_Some:
  assumes "main_saves n opens p = Some p'"
  shows "alarm_thread p = Thread_ended" "http_thread p = Thread_ended" "polling_thread p = Thread_ended"
    "home_dir n = None \<and> p' = terminate_process (set_station (station_of p) p) \<or>
     home_dir n \<noteq> None \<and> p' = set_station ((if opens then (station_of p)\<lparr>data_txt := saved_table (sensors (station_of p))\<rparr>
       else station_of p)\<lparr>logs := logs (station_of p) @ [''Saving list of sensors to file'']\<rparr>) p\<lparr>main_at := Main_saved\<rparr>"
  using assms
  by (auto simp: main_saves_def main_op_def thread_op_Some andthen_def last_save_apply split: if_splits option.splits)

lemma main_saves_ok:
  assumes "process_ok cfg p" "\<not> process_terminated p" "main_at p = Main_join" "main_saves n opens p = Some p'"
  shows "process_ok cfg p'"
proof -
  note ok = process_ok_simps [OF assms(1,2)] and s = main_saves_Some [OF assms(4)]
  have ok': "central_ok (station_of p)" using ok(1) by (simp add: service_ok_def)
  then have c: "central_ok (s\<lparr>logs := l\<rparr>)" if "s = station_of p \<or> s = (station_of p)\<lparr>data_txt := d\<rparr>" for s d l
    using that by (auto simp: central_ok_def web_ok_def comm_ok_def)
  from s(4) show ?thesis
  proof (elim disjE conjE)
    assume "p' = terminate_process (set_station (station_of p) p)"
    then show ?thesis using ok ok' by (auto simp: process_ok_def intro: service_ok_app)
  next
    assume "p' = set_station ((if opens then (station_of p)\<lparr>data_txt := saved_table (sensors (station_of p))\<rparr>
       else station_of p)\<lparr>logs := logs (station_of p) @ [''Saving list of sensors to file'']\<rparr>) p\<lparr>main_at := Main_saved\<rparr>"
    then show ?thesis using s(1-3) ok c assms(3) by (auto simp: process_ok_def intro: service_ok_app)
  qed
qed

lemma process_step_ok:
  assumes "process_step n cfg p p'" "limited cfg" "process_ok cfg p"
  shows "process_ok cfg p'"
  using assms(1)
proof cases
  case http_begin
  then show ?thesis using http_begins_ok assms(3) by blast
next
  case http_event
  then show ?thesis using http_goes_on_ok assms(2,3) by blast
next
  case http_end
  then show ?thesis using assms(3) by (auto simp: process_ok_def serving_def)
next
  case alarm_begin
  then show ?thesis
    using assms(3) process_ok_terminated [OF assms(3)]
    by (auto simp: alarm_begins_def process_ok_def split: sum.split)
next
  case alarm
  then show ?thesis using alarm_goes_on_ok assms(3) by blast
next
  case polling_begin
  then show ?thesis using polling_begins_ok assms(3) by blast
next
  case polling
  then show ?thesis using polling_goes_on_ok assms(3) by blast
next
  case receiver
  then show ?thesis using receiver_goes_on_ok assms(3) by blast
next
  case create_http
  let ?a = "(station_of p)\<lparr>logs := logs (station_of p) @ [''Http web server started...'']\<rparr>"
  have "p' = set_station ?a (p\<lparr>http_thread := Thread_created, main_at := Main_create_alarm\<rparr>)"
    using create_http(3) by (auto simp: main_creates_http_def main_op_def thread_op_Some andthen_def set_station_def)
  moreover have "process_ok cfg (p\<lparr>http_thread := Thread_created, main_at := Main_create_alarm\<rparr>)"
    by (rule process_ok_created(1) [OF assms(3) create_http(2)])
  moreover have "central_ok ?a"
    using assms(3) by (simp add: process_ok_def service_ok_def central_ok_def web_ok_def comm_ok_def)
  ultimately show ?thesis by (auto simp: process_ok_def intro: service_ok_app)
next
  case create_alarm
  then have "process_ok cfg (p\<lparr>alarm_thread := Thread_created\<rparr>)" using process_ok_created(2) assms(3) by simp
  from main_op_ok [OF this _ keeps_main_ops(4) create_alarm(3) [unfolded main_creates_alarm_def]]
  show ?thesis using create_alarm(1,2) by (auto simp: returns_andthen)
next
  case create_polling
  then have "process_ok cfg (p\<lparr>polling_thread := Thread_created\<rparr>)" using process_ok_created(3) assms(3) by simp
  from main_op_ok [OF this _ keeps_main_ops(4) create_polling(3) [unfolded main_creates_polling_def]]
  show ?thesis using create_polling(1,2) by (auto simp: returns_andthen)
next
  case (fifos buf r_in r_out)
  show ?thesis
    by (rule main_op_ok [OF assms(3) fifos(1) keeps_main_others [OF keeps_main_ops(1)] fifos(4) [unfolded main_makes_fifos_def]])
      (use fifos(2,3) in \<open>auto simp: scripts_place returns_andthen\<close>)
next
  case (script buf t f)
  show ?thesis
    by (rule main_op_ok [OF assms(3) script(1) keeps_main_others [OF keeps_main_ops(2)] script(3) [unfolded main_runs_script_def]])
      (simp add: script(2), rule script_place)
next
  case end_alarm
  from main_op_ok [OF assms(3) end_alarm(1) keeps_main_ops(3) end_alarm(3) [unfolded main_ends_alarm_def]]
  show ?thesis using end_alarm(2) by (auto simp: returns_andthen)
next
  case end_polling
  from main_op_ok [OF assms(3) end_polling(1) keeps_main_ops(3) end_polling(3) [unfolded main_ends_polling_def]]
  show ?thesis using end_polling(2) by (auto simp: returns_andthen)
next
  case stop_http
  then show ?thesis using main_stops_http_ok assms(3) by blast
next
  case save
  then show ?thesis using main_saves_ok assms(3) by blast
qed

lemma started_process_ok: "started_process n p \<Longrightarrow> process_ok cfg p"
proof -
  assume "started_process n p"
  then obtain buf c sock a ts saved x0 from_file s where s: "length buf = 512" "length c = 1"
      "receive_timeout sock = (0, 0)" "p = new_Process s"
      "start_up n ts (home_dir n) saved x0 from_file (new_Central sock a buf c) = (Return (), s)"
    by (auto simp: started_process_def)
  have "central_ok s" using keeps_Return [OF keeps_start_up s(5) new_Central_ok] s(1-3) by blast
  then show ?thesis
    by (simp add: s(4) process_ok_def new_Process_def new_Service_def service_ok_def pointers_ok_def
        all_connections_ok_def idle_service_def ordered_def om_find_def)
qed

lemma process_run_ok:
  assumes "process_run n cfg p p'" "limited cfg" "process_ok cfg p"
  shows "process_ok cfg p'"
  using assms by (induction rule: process_run.induct) (auto intro: process_step_ok)

lemma process_run_trans: "process_run n cfg p' p'' \<Longrightarrow> process_run n cfg p p' \<Longrightarrow> process_run n cfg p p''"
  by (induction rule: process_run.induct) (auto intro: process_run.go)

lemma process_run_step: "process_step n cfg p p' \<Longrightarrow> process_run n cfg p' p'' \<Longrightarrow> process_run n cfg p p''"
  by (rule process_run_trans) (auto intro: process_run.stay process_run.go)

section \<open>After the last save\<close>

text \<open>Only the receiver of the client still runs.\<close>

lemma receiver_step_keys: "om_keys (sensors (snd (receiver_step n addr data s))) = om_keys (sensors s)"
proof -
  define h where "h = (case hostToString n addr of Inr x \<Rightarrow> x | Inl _ \<Rightarrow> [])"
  have "keeps (only_entry h (sensors s)) (receiver_step n addr data)"
    by (rule receiver_step_only_entry) (simp add: h_def)
  from keepsD [OF this, of s] show ?thesis by (simp add: only_entry_def)
qed

lemma receiver_goes_on_saved:
  assumes "process_ok cfg p" "receiver_goes_on n addr data p = Some p'"
  shows "main_at p' = main_at p" "data_txt (station_of p') = data_txt (station_of p)"
    "om_keys (sensors (station_of p')) = om_keys (sensors (station_of p))"
proof -
  have "central_ok (station_of p)" using assms(1) by (simp add: process_ok_def service_ok_def)
  from keepsD [OF others.keeps_receiver_step others_self [OF this], of n addr data]
  have d: "data_txt (snd (receiver_step n addr data (station_of p))) = data_txt (station_of p)"
    by (simp add: others_ok_def)
  have "main_at p' = main_at p \<and> station_of p' = snd (receiver_step n addr data (station_of p))"
    using assms(2) by (auto simp: receiver_goes_on_def thread_op_Some)
  then show "main_at p' = main_at p" "data_txt (station_of p') = data_txt (station_of p)"
    "om_keys (sensors (station_of p')) = om_keys (sensors (station_of p))"
    using d receiver_step_keys by simp_all
qed

lemma saved_step:
  assumes "process_step n cfg p p'" "process_ok cfg p" "main_at p = Main_saved"
  shows "main_at p' = Main_saved \<and> data_txt (station_of p') = data_txt (station_of p) \<and>
    om_keys (sensors (station_of p')) = om_keys (sensors (station_of p))"
  using assms(1)
proof cases
  case receiver
  then show ?thesis using receiver_goes_on_saved [OF assms(2)] assms(3) by metis
qed (use process_ok_simps(4) [OF assms(2) _ assms(3)] assms(3) in auto)

lemma saved_run:
  assumes "process_run n cfg p p'" "limited cfg" "process_ok cfg p" "main_at p = Main_saved"
  shows "main_at p' = Main_saved \<and> data_txt (station_of p') = data_txt (station_of p) \<and>
    om_keys (sensors (station_of p')) = om_keys (sensors (station_of p))"
  using assms
proof (induction rule: process_run.induct)
  case (go p p' p'')
  then show ?case using saved_step [OF go.hyps(2) process_run_ok [OF go.hyps(1) go.prems(1,2)]] by auto
qed simp

section \<open>The way out\<close>

text \<open>The steps of an exit, each for the thread that makes it.\<close>

lemma exit_script:
  assumes "f = \<lparr>open_in = True, open_out = True, read_in = Some (config_written ''exit''), write_out = w\<rparr>"
    and "length buf = BUFSIZ"
  shows "main_runs_script n t f buf p = Some (set_station ((station_of p)\<lparr>logs := logs (station_of p) @ [''Listening scripts OFF.''],
    fifo_in := False, fifo_out := False\<rparr>) p\<lparr>main_at := Main_end_alarm\<rparr>)"
  by (simp add: main_runs_script_def main_op_def thread_op_def scripts_caught_def try_catch_def andthen_def
      execute_round_exit [OF assms])

lemma terminating_msg_sent:
  assumes "\<And>s' :: Central. Address_host n ''localhost'' port s' = (Return a, s')" "0 \<le> sendto n [CHR 0xFF] a"
  shows "\<exists>c. send_server_terminating_msg n port (s :: Central) = (Return (), s\<lparr>client := c\<rparr>)"
  using assms
  by (intro exI [of _ "(client s)\<lparr>sent := sent (client s) @ [([CHR 0xFF], a)]\<rparr>"])
    (simp add: send_server_terminating_msg_def andthen_def on_client_def client_send_def Let_def)

lemma alarm_ended:
  fixes s :: Central
  assumes "alarm_buffer s \<noteq> []" "isLoopback n src client_port"
  shows "\<exists>s'. alarm_round n (Received [CHR 0xFF] src) s = (Return True, s') \<and> sensors s' = sensors s"
  using assms
  by (simp add: alarm_round_def alarm_pass_def alarm_receive_def try_catch_def andthen_def on_alarm_server_def Let_def)

text \<open>An address that the polling thread can ask: it is translated to a sensor of the table, and the question can be sent.\<close>

definition can_poll :: "'n central_env_scheme \<Rightarrow> string \<Rightarrow> (string, SensorInfo) omap \<Rightarrow> string \<Rightarrow> bool" where
  "can_poll n port m it \<longleftrightarrow> (\<exists>a host key. (\<forall>s' :: Central. resolve n it port s' = (Return (a, host), s')) \<and>
     om_find host m \<noteq> None \<and> toString n a = Inr key \<and> 0 \<le> sendto n ''get_value'' a)"

lemma saved_table_assign:
  assumes "ordered m" "om_find k m = Some info" "threshold info' = threshold info"
  shows "saved_table (om_assign k info' m) = saved_table m"
proof -
  have "v = info" if "(k, v) \<in> set m" for v
    using that assms(1,2) om_find_iff [of m k v] by simp
  then have "map (\<lambda>(a, i). (a, threshold i)) (om_assign k info' m) = map (\<lambda>(a, i). (a, threshold i)) m"
    using assms(3) by (auto simp: om_assign_def)
  then have "map ((\<lambda>(a, x). a @ '' '' @ show_g x @ [CHR 10]) \<circ> (\<lambda>(a, i). (a, threshold i))) (om_assign k info' m) =
      map ((\<lambda>(a, x). a @ '' '' @ show_g x @ [CHR 10]) \<circ> (\<lambda>(a, i). (a, threshold i))) m"
    by (simp flip: map_map)
  then show ?thesis by (simp add: saved_table_def comp_def case_prod_unfold)
qed

lemma ask_for_values_polled:
  fixes s :: Central
  assumes "can_poll n (sensor_port2 s) (sensors s) it" "ordered (sensors s)"
  shows "\<exists>s'. ask_for_values n t it s = (Return (), s') \<and> saved_table (sensors s') = saved_table (sensors s) \<and>
    alarm_buffer s' = alarm_buffer s"
proof -
  obtain a host key info where h: "\<And>s' :: Central. resolve n it (sensor_port2 s) s' = (Return (a, host), s')"
      "om_find host (sensors s) = Some info" "toString n a = Inr key" "0 \<le> sendto n ''get_value'' a"
    using assms(1) by (auto simp: can_poll_def)
  show ?thesis
  proof (cases "t 0 - last_value_question info < comm_max_answer_time s")
    case True
    then show ?thesis using ask_for_values_recent [OF h(1,2)] by simp
  next
    case False
    then show ?thesis
      using ask_for_values_sent [OF h(1,2) _ h(4,3), of t] saved_table_assign [OF assms(2) h(2)] h(2)
      by (auto simp: set_last_value_question_def found_apply raise_flag_cases)
  qed
qed

text \<open>
  The polling thread goes out from every phase, if the sensors of the table can be asked and the
  one that it asks next is still there.
\<close>

definition polls_out :: "'n central_env_scheme \<Rightarrow> Central \<Rightarrow> bool" where
  "polls_out n s \<longleftrightarrow> ordered (sensors s) \<and> home_dir n \<noteq> None \<and> (\<forall>x. setsockopt n x = 0) \<and>
     list_all (can_poll n (sensor_port2 s) (sensors s)) (om_keys (sensors s)) \<and>
     (case polling s of Poll_ask (it # rest) \<Rightarrow> it \<in> set (om_keys (sensors s)) | _ \<Rightarrow> True)"

lemma poll_receive_ended:
  assumes "isLoopback n src client_port"
  shows "\<exists>s'. poll_receive n (Received [CHR 0xFF] src) s = (Return True, s') \<and> sensors s' = sensors s \<and>
    alarm_buffer s' = alarm_buffer s"
  using assms by (simp add: poll_receive_def poll_receive_byte_def andthen_def on_polling_server_def Let_def)

text \<open>The phases in which a datagram is received.\<close>

definition receives :: "polling_phase \<Rightarrow> bool" where
  "receives ph \<longleftrightarrow> ph = Poll_wait \<or> (\<exists>it rest. ph = Poll_ask (it # rest))"

lemma polling_received:
  fixes s :: Central
  assumes "polls_out n s" "receives (polling s)" "isLoopback n src client_port"
  shows "\<exists>s'. polling_step n t (Received [CHR 0xFF] src) opens s = (Return (), s') \<and> polling s' = Poll_ended \<and>
    saved_table (sensors s') = saved_table (sensors s) \<and> alarm_buffer s' = alarm_buffer s"
proof -
  from assms(2) consider "polling s = Poll_wait" | it rest where "polling s = Poll_ask (it # rest)"
    unfolding receives_def by blast
  then show ?thesis
  proof cases
    case 1
    then show ?thesis
      using poll_receive_ended [OF assms(3), of s] by (auto simp: polling_step_def andthen_def goto_phase_def)
  next
    case 2
    then have "can_poll n (sensor_port2 s) (sensors s) it" "ordered (sensors s)"
      using assms(1) by (auto simp: polls_out_def list_all_iff)
    from ask_for_values_polled [OF this, of t] obtain s1 where s1: "ask_for_values n t it s = (Return (), s1)"
        "saved_table (sensors s1) = saved_table (sensors s)" "alarm_buffer s1 = alarm_buffer s"
      by blast
    then show ?thesis
      using 2 poll_receive_ended [OF assms(3), of s1] by (auto simp: polling_step_def andthen_def goto_phase_def)
  qed
qed

text \<open>The others lead there.\<close>

lemma polling_begun:
  fixes s :: Central
  assumes "polls_out n s" "polling s = Poll_begin"
  shows "\<exists>s'. polling_step n t r opens s = (Return (), s') \<and> polls_out n s' \<and> receives (polling s') \<and>
    sensors s' = sensors s \<and> alarm_buffer s' = alarm_buffer s"
proof -
  have "setsockopt n x = 0" for x using assms(1) by (cases x) (simp add: polls_out_def)
  with assms show ?thesis
    by (cases "om_keys (sensors s)")
      (auto simp: polling_step_def get_addresses_def andthen_def poll_timeout_def setReceiveTimeout_def Let_def
        goto_phase_def polls_out_def receives_def)
qed

lemma polling_saved:
  fixes s :: Central
  assumes "polls_out n s" "polling s = Poll_save"
  shows "\<exists>s'. polling_step n t r opens s = (Return (), s') \<and> polls_out n s' \<and> polling s' = Poll_begin \<and>
    sensors s' = sensors s \<and> alarm_buffer s' = alarm_buffer s"
  using assms
  by (cases "home_dir n")
    (auto simp: polling_step_def andthen_def save_table_apply goto_phase_def polls_out_def)

lemma polling_asked:
  fixes s :: Central
  assumes "polls_out n s" "polling s = Poll_ask []"
  shows "\<exists>s'. polling_step n t r opens s = (Return (), s') \<and> polls_out n s' \<and> polling s' = Poll_save \<and>
    sensors s' = sensors s \<and> alarm_buffer s' = alarm_buffer s"
  using assms by (auto simp: polling_step_def goto_phase_def polls_out_def)

lemma set_station_again [simp]: "set_station a (set_station b p) = set_station a p"
  by (simp add: set_station_def)

lemma polling_moved:
  assumes "\<not> process_terminated p" "polling_thread p = Thread_runs"
    and "polling_step n t r opens (station_of p) = (Return (), s')"
  shows "process_step n cfg p (if polling s' = Poll_ended then set_station s' p\<lparr>polling_thread := Thread_ended\<rparr> else set_station s' p)"
proof -
  have "polling_goes_on n t r opens p =
      Some (if polling s' = Poll_ended then set_station s' p\<lparr>polling_thread := Thread_ended\<rparr> else set_station s' p)"
    using assms(3) by (simp add: polling_goes_on_def thread_op_def)
  then show ?thesis using assms(1,2) by (auto intro: process_step.polling)
qed

definition polling_gone :: "'n central_env_scheme \<Rightarrow> Config \<Rightarrow> Process \<Rightarrow> bool" where
  "polling_gone n cfg p \<longleftrightarrow> (\<exists>s'. process_run n cfg p (set_station s' p\<lparr>polling_thread := Thread_ended\<rparr>) \<and>
     saved_table (sensors s') = saved_table (sensors (station_of p)) \<and> alarm_buffer s' = alarm_buffer (station_of p))"

lemma polling_gone_step:
  assumes "\<not> process_terminated p" "polling_thread p = Thread_runs"
    and "polling_step n t r opens (station_of p) = (Return (), s')" "polling s' \<noteq> Poll_ended"
    and "sensors s' = sensors (station_of p)" "alarm_buffer s' = alarm_buffer (station_of p)"
    and "polling_gone n cfg (set_station s' p)"
  shows "polling_gone n cfg p"
  using polling_moved [OF assms(1-3), of cfg] assms(4-7) process_run_step by (fastforce simp: polling_gone_def)

lemma polling_goes_out:
  assumes "\<not> process_terminated p" "polling_thread p = Thread_runs" "polls_out n (station_of p)"
    and "isLoopback n src client_port"
  shows "polling_gone n cfg p"
proof -
  have waits: "polling_gone n cfg p" if p: "\<not> process_terminated p" "polling_thread p = Thread_runs" "polls_out n (station_of p)"
      "receives (polling (station_of p))" for p
  proof -
    obtain s' where s': "polling_step n (\<lambda>_. 0) (Received [CHR 0xFF] src) True (station_of p) = (Return (), s')"
        "polling s' = Poll_ended" "saved_table (sensors s') = saved_table (sensors (station_of p))"
        "alarm_buffer s' = alarm_buffer (station_of p)"
      using polling_received [OF p(3,4) assms(4)] by blast
    then show ?thesis
      using process_run_step [OF polling_moved [OF p(1,2) s'(1)] process_run.stay, of cfg]
      unfolding polling_gone_def by (intro exI [of _ s']) simp
  qed
  have begins: "polling_gone n cfg p" if p: "\<not> process_terminated p" "polling_thread p = Thread_runs" "polls_out n (station_of p)"
      "polling (station_of p) = Poll_begin" for p
  proof -
    obtain s' where s': "polling_step n (\<lambda>_. 0) (Recv_failed True) True (station_of p) = (Return (), s')" "polls_out n s'"
        "receives (polling s')" "sensors s' = sensors (station_of p)" "alarm_buffer s' = alarm_buffer (station_of p)"
      using polling_begun [OF p(3,4)] by blast
    have "polling s' \<noteq> Poll_ended" using s'(3) by (auto simp: receives_def)
    with s' p(1,2) show ?thesis by (intro polling_gone_step [OF p(1,2) s'(1)] waits) simp_all
  qed
  have saves: "polling_gone n cfg p" if p: "\<not> process_terminated p" "polling_thread p = Thread_runs" "polls_out n (station_of p)"
      "polling (station_of p) = Poll_save" for p
  proof -
    obtain s' where s': "polling_step n (\<lambda>_. 0) (Recv_failed True) True (station_of p) = (Return (), s')" "polls_out n s'"
        "polling s' = Poll_begin" "sensors s' = sensors (station_of p)" "alarm_buffer s' = alarm_buffer (station_of p)"
      using polling_saved [OF p(3,4)] by blast
    with p(1,2) show ?thesis by (intro polling_gone_step [OF p(1,2) s'(1)] begins) simp_all
  qed
  show ?thesis
  proof (cases "polling (station_of p)")
    case Poll_begin
    then show ?thesis using begins assms by simp
  next
    case (Poll_ask as)
    show ?thesis
    proof (cases as)
      case Nil
      obtain s' where s': "polling_step n (\<lambda>_. 0) (Recv_failed True) True (station_of p) = (Return (), s')" "polls_out n s'"
          "polling s' = Poll_save" "sensors s' = sensors (station_of p)" "alarm_buffer s' = alarm_buffer (station_of p)"
        using polling_asked [OF assms(3)] Poll_ask Nil by blast
      with assms(1,2) show ?thesis by (intro polling_gone_step [OF assms(1,2) s'(1)] saves) simp_all
    qed (use waits assms Poll_ask in \<open>simp add: receives_def\<close>)
  next
    case Poll_wait
    then show ?thesis using waits assms by (simp add: receives_def)
  next
    case Poll_save
    then show ?thesis using saves assms by simp
  next
    case Poll_ended
    then have "polling_step n (\<lambda>_. 0) (Recv_failed True) True (station_of p) = (Return (), station_of p)"
      by (simp add: polling_step_def)
    from process_run_step [OF polling_moved [OF assms(1,2) this] process_run.stay, of cfg] Poll_ended show ?thesis
      unfolding polling_gone_def by (intro exI [of _ "station_of p"]) simp
  qed
qed

text \<open>An address that has been erased when its turn comes ends the process instead.\<close>

lemma erased_sensor_ends_process:
  assumes "\<not> process_terminated p" "polling_thread p = Thread_runs" "polling (station_of p) = Poll_ask (it # rest)"
    and "resolve n it (sensor_port2 (station_of p)) (station_of p) = (Return (a, host), station_of p)"
    and "om_find host (sensors (station_of p)) = None"
  shows "\<exists>s'. polling_goes_on n t r opens p = Some (terminate_process (set_station s' p)) \<and>
    data_txt s' = data_txt (station_of p)"
  using assms by (simp add: polling_goes_on_def thread_op_def polling_step_def andthen_def ask_for_values_unknown)
    (intro exI conjI, rule refl, simp)

lemma stop_serving_returns:
  assumes "service_ok cfg I sv" "serving sv"
  shows "\<exists>sv'. HttpService.stop sv = (Return (), sv') \<and> stopped_service sv' \<and> app sv' = app sv"
proof -
  have "pointers_ok sv" "acceptor sv \<noteq> None" "io_running sv" using assms by (simp_all add: service_ok_def serving_def)
  from stop_closes [OF this] obtain sv' where "HttpService.stop sv = (Return (), sv')" by blast
  with stop_serving [OF this assms] show ?thesis by blast
qed

text \<open>The main thread, from the command to the first \<open>join\<close>.\<close>

lemma exit_main:
  fixes n :: "'n central_env_scheme"
  assumes "process_ok cfg p" "\<not> process_terminated p" "main_at p = Main_end_alarm" "http_thread p = Thread_runs"
    and "\<And>s' :: Central. Address_host n ''localhost'' ''7500'' s' = (Return a1, s')" "0 \<le> sendto n [CHR 0xFF] a1"
    and "\<And>s' :: Central. Address_host n ''localhost'' ''7503'' s' = (Return a2, s')" "0 \<le> sendto n [CHR 0xFF] a2"
  shows "\<exists>sv c. process_run n cfg p (p\<lparr>service := sv, main_at := Main_join\<rparr>) \<and> stopped_service sv \<and>
    app sv = (station_of p)\<lparr>client := c\<rparr>"
proof -
  let ?s = "station_of p"
  obtain c1 where c1: "send_server_terminating_msg n ''7500'' ?s = (Return (), ?s\<lparr>client := c1\<rparr>)"
    using terminating_msg_sent [OF assms(5,6)] by blast
  obtain c2 where c2: "send_server_terminating_msg n ''7503'' (?s\<lparr>client := c1\<rparr>) = (Return (), ?s\<lparr>client := c1, client := c2\<rparr>)"
    using terminating_msg_sent [OF assms(7,8)] by blast
  let ?s2 = "?s\<lparr>client := c1, client := c2\<rparr>"
  let ?p2 = "set_station (?s\<lparr>client := c1\<rparr>) p\<lparr>main_at := Main_end_polling\<rparr>"
  let ?p3 = "set_station ?s2 ?p2\<lparr>main_at := Main_stop_http\<rparr>"
  note start = process_ok_simps [OF assms(1,2)]
  have "main_ends_alarm n p = Some ?p2" "main_ends_polling n ?p2 = Some ?p3"
    using c1 c2 by (simp_all add: main_ends_alarm_def main_ends_polling_def main_op_def thread_op_def andthen_def)
  then have 1: "process_step n cfg p ?p2" "process_step n cfg ?p2 ?p3"
    using assms(2,3) by (auto intro: process_step.end_alarm process_step.end_polling)
  have "serving (service ?p3)" "service_ok cfg (\<lambda>_. True) (service ?p3)"
    using start(2) assms(3,4) service_ok_app [OF start(1), of "\<lambda>_. True"] by (auto simp: serving_def)
  then obtain sv where sv: "HttpService.stop (service ?p3) = (Return (), sv)" "stopped_service sv" "app sv = ?s2"
    using stop_serving_returns [of cfg "\<lambda>_. True" "service ?p3"] by auto
  have 2: "process_step n cfg ?p3 (?p3\<lparr>service := sv, main_at := Main_join\<rparr>)"
    using assms(2) sv(1) by (intro process_step.stop_http) (simp_all add: main_stops_http_def)
  have eq: "?p3\<lparr>service := sv, main_at := Main_join\<rparr> = p\<lparr>service := sv, main_at := Main_join\<rparr>"
    by (cases p) (simp add: set_station_def)
  have "process_run n cfg p (p\<lparr>service := sv, main_at := Main_join\<rparr>)"
    unfolding eq [symmetric]
    by (rule process_run_step [OF 1(1) process_run_step [OF 1(2) process_run_step [OF 2 process_run.stay]]])
  then show ?thesis using sv(2,3) by (intro exI [of _ sv] exI [of _ c2]) simp
qed

text \<open>
  The other threads, in one of the possible orders, and the last step of \<open>main\<close>: the polling
  thread and the alarm server end, if they have not, then the thread of the server.
\<close>

lemma polling_out:
  assumes "\<not> process_terminated p" "polling_thread p = Thread_runs \<and> polls_out n (station_of p) \<or> polling_thread p = Thread_ended"
    and "isLoopback n src client_port"
  shows "\<exists>s'. process_run n cfg p (set_station s' p\<lparr>polling_thread := Thread_ended\<rparr>) \<and>
    saved_table (sensors s') = saved_table (sensors (station_of p)) \<and> alarm_buffer s' = alarm_buffer (station_of p)"
  using assms(2)
proof
  assume "polling_thread p = Thread_runs \<and> polls_out n (station_of p)"
  then show ?thesis using polling_goes_out [OF assms(1) _ _ assms(3), of cfg] by (simp add: polling_gone_def)
next
  assume "polling_thread p = Thread_ended"
  then have "set_station (station_of p) p\<lparr>polling_thread := Thread_ended\<rparr> = p" by (cases p) (simp add: set_station_def)
  then show ?thesis using process_run.stay [of n cfg p] by (intro exI [of _ "station_of p"]) simp
qed

lemma alarm_out:
  assumes "\<not> process_terminated p" "alarm_thread p \<in> {Thread_runs, Thread_ended}"
    and "alarm_buffer (station_of p) \<noteq> []" "isLoopback n src client_port"
  shows "\<exists>s'. process_run n cfg p (set_station s' p\<lparr>alarm_thread := Thread_ended\<rparr>) \<and> sensors s' = sensors (station_of p)"
proof (cases "alarm_thread p = Thread_runs")
  case True
  obtain s' where s': "alarm_round n (Received [CHR 0xFF] src) (station_of p) = (Return True, s')" "sensors s' = sensors (station_of p)"
    using alarm_ended [OF assms(3,4)] by blast
  then have "alarm_goes_on n (Received [CHR 0xFF] src) p = Some (set_station s' p\<lparr>alarm_thread := Thread_ended\<rparr>)"
    by (simp add: alarm_goes_on_def thread_op_def)
  from process_run_step [OF process_step.alarm [OF assms(1) True this] process_run.stay] show ?thesis using s'(2) by blast
next
  case False
  then have "set_station (station_of p) p\<lparr>alarm_thread := Thread_ended\<rparr> = p"
    using assms(2) by (cases p) (simp add: set_station_def)
  then show ?thesis using process_run.stay [of n cfg p] by (intro exI [of _ "station_of p"]) simp
qed

lemma exit_threads:
  assumes "\<not> process_terminated p" "main_at p = Main_join" "stopped_service (service p)"
    and "http_thread p = Thread_runs" "alarm_thread p \<in> {Thread_runs, Thread_ended}"
    and "polling_thread p = Thread_runs \<and> polls_out n (station_of p) \<or> polling_thread p = Thread_ended"
    and "alarm_buffer (station_of p) \<noteq> []" "isLoopback n src client_port" "home_dir n \<noteq> None"
  shows "\<exists>p3 p4. process_run n cfg p p3 \<and> main_at p3 = Main_join \<and> process_step n cfg p3 p4 \<and>
    main_at p4 = Main_saved \<and> \<not> process_terminated p4 \<and> data_txt (station_of p4) = saved_table (sensors (station_of p))"
proof -
  obtain s1 where s1: "process_run n cfg p (set_station s1 p\<lparr>polling_thread := Thread_ended\<rparr>)"
      "saved_table (sensors s1) = saved_table (sensors (station_of p))" "alarm_buffer s1 = alarm_buffer (station_of p)"
    using polling_out [OF assms(1,6,8)] by blast
  let ?p1 = "set_station s1 p\<lparr>polling_thread := Thread_ended\<rparr>"
  obtain s2 where s2: "process_run n cfg ?p1 (set_station s2 ?p1\<lparr>alarm_thread := Thread_ended\<rparr>)" "sensors s2 = sensors s1"
    using alarm_out [of ?p1 n src cfg] assms(1,5,7,8) s1(3) by auto
  let ?p2 = "set_station s2 ?p1\<lparr>alarm_thread := Thread_ended\<rparr>"
  let ?p3 = "?p2\<lparr>http_thread := Thread_ended\<rparr>"
  have 3: "process_step n cfg ?p2 ?p3"
    using assms(1,3,4) by (intro process_step.http_end) (simp_all add: stopped_service_def)
  obtain p4 where p4: "main_saves n True ?p3 = Some p4"
    by (cases "home_dir n") (simp_all add: main_saves_def main_op_def thread_op_def andthen_def last_save_apply)
  then have "process_step n cfg ?p3 p4" using assms(1,2) by (intro process_step.save) simp_all
  moreover have "process_run n cfg p ?p3"
    by (rule process_run_trans [OF process_run_trans [OF process_run_step [OF 3 process_run.stay] s2(1)] s1(1)])
  moreover have "main_at p4 = Main_saved \<and> \<not> process_terminated p4 \<and>
      data_txt (station_of p4) = saved_table (sensors (station_of p))"
    using main_saves_Some(4) [OF p4] s1(2) s2(2) assms(1,9) by auto
  ultimately show ?thesis using assms(2) by (intro exI [of _ ?p3] exI [of _ p4]) simp
qed

text \<open>The whole exit, with the last step of \<open>main\<close>.\<close>

lemma exit_runs:
  assumes "process_ok cfg p" "limited cfg" "\<not> process_terminated p" "main_at p = Main_scripts buf" "http_thread p = Thread_runs"
    and "alarm_thread p \<in> {Thread_runs, Thread_ended}"
    and "polling_thread p = Thread_runs \<and> polls_out n (station_of p) \<or> polling_thread p = Thread_ended"
    and "isLoopback n src client_port" "home_dir n \<noteq> None"
    and "\<And>s' :: Central. Address_host n ''localhost'' ''7500'' s' = (Return a1, s')" "0 \<le> sendto n [CHR 0xFF] a1"
    and "\<And>s' :: Central. Address_host n ''localhost'' ''7503'' s' = (Return a2, s')" "0 \<le> sendto n [CHR 0xFF] a2"
  shows "\<exists>p1 p3 p4. main_runs_script n t \<lparr>open_in = True, open_out = True, read_in = Some (config_written ''exit''), write_out = w\<rparr>
        buf p = Some p1 \<and> process_step n cfg p p1 \<and>
      process_run n cfg p1 p3 \<and> main_at p3 = Main_join \<and> process_step n cfg p3 p4 \<and> main_at p4 = Main_saved \<and>
      \<not> process_terminated p4 \<and> data_txt (station_of p4) = saved_table (sensors (station_of p))"
proof -
  have len: "length buf = BUFSIZ" "alarm_buffer (station_of p) \<noteq> []"
    using assms(1,4) by (auto simp: process_ok_def service_ok_def central_ok_def)
  let ?s1 = "(station_of p)\<lparr>logs := logs (station_of p) @ [''Listening scripts OFF.''], fifo_in := False, fifo_out := False\<rparr>"
  let ?p1 = "set_station ?s1 p\<lparr>main_at := Main_end_alarm\<rparr>"
  note script = exit_script [OF refl len(1), of n t w p]
  then have step: "process_step n cfg p ?p1" using assms(3,4) by (intro process_step.script)
  have ok1: "process_ok cfg ?p1" by (rule process_step_ok [OF step assms(2,1)])
  obtain sv c where sv: "process_run n cfg ?p1 (?p1\<lparr>service := sv, main_at := Main_join\<rparr>)" "stopped_service sv"
      "app sv = ?s1\<lparr>client := c\<rparr>"
    using exit_main [OF ok1 _ _ _ assms(10-13)] assms(3,5) by auto
  let ?p = "?p1\<lparr>service := sv, main_at := Main_join\<rparr>"
  have "polls_out n (station_of p) \<Longrightarrow> polls_out n (station_of ?p)"
    by (auto simp: sv(3) polls_out_def split: polling_phase.splits list.splits)
  then obtain p3 p4 where "process_run n cfg ?p p3" and fin: "main_at p3 = Main_join" "process_step n cfg p3 p4"
      "main_at p4 = Main_saved" "\<not> process_terminated p4" "data_txt (station_of p4) = saved_table (sensors (station_of p))"
    using exit_threads [of ?p n src cfg] sv(2,3) assms(3,5-9) len(2) by auto
  then have "process_run n cfg ?p1 p3" using sv(1) process_run_trans by blast
  then show ?thesis using script step fin by blast
qed

text \<open>A \<open>stop\<close> that comes before the thread of the server has begun is lost for good.\<close>

definition stop_was_lost :: "Process \<Rightarrow> bool" where
  "stop_was_lost p \<longleftrightarrow> main_at p = Main_join \<and>
     (http_thread p = Thread_created \<or> http_thread p = Thread_runs \<and> io_running (service p))"

lemma thread_op_lost:
  assumes "thread_op m continue p = Some p'" "stop_was_lost p"
    and "\<And>x q. stop_was_lost q \<Longrightarrow> stop_was_lost (continue x q)"
  shows "stop_was_lost p'"
proof -
  have "stop_was_lost (set_station a p)" for a using assms(2) by (simp add: stop_was_lost_def)
  then show ?thesis
    using assms(1,3) by (auto simp: thread_op_Some) (simp add: stop_was_lost_def)
qed

lemma lost_step:
  assumes "process_step n cfg p p'" "stop_was_lost p"
  shows "stop_was_lost p'"
  using assms(1)
proof cases
  case (http_begin bound)
  then show ?thesis
    using assms(2)
    by (cases bound) (auto simp: http_begins_def start_def andthen_def bind_def accept_and_run_def stop_was_lost_def
        terminate_process_def Let_def)
next
  case (http_event sv)
  then show ?thesis using assms(2) event_serving [OF http_event(4)] by (auto simp: http_goes_on_def stop_was_lost_def)
next
  case (alarm r)
  show ?thesis
    by (rule thread_op_lost [OF alarm(3) [unfolded alarm_goes_on_def] assms(2)]) (simp add: stop_was_lost_def)
next
  case (polling t r opens)
  show ?thesis
    by (rule thread_op_lost [OF polling(3) [unfolded polling_goes_on_def] assms(2)]) (simp add: stop_was_lost_def)
next
  case (receiver addr data)
  show ?thesis
    by (rule thread_op_lost [OF receiver(3) [unfolded receiver_goes_on_def] assms(2)]) (simp add: stop_was_lost_def)
next
  case (save opens)
  have "stop_was_lost p \<longleftrightarrow> main_at p = Main_join \<and> (http_thread p = Thread_created \<or> http_thread p = Thread_runs \<and> io_running (service p))"
    by (simp add: stop_was_lost_def)
  then show ?thesis using assms(2) main_saves_Some(2) [OF save(3)] by simp
qed (use assms(2) in \<open>auto simp: stop_was_lost_def alarm_begins_def polling_begins_def terminate_process_def split: sum.split\<close>)

lemma lost_run: "process_run n cfg p p' \<Longrightarrow> stop_was_lost p \<Longrightarrow> stop_was_lost p'"
  by (induction rule: process_run.induct) (auto intro: lost_step)

lemma saved_from_join:
  assumes "process_step n cfg p p'" "main_at p = Main_join" "main_at p' = Main_saved"
  shows "\<not> process_terminated p \<and> (\<exists>opens. main_saves n opens p = Some p')"
  using assms(1)
proof cases
  case (alarm r)
  then show ?thesis using assms(2,3) by (auto simp: alarm_goes_on_def thread_op_Some split: if_splits)
next
  case (polling t r opens)
  then show ?thesis using assms(2,3) by (auto simp: polling_goes_on_def thread_op_Some split: if_splits)
next
  case (receiver addr data)
  then show ?thesis using assms(2,3) by (auto simp: receiver_goes_on_def thread_op_Some split: if_splits)
next
  case (http_begin bound)
  then show ?thesis
    using assms(2,3) by (auto simp: http_begins_def split: prod.splits outcome.splits)
qed (use assms(2,3) in \<open>auto simp: http_goes_on_def alarm_begins_def polling_begins_def split: sum.splits\<close>)

section \<open>An example\<close>

lemma limited_new_Config: "limited (new_Config port)"
  by (simp add: limited_def new_Config_def)

definition exit_env :: central_env where
  "exit_env = example_central_env\<lparr>getaddrinfo := \<lambda>_ p _. Inr [loopback6
     (if p = ''7500'' then 7500 else if p = ''7503'' then 7503 else if p = ''7000'' then 7000 else 7001)]\<rparr>"

lemma exit_env_simps [simp]:
  "Address_host exit_env ''localhost'' ''7500'' s = (Return (loopback6 7500), s)"
  "Address_host exit_env ''localhost'' ''7503'' s = (Return (loopback6 7503), s)"
  "isLoopback exit_env (loopback6 7501) client_port" "sendto exit_env d a = int (length d)" "setsockopt exit_env x = 0"
  "home_dir exit_env = Some ''/root''" "toString exit_env (loopback6 p) = Inr (''::1 :'' @ show_nat (unat p))"
  "resolve exit_env ''::1'' ''7000'' s = (Return (loopback6 7000, ''::1''), s)"
  "resolve exit_env ''::1'' ''7001'' s = (Return (loopback6 7001, ''::1''), s)"
proof -
  have "isLoopback exit_env a p = isLoopback example_central_env a p" for a p by (simp add: isLoopback_def exit_env_def)
  then show "isLoopback exit_env (loopback6 7501) client_port" by (simp add: client_port_def)
  have host: "hostToString exit_env a = hostToString example_central_env a" for a by (simp add: hostToString_def exit_env_def)
  have "ntohs exit_env = ntohs example_central_env" by (simp add: exit_env_def)
  then have "portToString exit_env a = portToString example_central_env a" for a
    by (cases "sa_family a") (simp_all add: portToString_def getPort_def)
  with host have "toString exit_env a = toString example_central_env a" for a
    by (cases "hostToString example_central_env a") (simp_all add: toString_def)
  then show "toString exit_env (loopback6 p) = Inr (''::1 :'' @ show_nat (unat p))" by simp
  show "resolve exit_env ''::1'' ''7000'' s = (Return (loopback6 7000, ''::1''), s)"
    "resolve exit_env ''::1'' ''7001'' s = (Return (loopback6 7001, ''::1''), s)"
    by (simp_all add: resolve_def host Address_host_def AddressInfo_def try_catch_def andthen_def c_str_def)
      (simp_all add: exit_env_def)
qed (simp_all add: exit_env_def Address_host_def AddressInfo_def andthen_def c_str_def)

text \<open>The station started from a file with one sensor.\<close>

definition example_file :: string where
  "example_file = ''::1 100'' @ [CHR 10]"

definition example_stack :: Central where
  "example_stack = new_Central example_socket (loopback6 0) (replicate 512 (CHR 0x00)) [CHR 0x00]"

definition example_restored :: Central where
  "example_restored = snd (start_up exit_env (\<lambda>_ _. 100) (Some ''/root'') (Some example_file) (f32_of_int 0) True example_stack)"

definition example_process :: Process where
  "example_process = new_Process example_restored"

lemma example_stack_simps [simp]:
  "sensors example_stack = []" "sensor_port1 example_stack = ''7000''" "sensor_port2 example_stack = ''7001''"
  "comm_max_answer_time example_stack = 5" "polling example_stack = Poll_begin"
  by (simp_all add: example_stack_def new_Central_def Communicator.defs new_Communicator_def new_SensorList_def)

lemma example_file_eq: "example_file = saved_text [(''::1'', 100)]"
  by (simp add: example_file_def show_nat_eval digit_char_def)

definition same_ports :: "Central \<Rightarrow> Central \<Rightarrow> bool" where
  "same_ports s s' \<longleftrightarrow> sensor_port1 s' = sensor_port1 s \<and> sensor_port2 s' = sensor_port2 s \<and> polling s' = polling s \<and>
     comm_max_answer_time s' = comm_max_answer_time s"

lemma example_added:
  fixes s :: Central
  assumes "sensor_port1 s = ''7000''" "comm_max_answer_time s = 5"
  shows "sensors s = [] \<Longrightarrow> \<exists>s'. comm_add_sensor exit_env (\<lambda>_. 100) ''::1'' (f32_of_int 100) s = (Return (), s') \<and>
      sensors s' = [(''::1'', new_SensorInfo\<lparr>last_threshold_question := 100\<rparr>)] \<and> same_ports s s'"
    "sensors s = [(''::1'', info)] \<Longrightarrow> last_threshold_question info = 100 \<Longrightarrow>
      \<exists>s'. comm_add_sensor exit_env (\<lambda>_. 100) ''::1'' (f32_of_int 100) s = (Return (), s') \<and> sensors s' = sensors s \<and> same_ports s s'"
proof -
  have x: "\<not> out_of_scale (f32_of_int 100)" using in_scale [of 100] by simp
  show "\<exists>s'. comm_add_sensor exit_env (\<lambda>_. 100) ''::1'' (f32_of_int 100) s = (Return (), s') \<and>
      sensors s' = [(''::1'', new_SensorInfo\<lparr>last_threshold_question := 100\<rparr>)] \<and> same_ports s s'" if "sensors s = []"
    using assms x that
    by (auto simp: comm_add_sensor_def andthen_def comm_set_threshold_sent new_SensorInfo_def same_ports_def
        set_last_threshold_question_def find_sensor_def raise_flag_cases om_assign_def om_find_def)
  show "\<exists>s'. comm_add_sensor exit_env (\<lambda>_. 100) ''::1'' (f32_of_int 100) s = (Return (), s') \<and> sensors s' = sensors s \<and> same_ports s s'"
    if "sensors s = [(''::1'', info)]" "last_threshold_question info = 100"
    using assms x that
    by (auto simp: comm_add_sensor_def andthen_def comm_set_threshold_recent om_find_def same_ports_def)
qed

lemma example_start_up:
  "start_up exit_env (\<lambda>_ _. 100) (Some ''/root'') (Some example_file) (f32_of_int 0) True example_stack = (Return (), example_restored)"
  "sensors example_restored = [(''::1'', new_SensorInfo\<lparr>last_threshold_question := 100\<rparr>)]"
  "sensor_port2 example_restored = ''7001''" "polling example_restored = Poll_begin"
proof -
  have "list_all (\<lambda>(w, k). space_free w \<and> k < 2 ^ 24) [(''::1'', 100 :: nat)]"
    by (simp add: space_free_def is_space_def)
  then have loop: "init_loop exit_env (\<lambda>_ _. 100) 0 (example_file, True) [] (f32_of_int 0) s =
      andthen (comm_add_sensor exit_env (\<lambda>_. 100) ''::1'' (f32_of_int 100)) (\<lambda>_.
      andthen (comm_add_sensor exit_env (\<lambda>_. 100) ''::1'' (f32_of_int 100)) (\<lambda>_. ret ())) s" for s :: Central
    by (simp add: example_file_eq init_loop_file entry_value_def del: saved_text.simps)
  obtain s1 where s1: "comm_add_sensor exit_env (\<lambda>_. 100) ''::1'' (f32_of_int 100) example_stack = (Return (), s1)"
      "sensors s1 = [(''::1'', new_SensorInfo\<lparr>last_threshold_question := 100\<rparr>)]" "same_ports example_stack s1"
    using example_added(1) [of example_stack] by auto
  obtain s2 where s2: "comm_add_sensor exit_env (\<lambda>_. 100) ''::1'' (f32_of_int 100) s1 = (Return (), s2)"
      "sensors s2 = sensors s1" "same_ports s1 s2"
    using example_added(2) [of s1] s1(2,3) by (auto simp: same_ports_def)
  have up: "start_up exit_env (\<lambda>_ _. 100) (Some ''/root'') (Some example_file) (f32_of_int 0) True example_stack = (Return (), s2)"
    using s1(1) s2(1) by (simp add: start_up_def init_from_file_def try_catch_def loop andthen_def)
  then have "example_restored = s2" by (simp add: example_restored_def)
  then show "start_up exit_env (\<lambda>_ _. 100) (Some ''/root'') (Some example_file) (f32_of_int 0) True example_stack = (Return (), example_restored)"
    "sensors example_restored = [(''::1'', new_SensorInfo\<lparr>last_threshold_question := 100\<rparr>)]"
    "sensor_port2 example_restored = ''7001''" "polling example_restored = Poll_begin"
    using up s1(2,3) s2(2,3) by (simp_all add: same_ports_def)
qed

lemma example_started: "started_process exit_env example_process"
proof -
  have "length (replicate 512 (CHR 0x00)) = 512" "length [CHR 0x00] = 1" "receive_timeout example_socket = (0, 0)"
    by (simp_all add: example_socket_def)
  then show ?thesis
    using example_start_up(1) unfolding started_process_def example_process_def example_stack_def exit_env_simps(6) by blast
qed

text \<open>All threads have been created.\<close>

lemma all_created:
  "\<exists>p l. process_run n cfg (new_Process a) p \<and> \<not> process_terminated p \<and> main_at p = Main_fifos \<and>
    http_thread p = Thread_created \<and> alarm_thread p = Thread_created \<and> polling_thread p = Thread_created \<and>
    service p = new_Service (a\<lparr>logs := l\<rparr>)"
proof -
  let ?p = "\<lambda>m h al po l. \<lparr>service = new_Service (a\<lparr>logs := l\<rparr>), main_at = m, http_thread = h, alarm_thread = al,
    polling_thread = po, receiver_thread_runs = True, process_terminated = False\<rparr>"
  have 0: "new_Process a = ?p Main_create_http No_thread No_thread No_thread (logs a)"
    by (simp add: new_Process_def)
  have 1: "process_step n cfg (?p Main_create_http No_thread No_thread No_thread l)
      (?p Main_create_alarm Thread_created No_thread No_thread (l @ [''Http web server started...'']))" for l
    by (rule process_step.create_http)
      (simp_all add: main_creates_http_def main_op_def thread_op_def andthen_def set_station_def new_Service_def)
  have 2: "process_step n cfg (?p Main_create_alarm Thread_created No_thread No_thread l)
      (?p Main_create_polling Thread_created Thread_created No_thread (l @ [''Alarm server started...'']))" for l
    by (rule process_step.create_alarm)
      (simp_all add: main_creates_alarm_def main_op_def thread_op_def andthen_def set_station_def new_Service_def)
  have 3: "process_step n cfg (?p Main_create_polling Thread_created Thread_created No_thread l)
      (?p Main_fifos Thread_created Thread_created Thread_created (l @ [''Polling thread started...'']))" for l
    by (rule process_step.create_polling)
      (simp_all add: main_creates_polling_def main_op_def thread_op_def andthen_def set_station_def new_Service_def)
  have "\<exists>l. process_run n cfg (new_Process a) (?p Main_fifos Thread_created Thread_created Thread_created l)"
    unfolding 0 by (blast intro: process_run_step [OF 1 process_run_step [OF 2 process_run_step [OF 3 process_run.stay]]])
  then obtain l where "process_run n cfg (new_Process a) (?p Main_fifos Thread_created Thread_created Thread_created l)"
    by blast
  then show ?thesis by force
qed

text \<open>All threads have begun, the polling thread is going to ask the sensor, and the main thread waits for scripts.\<close>

lemma example_at_scripts:
  "\<exists>p. process_run exit_env cfg example_process p \<and> \<not> process_terminated p \<and>
    main_at p = Main_scripts (replicate BUFSIZ (CHR 0x00)) \<and>
    http_thread p = Thread_runs \<and> alarm_thread p = Thread_runs \<and> polling_thread p = Thread_runs \<and>
    sensors (station_of p) = sensors example_restored \<and> sensor_port2 (station_of p) = ''7001'' \<and>
    polling (station_of p) = Poll_ask [''::1'']"
proof -
  obtain p0 l where run: "process_run exit_env cfg example_process p0" and p0: "\<not> process_terminated p0" "main_at p0 = Main_fifos"
      "http_thread p0 = Thread_created" "alarm_thread p0 = Thread_created" "polling_thread p0 = Thread_created"
      and a: "service p0 = new_Service (example_restored\<lparr>logs := l\<rparr>)"
    using all_created [of exit_env cfg example_restored] unfolding example_process_def by blast
  have st: "station_of p0 = example_restored\<lparr>logs := l\<rparr>" using a by (simp add: new_Service_def)
  obtain sv where sv: "start True (service p0) = (Return (), sv)" "app sv = station_of p0" by (simp add: start_apply)
  let ?p1 = "p0\<lparr>service := sv, http_thread := Thread_runs\<rparr>"
  let ?p2 = "?p1\<lparr>alarm_thread := Thread_runs\<rparr>"
  let ?s = "\<lparr>fd = 3, ownAddress = Address_any exit_env 7503, send_timeout = (0, 0), receive_timeout = (0, 0)\<rparr>"
  let ?p3 = "set_station ((station_of p0)\<lparr>polling_socket := ?s\<rparr>) ?p2\<lparr>polling_thread := Thread_runs\<rparr>"
  have 1: "process_step exit_env cfg p0 ?p1"
    by (rule process_step.http_begin [where bound = True]) (simp_all add: p0 http_begins_def sv)
  have 2: "process_step exit_env cfg ?p1 ?p2"
    using process_step.alarm_begin [of ?p1 exit_env cfg 4 0 0] by (simp add: p0 alarm_begins_def new_UDPsocket_def)
  have 3: "process_step exit_env cfg ?p2 ?p3"
    using process_step.polling_begin [of ?p2 exit_env cfg 3 0 0] sv(2) by (simp add: p0 polling_begins_def new_UDPsocket_def)
  obtain a4 where a4: "polling_step exit_env (\<lambda>_. 0) (Recv_failed True) True (station_of ?p3) = (Return (), a4)"
      "polling a4 = Poll_ask [''::1'']" "sensors a4 = sensors example_restored" "sensor_port2 a4 = ''7001''"
    using example_start_up(2-4)
    by (simp add: st polling_step_def get_addresses_def andthen_def poll_timeout_def setReceiveTimeout_def Let_def
        goto_phase_def om_keys_def)
  let ?p4 = "set_station a4 ?p3"
  have 4: "process_step exit_env cfg ?p3 ?p4"
    by (rule process_step.polling [where t = "\<lambda>_. 0" and r = "Recv_failed True" and opens = True])
      (use a4 in \<open>simp_all add: p0 polling_goes_on_def thread_op_def\<close>)
  obtain p5 where p5: "main_makes_fifos Created Created (replicate BUFSIZ (CHR 0x00)) ?p4 = Some p5"
      "\<not> process_terminated p5" "main_at p5 = Main_scripts (replicate BUFSIZ (CHR 0x00))"
      "http_thread p5 = Thread_runs" "alarm_thread p5 = Thread_runs" "polling_thread p5 = Thread_runs"
      "sensors (station_of p5) = sensors example_restored" "sensor_port2 (station_of p5) = ''7001''"
      "polling (station_of p5) = Poll_ask [''::1'']"
    using a4(2-4) by (simp add: main_makes_fifos_def main_op_def thread_op_def scripts_caught_def try_catch_def
        make_fifos_def andthen_def p0)
  have 5: "process_step exit_env cfg ?p4 p5"
    by (rule process_step.fifos [OF _ _ _ p5(1)]) (simp_all add: p0)
  have "process_run exit_env cfg p0 p5"
    by (rule process_run_step [OF 1 process_run_step [OF 2 process_run_step [OF 3 process_run_step [OF 4
      process_run_step [OF 5 process_run.stay]]]]])
  then show ?thesis using p5(2-9) run process_run_trans by blast
qed

lemma example_polls:
  assumes "sensors s = sensors example_restored" "sensor_port2 s = ''7001''" "polling s = Poll_ask [''::1'']"
  shows "polls_out exit_env s"
  using assms example_start_up(2)
  by (simp add: polls_out_def can_poll_def om_find_def om_keys_def ordered_def)

section \<open>Properties\<close>

text \<open>
  C10: In every state that the process of the station can reach, in any interleaving of its
  threads, the invariant of the station holds, and no connection hangs in the parser or waits
  without its time limit while its socket is open.  As long as the process has not been
  terminated, a stop of the server meets living objects only, and once the thread of the
  server has ended its acceptor and all its sockets are closed.
\<close>

theorem process_invariant:
  assumes "started_process n p0" "limited cfg" "process_run n cfg p0 p"
  shows "central_ok (station_of p) \<and>
    (\<forall>k c. om_find k (objects (service p)) = Some c \<longrightarrow> awaiting c \<noteq> Stuck \<and>
      (pending_operation (awaiting c) \<longrightarrow> timer c = Some (time_limit cfg (awaiting c)) \<or> \<not> socket_open c)) \<and>
    (\<not> process_terminated p \<longrightarrow> fst (HttpService.stop (service p)) = Return () \<and>
      (http_thread p = Thread_ended \<longrightarrow> stopped_service (service p)))"
proof -
  have ok: "process_ok cfg p" by (rule process_run_ok [OF assms(3,2) started_process_ok [OF assms(1)]])
  have "fst (HttpService.stop (service p)) = Return ()"
    using stop_idle [of "service p"] stop_defined [of "service p"] ok
    by (cases "acceptor (service p) = None") (auto simp: process_ok_def service_ok_def HttpService.stop_def)
  then show ?thesis
    using ok by (auto simp: process_ok_def service_ok_def all_connections_ok_def connection_ok_def)
qed

theorem process_invariant_witness:
  "\<exists>p. process_run exit_env (new_Config 8080) example_process p \<and> http_thread p = Thread_runs \<and>
    central_ok (station_of p) \<and> fst (HttpService.stop (service p)) = Return ()"
  using example_at_scripts process_invariant [OF example_started limited_new_Config] by blast

text \<open>
  C11: \<open>main\<close> saves the table when the alarm server, the HTTP server and the polling thread have
  ended and the HTTP server has been stopped; the file then holds the table as it is at that
  moment, or, when it cannot be opened, what it held before, and whatever still arrives afterwards
  changes neither the file nor which sensors the table holds.
\<close>

theorem process_saves_final_table:
  assumes "started_process n p0" "limited cfg" "process_run n cfg p0 p"
    and "process_step n cfg p p'" "main_at p = Main_join" "main_at p' = Main_saved" "process_run n cfg p' p''"
  shows "alarm_thread p = Thread_ended \<and> polling_thread p = Thread_ended \<and> polling (station_of p) = Poll_ended \<and>
    stopped_service (service p) \<and>
    (\<exists>opens. main_saves n opens p = Some p' \<and> data_txt (station_of p') =
      (if opens then saved_table (sensors (station_of p)) else data_txt (station_of p))) \<and>
    data_txt (station_of p'') = data_txt (station_of p') \<and>
    om_keys (sensors (station_of p'')) = om_keys (sensors (station_of p))"
proof -
  have ok: "process_ok cfg p" by (rule process_run_ok [OF assms(3,2) started_process_ok [OF assms(1)]])
  obtain opens where s: "\<not> process_terminated p" "main_saves n opens p = Some p'" using saved_from_join [OF assms(4-6)] by blast
  have after: "data_txt (station_of p'') = data_txt (station_of p')" "om_keys (sensors (station_of p'')) = om_keys (sensors (station_of p'))"
    using saved_run [OF assms(7,2) process_step_ok [OF assms(4,2) ok] assms(6)] by simp_all
  have "station_of p' = (if opens then (station_of p)\<lparr>data_txt := saved_table (sensors (station_of p))\<rparr>
      else station_of p)\<lparr>logs := logs (station_of p) @ [''Saving list of sensors to file'']\<rparr>"
    using main_saves_Some(4) [OF s(2)] assms(1) by (auto simp: started_process_def)
  then have txt_after: "data_txt (station_of p') = (if opens then saved_table (sensors (station_of p)) else data_txt (station_of p))"
      and keys: "om_keys (sensors (station_of p'')) = om_keys (sensors (station_of p))"
    using after(2) by simp_all
  have "alarm_thread p = Thread_ended" "polling_thread p = Thread_ended" "stopped_service (service p)" "polling (station_of p) = Poll_ended"
    using main_saves_Some(1-3) [OF s(2)] process_ok_simps(2,3) [OF ok s(1)] by simp_all
  with s(2) txt_after keys after(1) show ?thesis by blast
qed

theorem process_saves_final_table_witness:
  "\<exists>p p' opens. process_step exit_env (new_Config 8080) p p' \<and> main_at p' = Main_saved \<and> stopped_service (service p) \<and>
    polling (station_of p) = Poll_ended \<and> data_txt (station_of p') =
      (if opens then saved_table (sensors (station_of p)) else data_txt (station_of p))"
proof -
  obtain p where p: "process_run exit_env (new_Config 8080) example_process p" "\<not> process_terminated p"
      "main_at p = Main_scripts (replicate BUFSIZ (CHR 0x00))"
      "http_thread p = Thread_runs" "alarm_thread p = Thread_runs" "polling_thread p = Thread_runs"
      "polls_out exit_env (station_of p)"
    using example_at_scripts example_polls by blast
  have ok: "process_ok (new_Config 8080) p"
    by (rule process_run_ok [OF p(1) limited_new_Config started_process_ok [OF example_started]])
  have run: "alarm_thread p \<in> {Thread_runs, Thread_ended}"
      "polling_thread p = Thread_runs \<and> polls_out exit_env (station_of p) \<or> polling_thread p = Thread_ended"
    using p(5-7) by simp_all
  have env: "home_dir exit_env \<noteq> None" "0 \<le> sendto exit_env [CHR 0xFF] a" for a by simp_all
  obtain p1 p3 p4 where p4: "process_step exit_env (new_Config 8080) p p1" "process_run exit_env (new_Config 8080) p1 p3"
      "main_at p3 = Main_join" "process_step exit_env (new_Config 8080) p3 p4" "main_at p4 = Main_saved"
    using exit_runs [OF ok limited_new_Config p(2-4) run exit_env_simps(3) env(1) exit_env_simps(1) env(2) exit_env_simps(2) env(2),
      of "\<lambda>_. 0" 9] by blast
  have "process_run exit_env (new_Config 8080) example_process p3"
    by (rule process_run_trans [OF process_run_step [OF p4(1,2)] p(1)])
  from process_saves_final_table [OF example_started limited_new_Config this p4(4,3,5) process_run.stay] p4(4,5)
  show ?thesis by blast
qed



text \<open>
  C38: A \<open>stop\<close> that \<open>main\<close> calls before the thread of the server has begun is lost: in every
  continuation \<open>main\<close> waits for that thread for ever and the table is never saved.
\<close>

theorem lost_stop_hangs:
  assumes "started_process n p0" "limited cfg" "process_run n cfg p0 p" "\<not> process_terminated p"
    and "main_at p = Main_stop_http" "http_thread p = Thread_created" "main_stops_http p = Some p'" "process_run n cfg p' p''"
  shows "main_at p'' = Main_join \<and> http_thread p'' \<noteq> Thread_ended"
proof -
  have ok: "process_ok cfg p" by (rule process_run_ok [OF assms(3,2) started_process_ok [OF assms(1)]])
  then have "HttpService.stop (service p) = (Return (), service p)"
    using process_ok_simps(2) [OF ok assms(4)] assms(6) stop_idle by auto
  then have "stop_was_lost p'" using assms(6,7) by (auto simp: main_stops_http_def stop_was_lost_def)
  from lost_run [OF assms(8) this] show ?thesis by (auto simp: stop_was_lost_def)
qed

theorem lost_stop_hangs_witness:
  "\<exists>p p'. process_run exit_env (new_Config 8080) example_process p \<and> main_stops_http p = Some p' \<and>
    http_thread p = Thread_created \<and> main_at p' = Main_join"
proof -
  obtain p0 where run0: "process_run exit_env (new_Config 8080) example_process p0" and p0: "\<not> process_terminated p0"
      "http_thread p0 = Thread_created" "main_at p0 = Main_fifos"
    using all_created [of exit_env "new_Config 8080" example_restored] unfolding example_process_def by blast
  obtain p1 where p1: "main_makes_fifos Mkfifo_failed Created (replicate BUFSIZ (CHR 0x00)) p0 = Some p1"
      "\<not> process_terminated p1" "main_at p1 = Main_end_alarm" "http_thread p1 = Thread_created"
    by (simp add: main_makes_fifos_def main_op_def thread_op_def scripts_caught_def try_catch_def make_fifos_def
        andthen_def p0)
  have 1: "process_step exit_env (new_Config 8080) p0 p1"
    by (rule process_step.fifos [OF _ _ _ p1(1)]) (simp_all add: p0)
  obtain p2 where p2: "main_ends_alarm exit_env p1 = Some p2" "\<not> process_terminated p2" "main_at p2 = Main_end_polling"
      "http_thread p2 = Thread_created"
    using terminating_msg_sent [OF exit_env_simps(1), of "station_of p1"] p1(2,4)
    by (auto simp: main_ends_alarm_def main_op_def thread_op_def andthen_def)
  obtain p3 where p3: "main_ends_polling exit_env p2 = Some p3" "\<not> process_terminated p3" "main_at p3 = Main_stop_http"
      "http_thread p3 = Thread_created"
    using terminating_msg_sent [OF exit_env_simps(2), of "station_of p2"] p2(2,4)
    by (auto simp: main_ends_polling_def main_op_def thread_op_def andthen_def)
  have run: "process_run exit_env (new_Config 8080) example_process p3"
    by (rule process_run_trans [OF process_run_step [OF 1 process_run_step [OF process_step.end_alarm [OF p1(2,3) p2(1)]
      process_run_step [OF process_step.end_polling [OF p2(2,3) p3(1)] process_run.stay]]] run0])
  have ok: "process_ok (new_Config 8080) p3"
    by (rule process_run_ok [OF run limited_new_Config started_process_ok [OF example_started]])
  obtain p4 where p4: "main_stops_http p3 = Some p4"
    using process_ok_simps(2) [OF ok p3(2)] p3(4) stop_idle [of "service p3"] by (simp add: main_stops_http_def)
  from lost_stop_hangs [OF example_started limited_new_Config run p3(2-4) p4 process_run.stay] run p3(4) p4
  show ?thesis by blast
qed

end
