(* ===== verification/Resources.thy ===== *)
theory Resources
  imports Udp
begin

text \<open>
  What the objects of \<open>common\<close> take from the operating system and give back: the lists of
  \<open>getaddrinfo\<close>, which an \<open>AddressInfo\<close> frees in its destructor, and the descriptors that a
  \<open>UDPsocket\<close> closes in its own.  An \<open>AddressInfo\<close> can only be moved; a \<open>UDPsocket\<close> has the copy
  constructor that the compiler makes, which copies the number of the descriptor.
\<close>

section \<open>AddressInfo\<close>

text \<open>
  \<open>chains\<close> are the lists that have not been freed, \<open>infos\<close> the living objects with their pointer,
  \<open>cerr_text\<close> what the debug build has written to the standard error.
\<close>

record Infos =
  chains :: "nat \<Rightarrow> Address list option"
  infos :: "nat \<Rightarrow> nat option option"
  cerr_text :: string

definition no_infos :: Infos where
  "no_infos = \<lparr>chains = (\<lambda>_. None), infos = (\<lambda>_. None), cerr_text = []\<rparr>"

text \<open>The loop of \<open>forEach\<close>, \<open>print\<close>, and the warning of the debug build about more than one result.\<close>

fun for_each_node :: "(Address \<Rightarrow> ('s, unit) op) \<Rightarrow> Address list \<Rightarrow> ('s, unit) op" where
  "for_each_node f [] = ret ()"
| "for_each_node f (tmp # ai_next) = andthen (f tmp) (\<lambda>_. for_each_node f ai_next)"

definition print_address :: "'a net_scheme \<Rightarrow> Address \<Rightarrow> (Infos, unit) op" where
  "print_address n a =
     andthen (or_throw (toString n a)) (\<lambda>str. change (\<lambda>s. s\<lparr>cerr_text := cerr_text s @ str @ [CHR 10]\<rparr>))"

definition warn_many_results :: "'a net_scheme \<Rightarrow> Address list \<Rightarrow> (Infos, unit) op" where
  "warn_many_results n ai = (case ai of
      [] \<Rightarrow> undefined_behaviour
    | [_] \<Rightarrow> ret ()
    | _ \<Rightarrow> andthen (change (\<lambda>s. s\<lparr>cerr_text := cerr_text s @ ''warning - many getaddrinfo results:'' @ [CHR 10]\<rparr>))
             (\<lambda>_. for_each_node (print_address n) ai))"

text \<open>
  The constructor of the object \<open>k\<close>, with the place where \<open>getaddrinfo\<close> puts its list: the object lives
  when the constructor has returned.  \<open>ndebug\<close> tells whether \<open>NDEBUG\<close> is defined, as in the release builds.
\<close>

definition info_constructed :: "bool \<Rightarrow> 'a net_scheme \<Rightarrow> string \<Rightarrow> string \<Rightarrow> nat \<Rightarrow> nat \<Rightarrow> (Infos, unit) op" where
  "info_constructed ndebug n host port k p =
     andthen (or_throw (AddressInfo n host port)) (\<lambda>ai.
     andthen (change (\<lambda>s. s\<lparr>chains := (chains s)(p := Some ai)\<rparr>)) (\<lambda>_.
     andthen (if ndebug then ret () else warn_many_results n ai) (\<lambda>_.
     change (\<lambda>s. s\<lparr>infos := (infos s)(k := Some (Some p))\<rparr>))))"

text \<open>\<open>AddressInfo (AddressInfo &&other)\<close>\<close>

definition info_moved :: "nat \<Rightarrow> nat \<Rightarrow> (Infos, unit) op" where
  "info_moved other k = (\<lambda>s. case infos s other of
      None \<Rightarrow> (Undefined, s)
    | Some ai \<Rightarrow> (Return (), s\<lparr>infos := (infos s)(k := Some ai, other := Some None)\<rparr>))"

text \<open>A list that has been freed must not be freed again.\<close>

definition info_destroyed :: "nat \<Rightarrow> (Infos, unit) op" where
  "info_destroyed k = (\<lambda>s. case infos s k of
      None \<Rightarrow> (Undefined, s)
    | Some None \<Rightarrow> (Return (), s\<lparr>infos := (infos s)(k := None)\<rparr>)
    | Some (Some p) \<Rightarrow>
        if chains s p = None then (Undefined, s)
        else (Return (), s\<lparr>chains := (chains s)(p := None), infos := (infos s)(k := None)\<rparr>))"

text \<open>\<open>forEach\<close> over the list behind the pointer; the pointer of an object that was moved from is null.\<close>

definition forEach :: "Infos \<Rightarrow> nat \<Rightarrow> (Address \<Rightarrow> ('s, unit) op) \<Rightarrow> ('s, unit) op" where
  "forEach i k f = (case infos i k of
      None \<Rightarrow> undefined_behaviour
    | Some None \<Rightarrow> ret ()
    | Some (Some p) \<Rightarrow> (case chains i p of None \<Rightarrow> undefined_behaviour | Some ai \<Rightarrow> for_each_node f ai))"

text \<open>
  A step of a program: the names of the objects are its own, an object is destroyed once and
  used before, and \<open>getaddrinfo\<close> puts its list where there is none.  A constructor may throw.
\<close>

inductive info_step :: "bool \<Rightarrow> 'a net_scheme \<Rightarrow> Infos \<Rightarrow> Infos \<Rightarrow> bool" for ndebug n where
  constructed: "infos s k = None \<Longrightarrow> chains s p = None \<Longrightarrow> info_constructed ndebug n host port k p s = (r, s') \<Longrightarrow>
     info_step ndebug n s s'"
| moved: "infos s other \<noteq> None \<Longrightarrow> infos s k = None \<Longrightarrow> info_moved other k s = (Return (), s') \<Longrightarrow> info_step ndebug n s s'"
| destroyed: "infos s k \<noteq> None \<Longrightarrow> info_destroyed k s = (Return (), s') \<Longrightarrow> info_step ndebug n s s'"

inductive info_reachable :: "bool \<Rightarrow> 'a net_scheme \<Rightarrow> Infos \<Rightarrow> bool" for ndebug n where
  start: "info_reachable ndebug n no_infos"
| step: "info_reachable ndebug n s \<Longrightarrow> info_step ndebug n s s' \<Longrightarrow> info_reachable ndebug n s'"

text \<open>Every list that has not been freed has exactly one owner, and every pointer leads to such a list.\<close>

definition infos_ok :: "Infos \<Rightarrow> bool" where
  "infos_ok s \<longleftrightarrow> (\<forall>p. chains s p \<noteq> None \<longleftrightarrow> (\<exists>k. infos s k = Some (Some p))) \<and>
     (\<forall>k k' p. infos s k = Some (Some p) \<longrightarrow> infos s k' = Some (Some p) \<longrightarrow> k = k')"

lemma info_constructed_apply:
  "info_constructed True n host port k p s = (case AddressInfo n host port of
      Inl e \<Rightarrow> (Throw e, s)
    | Inr ai \<Rightarrow> (Return (), s\<lparr>chains := (chains s)(p := Some ai), infos := (infos s)(k := Some (Some p))\<rparr>))"
  by (simp add: info_constructed_def andthen_def split: sum.split)

lemma infos_ok_owner: "infos_ok s \<Longrightarrow> chains s p \<noteq> None \<longleftrightarrow> (\<exists>k. infos s k = Some (Some p))"
  by (simp add: infos_ok_def)

lemma infos_ok_unique: "infos_ok s \<Longrightarrow> infos s k = Some (Some p) \<Longrightarrow> infos s k' = Some (Some p) \<Longrightarrow> k = k'"
  unfolding infos_ok_def by blast

lemma infos_okI:
  assumes "\<And>p k. infos s k = Some (Some p) \<Longrightarrow> chains s p \<noteq> None"
    and "\<And>p. chains s p \<noteq> None \<Longrightarrow> \<exists>k. infos s k = Some (Some p)"
    and "\<And>k k' p. infos s k = Some (Some p) \<Longrightarrow> infos s k' = Some (Some p) \<Longrightarrow> k = k'"
  shows "infos_ok s"
  unfolding infos_ok_def using assms by metis

lemma infos_ok_constructed:
  assumes "infos_ok s" "infos s k = None" "chains s p = None"
  shows "infos_ok (s\<lparr>chains := (chains s)(p := Some ai), infos := (infos s)(k := Some (Some p))\<rparr>)"
proof (rule infos_okI)
  have none: "infos s j \<noteq> Some (Some p)" for j using infos_ok_owner [OF assms(1), of p] assms(3) by simp
  show "\<exists>j. infos (s\<lparr>chains := (chains s)(p := Some ai), infos := (infos s)(k := Some (Some p))\<rparr>) j = Some (Some q)"
    if q: "chains (s\<lparr>chains := (chains s)(p := Some ai), infos := (infos s)(k := Some (Some p))\<rparr>) q \<noteq> None" for q
  proof (cases "q = p")
    case False
    then obtain j where "infos s j = Some (Some q)" using q infos_ok_owner [OF assms(1), of q] by auto
    then show ?thesis using assms(2) by (intro exI [of _ j]) auto
  qed (auto intro: exI [of _ k])
  show "j = j'" if "infos (s\<lparr>chains := (chains s)(p := Some ai), infos := (infos s)(k := Some (Some p))\<rparr>) j = Some (Some q)"
    "infos (s\<lparr>chains := (chains s)(p := Some ai), infos := (infos s)(k := Some (Some p))\<rparr>) j' = Some (Some q)" for j j' q
    using that none infos_ok_unique [OF assms(1)] by (auto split: if_splits)
qed (use infos_ok_owner [OF assms(1)] in \<open>auto split: if_splits\<close>)

lemma infos_ok_moved:
  assumes "infos_ok s" "infos s other = Some ai" "infos s k = None"
  shows "infos_ok (s\<lparr>infos := (infos s)(k := Some ai, other := Some None)\<rparr>)"
proof (rule infos_okI)
  have ne: "k \<noteq> other" using assms(2,3) by auto
  show "\<exists>j. infos (s\<lparr>infos := (infos s)(k := Some ai, other := Some None)\<rparr>) j = Some (Some q)"
    if q: "chains (s\<lparr>infos := (infos s)(k := Some ai, other := Some None)\<rparr>) q \<noteq> None" for q
  proof -
    obtain j where j: "infos s j = Some (Some q)" using q infos_ok_owner [OF assms(1), of q] by auto
    show ?thesis
    proof (cases "j = other")
      case True
      then show ?thesis using j assms(2) ne by (intro exI [of _ k]) simp
    next
      case False
      then show ?thesis using j assms(3) by (intro exI [of _ j]) auto
    qed
  qed
  show "j = j'" if "infos (s\<lparr>infos := (infos s)(k := Some ai, other := Some None)\<rparr>) j = Some (Some q)"
    "infos (s\<lparr>infos := (infos s)(k := Some ai, other := Some None)\<rparr>) j' = Some (Some q)" for j j' q
    using that assms(2) infos_ok_unique [OF assms(1)] by (auto split: if_splits)
qed (use infos_ok_owner [OF assms(1)] assms(2) in \<open>auto split: if_splits\<close>)

lemma infos_ok_freed:
  assumes "infos_ok s" "infos s k = Some (Some p)"
  shows "infos_ok (s\<lparr>chains := (chains s)(p := None), infos := (infos s)(k := None)\<rparr>)"
proof (rule infos_okI)
  show "\<exists>j. infos (s\<lparr>chains := (chains s)(p := None), infos := (infos s)(k := None)\<rparr>) j = Some (Some q)"
    if q: "chains (s\<lparr>chains := (chains s)(p := None), infos := (infos s)(k := None)\<rparr>) q \<noteq> None" for q
  proof -
    have q: "q \<noteq> p" "chains s q \<noteq> None" using q by (auto split: if_splits)
    then obtain j where "infos s j = Some (Some q)" using infos_ok_owner [OF assms(1), of q] by auto
    then show ?thesis using assms(2) q(1) by (intro exI [of _ j]) auto
  qed
qed (use infos_ok_owner [OF assms(1)] infos_ok_unique [OF assms(1)] assms(2) in \<open>auto split: if_splits\<close>)

lemma infos_ok_dropped:
  assumes "infos_ok s" "infos s k = Some None"
  shows "infos_ok (s\<lparr>infos := (infos s)(k := None)\<rparr>)"
proof (rule infos_okI)
  show "\<exists>j. infos (s\<lparr>infos := (infos s)(k := None)\<rparr>) j = Some (Some q)"
    if q: "chains (s\<lparr>infos := (infos s)(k := None)\<rparr>) q \<noteq> None" for q
  proof -
    obtain j where "infos s j = Some (Some q)" using q infos_ok_owner [OF assms(1), of q] by auto
    then show ?thesis using assms(2) by (intro exI [of _ j]) auto
  qed
qed (use infos_ok_owner [OF assms(1)] infos_ok_unique [OF assms(1)] in \<open>auto split: if_splits\<close>)

lemma infos_ok_step:
  assumes "info_step True n s s'" "infos_ok s"
  shows "infos_ok s'"
  using assms(1)
proof cases
  case (constructed k p host port r)
  then show ?thesis
    using infos_ok_constructed [OF assms(2)] assms(2) by (auto simp: info_constructed_apply split: sum.splits)
next
  case (moved other k)
  then show ?thesis using infos_ok_moved [OF assms(2)] by (auto simp: info_moved_def)
next
  case (destroyed k)
  then show ?thesis
    using infos_ok_freed [OF assms(2)] infos_ok_dropped [OF assms(2)]
    by (auto simp: info_destroyed_def split: option.splits if_splits)
qed

lemma infos_ok_reachable: "info_reachable True n s \<Longrightarrow> infos_ok s"
proof (induction rule: info_reachable.induct)
  case start
  show ?case by (simp add: infos_ok_def no_infos_def)
qed (rule infos_ok_step)

lemma for_each_node_print:
  assumes "\<And>a. a \<in> set ai \<Longrightarrow> toString n a = Inr (txt a)"
  shows "for_each_node (print_address n) ai s = (Return (), s\<lparr>cerr_text := cerr_text s @ concat (map (\<lambda>a. txt a @ [CHR 10]) ai)\<rparr>)"
  using assms by (induction ai arbitrary: s) (simp_all add: print_address_def andthen_def)

text \<open>
  In the debug build the warning about a second result throws when an address has no text; no
  destructor runs then, and the list is left without an owner for good.
\<close>

lemma debug_warning_leaks:
  assumes "AddressInfo n host port = Inr (a # b # rest)" "toString n a = Inl e" "infos_ok s" "chains s p = None"
  shows "\<exists>s'. info_constructed False n host port k p s = (Throw e, s') \<and> chains s' p = Some (a # b # rest) \<and>
    infos s' = infos s \<and> \<not> infos_ok s'"
proof -
  let ?s = "s\<lparr>chains := (chains s)(p := Some (a # b # rest)),
    cerr_text := cerr_text s @ ''warning - many getaddrinfo results:'' @ [CHR 10]\<rparr>"
  have "infos s j \<noteq> Some (Some p)" for j using infos_ok_owner [OF assms(3), of p] assms(4) by simp
  then have "\<not> infos_ok ?s" using infos_ok_owner [of ?s p] by auto
  moreover have "info_constructed False n host port k p s = (Throw e, ?s)"
    using assms(1,2) by (simp add: info_constructed_def andthen_def warn_many_results_def print_address_def)
  ultimately show ?thesis by (intro exI [of _ ?s]) simp
qed

section \<open>UDPsocket\<close>

text \<open>The open descriptors of the process, and its living sockets.\<close>

record Sockets =
  opened :: "int set"
  sockets :: "nat \<Rightarrow> UDPsocket option"

text \<open>When the constructor throws, no destructor runs for the descriptor it has got.\<close>

definition socket_constructed :: "'a net_scheme \<Rightarrow> 16 word \<Rightarrow> nat \<Rightarrow> int \<Rightarrow> int \<Rightarrow> int \<Rightarrow> (Sockets, unit) op" where
  "socket_constructed n port k descriptor reuse bound =
     andthen (change (\<lambda>s. if descriptor < 0 then s else s\<lparr>opened := insert descriptor (opened s)\<rparr>)) (\<lambda>_.
     andthen (or_throw (new_UDPsocket n port descriptor reuse bound)) (\<lambda>sock.
     change (\<lambda>s. s\<lparr>sockets := (sockets s)(k := Some sock)\<rparr>)))"

definition socket_copied :: "nat \<Rightarrow> nat \<Rightarrow> (Sockets, unit) op" where
  "socket_copied other k = change (\<lambda>s. s\<lparr>sockets := (sockets s)(k := sockets s other)\<rparr>)"

text \<open>\<open>close\<close> of a number that is not open fails, which nobody notices.\<close>

definition socket_destroyed :: "nat \<Rightarrow> (Sockets, unit) op" where
  "socket_destroyed k = (\<lambda>s. case sockets s k of
      None \<Rightarrow> (Undefined, s)
    | Some sock \<Rightarrow> (Return (), s\<lparr>opened := (if fd sock > 0 then opened s - {fd sock} else opened s),
                              sockets := (sockets s)(k := None)\<rparr>))"

text \<open>The steps of a program that makes no copy; the system gives descriptors that are not open.\<close>

inductive socket_step :: "'a net_scheme \<Rightarrow> Sockets \<Rightarrow> Sockets \<Rightarrow> bool" for n where
  constructed: "sockets s k = None \<Longrightarrow> d \<notin> opened s \<Longrightarrow> socket_constructed n port k d reuse bound s = (r, s') \<Longrightarrow>
     socket_step n s s'"
| destroyed: "sockets s k \<noteq> None \<Longrightarrow> socket_destroyed k s = (Return (), s') \<Longrightarrow> socket_step n s s'"

definition sockets_ok :: "Sockets \<Rightarrow> bool" where
  "sockets_ok s \<longleftrightarrow> (\<forall>k sock. sockets s k = Some sock \<longrightarrow> fd sock \<in> opened s) \<and>
     (\<forall>k k' sock sock'. sockets s k = Some sock \<longrightarrow> sockets s k' = Some sock' \<longrightarrow> fd sock = fd sock' \<longrightarrow> k = k')"

lemma socket_constructed_apply:
  "socket_constructed n port k d reuse bound s =
     (let s1 = if d < 0 then s else s\<lparr>opened := insert d (opened s)\<rparr>
      in case new_UDPsocket n port d reuse bound of
           Inl e \<Rightarrow> (Throw e, s1)
         | Inr sock \<Rightarrow> (Return (), s1\<lparr>sockets := (sockets s1)(k := Some sock)\<rparr>))"
  by (simp add: socket_constructed_def andthen_def Let_def split: sum.split)

lemma sockets_ok_step:
  assumes "socket_step n s s'" "sockets_ok s"
  shows "sockets_ok s'"
  using assms(1)
proof cases
  case (constructed k d port reuse bound r)
  have new: "fd sock \<noteq> d" if "sockets s k' = Some sock" for k' sock
    using that assms(2) constructed(2) by (auto simp: sockets_ok_def)
  show ?thesis
  proof (cases "new_UDPsocket n port d reuse bound")
    case (Inl e)
    then have "s' = (if d < 0 then s else s\<lparr>opened := insert d (opened s)\<rparr>)"
      using constructed(3) by (simp add: socket_constructed_apply Let_def)
    then show ?thesis using assms(2) by (auto simp: sockets_ok_def)
  next
    case (Inr sock)
    then have d: "\<not> d < 0" "fd sock = d" by (auto simp: new_UDPsocket_def split: if_splits)
    have s': "s' = s\<lparr>opened := insert d (opened s), sockets := (sockets s)(k := Some sock)\<rparr>"
      using constructed(3) Inr d by (simp add: socket_constructed_apply Let_def)
    show ?thesis using assms(2) new d(2) unfolding sockets_ok_def s' by (auto split: if_splits) metis
  qed
next
  case (destroyed k)
  then obtain sock where sock: "sockets s k = Some sock" by auto
  then have s': "s' = s\<lparr>opened := (if fd sock > 0 then opened s - {fd sock} else opened s), sockets := (sockets s)(k := None)\<rparr>"
    using destroyed(2) by (simp add: socket_destroyed_def)
  have "fd other \<noteq> fd sock" if "sockets s k' = Some other" "k' \<noteq> k" for k' other
    using that sock assms(2) unfolding sockets_ok_def by metis
  then show ?thesis using assms(2) unfolding sockets_ok_def s' by (auto split: if_splits)
qed

text \<open>
  A constructor that fails after \<open>socket\<close> leaves a descriptor that no destructor closes.
\<close>

lemma failed_constructor_leaks:
  assumes "0 \<le> d" "reuse < 0 \<or> bound < 0" "d \<notin> opened s" "sockets_ok s"
  shows "\<exists>e s'. socket_constructed n port k d reuse bound s = (Throw e, s') \<and> d \<in> opened s' \<and> sockets_ok s' \<and>
    (\<forall>k sock. sockets s' k = Some sock \<longrightarrow> fd sock \<noteq> d)"
  using assms by (auto simp: socket_constructed_apply new_UDPsocket_def sockets_ok_def)

text \<open>
  The second of two objects that share a descriptor closes whatever the process has opened in
  the meantime under the same number.
\<close>

lemma copied_socket_closes_other:
  assumes "sockets_ok s" "sockets s a = Some sock" "0 < fd sock" "sockets s b = None" "sockets s c = None" "c \<noteq> b"
  shows "\<exists>s1 s2 s3 s4 other. socket_copied a b s = (Return (), s1) \<and> socket_destroyed b s1 = (Return (), s2) \<and>
    fd sock \<notin> opened s2 \<and> socket_constructed n port c (fd sock) 0 0 s2 = (Return (), s3) \<and>
    socket_destroyed a s3 = (Return (), s4) \<and> sockets s4 c = Some other \<and> fd other \<notin> opened s4"
proof -
  have "a \<noteq> b" "a \<noteq> c" using assms(2,4,5) by auto
  then show ?thesis
    using assms by (simp add: socket_copied_def socket_destroyed_def socket_constructed_apply new_UDPsocket_def Let_def)
qed

section \<open>Properties\<close>

text \<open>
  C39: In a build with \<open>NDEBUG\<close>, however a program constructs, moves and destroys objects of \<open>AddressInfo\<close>, the destructor
  of a living object returns, so that no list is freed twice; \<open>forEach\<close> visits the list of the
  object in its order and nothing for an object that was moved from, so that it never follows a
  pointer to a freed list; and with the destruction of the last object all lists have been freed.
\<close>

theorem address_lists_freed_once:
  fixes f :: "Address \<Rightarrow> ('s, unit) op"
  assumes "info_reachable True n s" "infos s k = Some ptr"
  shows "fst (info_destroyed k s) = Return () \<and>
    (case ptr of
       None \<Rightarrow> forEach s k f = ret ()
     | Some p \<Rightarrow> \<exists>ai. chains s p = Some ai \<and> forEach s k f = for_each_node f ai) \<and>
    ((\<forall>k'. infos s k' \<noteq> None \<longrightarrow> k' = k) \<longrightarrow> (\<forall>p. chains (snd (info_destroyed k s)) p = None))"
proof -
  have ok: "infos_ok s" using assms(1) by (rule infos_ok_reachable)
  show ?thesis
  proof (cases ptr)
    case None
    have "chains s p = None" if "\<forall>k'. infos s k' \<noteq> None \<longrightarrow> k' = k" for p
      using that ok assms(2) None unfolding infos_ok_def by (metis option.distinct(1) option.inject)
    then show ?thesis using assms(2) None by (auto simp: info_destroyed_def forEach_def)
  next
    case (Some p)
    then obtain ai where ai: "chains s p = Some ai" using ok assms(2) unfolding infos_ok_def by blast
    have "chains s q = None" if "\<forall>k'. infos s k' \<noteq> None \<longrightarrow> k' = k" "q \<noteq> p" for q
      using that ok assms(2) Some unfolding infos_ok_def by (metis option.distinct(1) option.inject)
    then show ?thesis using assms(2) Some ai by (auto simp: info_destroyed_def forEach_def)
  qed
qed

theorem address_lists_freed_once_witness:
  "\<exists>s s'. info_constructed True example_net ''::1'' ''7000'' 0 7 no_infos = (Return (), s) \<and> info_moved 0 1 s = (Return (), s') \<and>
    chains s' 7 = Some [loopback6 7000] \<and> fst (info_destroyed 1 s') = Return () \<and>
    forEach s' 0 (print_address example_net) = ret ()"
proof -
  have "AddressInfo example_net ''::1'' ''7000'' = Inr [loopback6 7000]"
    by (simp add: AddressInfo_def example_net_def c_str_def)
  note ai = this
  define s where "s = \<lparr>chains = (\<lambda>_. None)(7 := Some [loopback6 7000]), infos = (\<lambda>_. None)(0 := Some (Some (7 :: nat))), cerr_text = []\<rparr>"
  have s: "info_constructed True example_net ''::1'' ''7000'' 0 7 no_infos = (Return (), s)"
    by (simp add: info_constructed_apply no_infos_def ai s_def)
  obtain s' where s': "info_moved 0 1 s = (Return (), s')" "infos s' 0 = Some None" "infos s' 1 = Some (Some 7)"
      "chains s' 7 = Some [loopback6 7000]"
    by (simp add: info_moved_def s_def)
  have "info_step True example_net no_infos s"
    by (rule info_step.constructed [OF _ _ s]) (simp_all add: no_infos_def)
  moreover have "info_step True example_net s s'" by (rule info_step.moved [OF _ _ s'(1)]) (simp_all add: s_def)
  ultimately have reach: "info_reachable True example_net s'" by (blast intro: info_reachable.intros)
  show ?thesis
    using s s'(1,4) address_lists_freed_once [OF reach s'(3), of "print_address example_net"]
      address_lists_freed_once [OF reach s'(2), of "print_address example_net"] by simp
qed

end
