(* ===== verification/Logger.thy ===== *)
theory Logger
  imports Prelude "HOL-Library.Sublist"
begin

text \<open>
  \<open>common::Logger::log\<close> with the two locks, as the threads of a program run it: one step is
  the taking or giving back of a lock, one insertion into a stream, or one use of the file.  A
  \<open>TerminalLock\<close> lives to the end of the statement that writes to the terminal; the \<open>FileLock\<close>
  is a temporary object of a statement of its own, so it is given back before the file is opened.
  \<open>HOME\<close> may be missing, the file may not open, and a write to it may fail; none of this is looked at
  by the code.  The terminal takes everything; what other functions write to it is not part of
  the model.  The other theories use \<open>log_msg\<close>, one line for each message.
\<close>

section \<open>State and steps\<close>

text \<open>Where a thread is in \<open>log\<close>.\<close>

datatype log_place =
    Log_called
  | Terminal_locked
  | Terminal_unlocked
  | File_locked
  | File_unlocked
  | File_writes
  | Log_done
  | Log_thrown

text \<open>
  A call has its two strings, the insertions that are left of the statement it executes, and its own
  \<open>std::ofstream\<close>: whether no state bit is set, and what its buffer holds.
\<close>

record log_call =
  place :: log_place
  call_stamp :: string
  call_message :: string
  pieces_left :: "string list"
  stream_good :: bool
  stream_buffer :: string

text \<open>The bytes of the file have the call that wrote them with them.\<close>

record logger =
  terminal_mutex :: "nat option"
  file_mutex :: "nat option"
  terminal :: string
  logs_txt :: "(nat \<times> char) list"
  calls :: "log_call list"

text \<open>The insertions of both statements: \<open>"[" << timestamp << "] : " << message << std::endl\<close>.\<close>

definition log_pieces :: "string \<Rightarrow> string \<Rightarrow> string list" where
  "log_pieces timestamp message = [''['', timestamp, ''] : '', message, [CHR 10]]"

definition log_line :: "string \<Rightarrow> string \<Rightarrow> string" where
  "log_line timestamp message = concat (log_pieces timestamp message)"

definition new_logger :: "(string \<times> string) list \<Rightarrow> logger" where
  "new_logger ms = \<lparr>terminal_mutex = None, file_mutex = None, terminal = [], logs_txt = [],
     calls = map (\<lambda>(timestamp, message). \<lparr>place = Log_called, call_stamp = timestamp, call_message = message,
       pieces_left = [], stream_good = False, stream_buffer = []\<rparr>) ms\<rparr>"

definition update_call :: "nat \<Rightarrow> (log_call \<Rightarrow> log_call) \<Rightarrow> logger \<Rightarrow> logger" where
  "update_call i f s = s\<lparr>calls := (calls s)[i := f (calls s ! i)]\<rparr>"

definition at :: "logger \<Rightarrow> nat \<Rightarrow> log_place \<Rightarrow> bool" where
  "at s i p \<longleftrightarrow> i < length (calls s) \<and> place (calls s ! i) = p"

text \<open>A statement begins with all its insertions left.\<close>

definition begin_line :: "log_place \<Rightarrow> log_call \<Rightarrow> log_call" where
  "begin_line p c = c\<lparr>place := p, pieces_left := log_pieces (call_stamp c) (call_message c)\<rparr>"

definition go_on :: "log_place \<Rightarrow> log_call \<Rightarrow> log_call" where
  "go_on p c = c\<lparr>place := p\<rparr>"

text \<open>An insertion into the stream of a file: nothing happens when a state bit is set.\<close>

definition insert_piece :: "log_call \<Rightarrow> log_call" where
  "insert_piece c = c\<lparr>pieces_left := tl (pieces_left c),
     stream_buffer := (if stream_good c then stream_buffer c @ hd (pieces_left c) else stream_buffer c)\<rparr>"

text \<open>
  The steps of \<open>log\<close>.  The buffer of the stream can go to the end of the file in parts, at any time
  (\<open>file_spill\<close>); a write that fails sets a state bit (\<open>file_fails\<close>), and what is in the buffer then may
  still be written, or be lost, when the file is closed.  While no bit is set,
  \<open>std::endl\<close> leaves the buffer empty.
\<close>

inductive log_step :: "string option \<Rightarrow> logger \<Rightarrow> logger \<Rightarrow> bool" for home where
  terminal_lock: "at s i Log_called \<Longrightarrow> terminal_mutex s = None \<Longrightarrow>
     log_step home s (update_call i (begin_line Terminal_locked) (s\<lparr>terminal_mutex := Some i\<rparr>))"
| terminal_insert: "at s i Terminal_locked \<Longrightarrow> pieces_left (calls s ! i) = x # xs \<Longrightarrow>
     log_step home s (update_call i (\<lambda>c. c\<lparr>pieces_left := xs\<rparr>) (s\<lparr>terminal := terminal s @ x\<rparr>))"
| terminal_unlock: "at s i Terminal_locked \<Longrightarrow> pieces_left (calls s ! i) = [] \<Longrightarrow>
     log_step home s (update_call i (go_on Terminal_unlocked) (s\<lparr>terminal_mutex := None\<rparr>))"
| home_missing: "at s i Terminal_unlocked \<Longrightarrow> home = None \<Longrightarrow> log_step home s (update_call i (go_on Log_thrown) s)"
| file_lock: "at s i Terminal_unlocked \<Longrightarrow> home = Some d \<Longrightarrow> file_mutex s = None \<Longrightarrow>
     log_step home s (update_call i (go_on File_locked) (s\<lparr>file_mutex := Some i\<rparr>))"
| file_unlock: "at s i File_locked \<Longrightarrow>
     log_step home s (update_call i (go_on File_unlocked) (s\<lparr>file_mutex := None\<rparr>))"
| file_open: "at s i File_unlocked \<Longrightarrow>
     log_step home s (update_call i (\<lambda>c. (begin_line File_writes c)\<lparr>stream_good := opens\<rparr>) s)"
| file_insert: "at s i File_writes \<Longrightarrow> pieces_left (calls s ! i) \<noteq> [] \<Longrightarrow>
     log_step home s (update_call i insert_piece s)"
| file_spill: "at s i File_writes \<Longrightarrow>
     log_step home s (update_call i (\<lambda>c. c\<lparr>stream_buffer := drop k (stream_buffer c)\<rparr>)
       (s\<lparr>logs_txt := logs_txt s @ map (Pair i) (take k (stream_buffer (calls s ! i)))\<rparr>))"
| file_fails: "at s i File_writes \<Longrightarrow>
     log_step home s (update_call i (\<lambda>c. c\<lparr>stream_good := False\<rparr>) s)"
| file_close: "at s i File_writes \<Longrightarrow> pieces_left (calls s ! i) = [] \<Longrightarrow>
     stream_good (calls s ! i) \<longrightarrow> stream_buffer (calls s ! i) = [] \<Longrightarrow>
     log_step home s (update_call i (go_on Log_done) s)"

inductive log_reachable :: "string option \<Rightarrow> (string \<times> string) list \<Rightarrow> logger \<Rightarrow> bool" for home ms where
  start: "log_reachable home ms (new_logger ms)"
| step: "log_reachable home ms s \<Longrightarrow> log_step home s s' \<Longrightarrow> log_reachable home ms s'"

section \<open>Invariant\<close>

definition bytes_of :: "nat \<Rightarrow> (nat \<times> char) list \<Rightarrow> string" where
  "bytes_of i xs = map snd (filter (\<lambda>x. fst x = i) xs)"

definition line_of :: "log_call \<Rightarrow> string" where
  "line_of c = log_line (call_stamp c) (call_message c)"

text \<open>A call that has written its line to the terminal.\<close>

definition past_terminal :: "log_place \<Rightarrow> bool" where
  "past_terminal p \<longleftrightarrow> p \<notin> {Log_called, Terminal_locked}"

text \<open>
  The terminal shows whole lines of different calls, and the begin of the line of the owner of
  the lock.
\<close>

definition terminal_shows :: "logger \<Rightarrow> nat list \<Rightarrow> string \<Rightarrow> bool" where
  "terminal_shows s ks p \<longleftrightarrow> distinct ks \<and> (\<forall>i. i \<in> set ks \<longleftrightarrow> i < length (calls s) \<and> past_terminal (place (calls s ! i))) \<and>
     terminal s = concat (map (\<lambda>i. line_of (calls s ! i)) ks) @ p \<and>
     (case terminal_mutex s of None \<Rightarrow> p = [] | Some i \<Rightarrow> p @ concat (pieces_left (calls s ! i)) = line_of (calls s ! i))"

text \<open>What a call has written to the file.\<close>

fun file_ok :: "log_place \<Rightarrow> string option \<Rightarrow> string \<Rightarrow> log_call \<Rightarrow> bool" where
  "file_ok File_writes home bytes c \<longleftrightarrow> home \<noteq> None \<and> (\<exists>r. bytes @ stream_buffer c @ r = line_of c \<and>
     (stream_good c \<longrightarrow> r = concat (pieces_left c)))"
| "file_ok Log_done home bytes c \<longleftrightarrow> home \<noteq> None \<and> prefix bytes (line_of c) \<and> (stream_good c \<longrightarrow> bytes = line_of c)"
| "file_ok Log_thrown home bytes c \<longleftrightarrow> home = None \<and> bytes = [] \<and> stream_buffer c = []"
| "file_ok File_locked home bytes c \<longleftrightarrow> home \<noteq> None \<and> bytes = [] \<and> stream_buffer c = []"
| "file_ok File_unlocked home bytes c \<longleftrightarrow> home \<noteq> None \<and> bytes = [] \<and> stream_buffer c = []"
| "file_ok p home bytes c \<longleftrightarrow> bytes = [] \<and> stream_buffer c = []"

definition call_ok :: "string option \<Rightarrow> logger \<Rightarrow> nat \<Rightarrow> bool" where
  "call_ok home s i \<longleftrightarrow> file_ok (place (calls s ! i)) home (bytes_of i (logs_txt s)) (calls s ! i) \<and>
     (place (calls s ! i) = Terminal_locked \<longleftrightarrow> terminal_mutex s = Some i) \<and>
     (place (calls s ! i) = File_locked \<longleftrightarrow> file_mutex s = Some i)"

definition logger_ok :: "string option \<Rightarrow> (string \<times> string) list \<Rightarrow> logger \<Rightarrow> bool" where
  "logger_ok home ms s \<longleftrightarrow> map (\<lambda>c. (call_stamp c, call_message c)) (calls s) = ms \<and>
     (\<forall>i < length (calls s). call_ok home s i) \<and> (\<exists>ks p. terminal_shows s ks p)"

lemma update_call_simps [simp]:
  "length (calls (update_call i f s)) = length (calls s)" "terminal (update_call i f s) = terminal s"
  "logs_txt (update_call i f s) = logs_txt s" "terminal_mutex (update_call i f s) = terminal_mutex s"
  "file_mutex (update_call i f s) = file_mutex s"
  by (simp_all add: update_call_def)

lemma calls_update: "i < length (calls s) \<Longrightarrow> calls (update_call i f s) ! j = (if j = i then f (calls s ! i) else calls s ! j)"
  by (simp add: update_call_def)

lemma bytes_of_append [simp]:
  "bytes_of i (xs @ ys) = bytes_of i xs @ bytes_of i ys"
  "bytes_of i (map (Pair j) str) = (if i = j then str else [])" "bytes_of i [] = []"
  by (simp_all add: bytes_of_def filter_map comp_def)

text \<open>An update of one call leaves the strings of all calls alone.\<close>

definition keeps_strings :: "(log_call \<Rightarrow> log_call) \<Rightarrow> bool" where
  "keeps_strings f \<longleftrightarrow> (\<forall>c. call_stamp (f c) = call_stamp c \<and> call_message (f c) = call_message c)"

lemma keeps_strings [simp]:
  "keeps_strings (begin_line p)" "keeps_strings (go_on p)" "keeps_strings insert_piece"
  "keeps_strings (\<lambda>c. c\<lparr>pieces_left := xs\<rparr>)" "keeps_strings (\<lambda>c. (begin_line p c)\<lparr>stream_good := b\<rparr>)"
  "keeps_strings (\<lambda>c. c\<lparr>stream_good := b\<rparr>)" "keeps_strings (\<lambda>c. c\<lparr>stream_buffer := g (stream_buffer c)\<rparr>)"
  by (simp_all add: keeps_strings_def begin_line_def go_on_def insert_piece_def)

lemma strings_kept:
  assumes "keeps_strings f" "i < length (calls s)"
  shows "map (\<lambda>c. (call_stamp c, call_message c)) (calls (update_call i f s)) = map (\<lambda>c. (call_stamp c, call_message c)) (calls s)"
    "line_of (calls (update_call i f s) ! j) = line_of (calls s ! j)"
  using assms
  by (auto simp: keeps_strings_def calls_update line_of_def intro!: nth_equalityI)

lemma line_of_simps [simp]: "keeps_strings f \<Longrightarrow> line_of (f c) = line_of c"
  by (simp add: keeps_strings_def line_of_def)

lemma place_simps [simp]:
  "place (begin_line p c) = p" "place (go_on p c) = p" "place (insert_piece c) = place c"
  "stream_buffer (begin_line p c) = stream_buffer c" "stream_buffer (go_on p c) = stream_buffer c"
  "stream_good (go_on p c) = stream_good c" "stream_good (insert_piece c) = stream_good c"
  "pieces_left (go_on p c) = pieces_left c" "pieces_left (insert_piece c) = tl (pieces_left c)"
  "concat (pieces_left (begin_line p c)) = line_of c"
  by (simp_all add: begin_line_def go_on_def insert_piece_def line_of_def log_line_def)

lemma call_fields:
  assumes "i < length (calls s)"
  shows "place (calls (update_call i f s) ! j) = (if j = i then place (f (calls s ! i)) else place (calls s ! j))"
    "pieces_left (calls (update_call i f s) ! j) = (if j = i then pieces_left (f (calls s ! i)) else pieces_left (calls s ! j))"
  using assms by (simp_all add: calls_update)

text \<open>The steps at the terminal, and those behind it.\<close>

lemma terminal_locked:
  assumes "terminal_shows s ks p" "i < length (calls s)" "place (calls s ! i) = Log_called" "terminal_mutex s = None"
  shows "terminal_shows (update_call i (begin_line Terminal_locked) (s\<lparr>terminal_mutex := Some i\<rparr>)) ks []"
  using assms
  by (auto simp: terminal_shows_def call_fields strings_kept past_terminal_def split: if_splits)

lemma terminal_inserted:
  assumes "terminal_shows s ks p" "i < length (calls s)" "terminal_mutex s = Some i" "pieces_left (calls s ! i) = x # xs"
  shows "terminal_shows (update_call i (\<lambda>c. c\<lparr>pieces_left := xs\<rparr>) (s\<lparr>terminal := terminal s @ x\<rparr>)) ks (p @ x)"
  using assms by (auto simp: terminal_shows_def call_fields strings_kept split: if_splits)

lemma terminal_unlocked:
  assumes "terminal_shows s ks p" "i < length (calls s)" "terminal_mutex s = Some i" "place (calls s ! i) = Terminal_locked"
    and "pieces_left (calls s ! i) = []"
  shows "terminal_shows (update_call i (go_on Terminal_unlocked) (s\<lparr>terminal_mutex := None\<rparr>)) (ks @ [i]) []"
  using assms
  by (auto simp: terminal_shows_def call_fields strings_kept past_terminal_def split: if_splits)

lemma terminal_left_alone:
  assumes "terminal_shows s ks p" "i < length (calls s)" "keeps_strings f"
    and "past_terminal (place (calls s ! i))" "past_terminal (place (f (calls s ! i)))" "terminal_mutex s \<noteq> Some i"
  shows "terminal_shows (update_call i f (s\<lparr>file_mutex := m, logs_txt := l\<rparr>)) ks p"
  using assms
  by (auto simp: terminal_shows_def call_fields strings_kept split: option.splits if_splits)

text \<open>A step of one call is no step of the others.\<close>

lemma logger_okI:
  assumes "logger_ok home ms s" "i < length (calls s)" "keeps_strings f" "calls t = calls s"
    and "call_ok home (update_call i f t) i" "\<exists>ks p. terminal_shows (update_call i f t) ks p"
    and "\<And>j. j \<noteq> i \<Longrightarrow> bytes_of j (logs_txt t) = bytes_of j (logs_txt s) \<and>
      (terminal_mutex t = Some j \<longleftrightarrow> terminal_mutex s = Some j) \<and> (file_mutex t = Some j \<longleftrightarrow> file_mutex s = Some j)"
  shows "logger_ok home ms (update_call i f t)"
proof -
  have "call_ok home (update_call i f t) j" if "j < length (calls s)" for j
  proof (cases "j = i")
    case False
    have "calls (update_call i f t) ! j = calls s ! j" using assms(2,4) False by (simp add: calls_update)
    moreover have "call_ok home s j" using assms(1) that by (simp add: logger_ok_def)
    ultimately show ?thesis using assms(7) [OF False] by (simp add: call_ok_def)
  qed (simp add: assms(5))
  moreover have "map (\<lambda>c. (call_stamp c, call_message c)) (calls (update_call i f t)) = ms"
    using assms(1-4) strings_kept(1) [of f i t] by (simp add: logger_ok_def)
  ultimately show ?thesis using assms(4,6) by (simp add: logger_ok_def)
qed

lemma atD: "at s i p \<Longrightarrow> i < length (calls s) \<and> place (calls s ! i) = p"
  by (simp add: at_def)

lemma logger_ok_call:
  assumes "logger_ok home ms s" "at s i p"
  shows "file_ok p home (bytes_of i (logs_txt s)) (calls s ! i)" "p = Terminal_locked \<longleftrightarrow> terminal_mutex s = Some i"
    "p = File_locked \<longleftrightarrow> file_mutex s = Some i" "\<exists>ks q. terminal_shows s ks q"
  using assms by (auto simp: logger_ok_def call_ok_def at_def)

text \<open>A step behind the terminal.\<close>

lemma logger_ok_behind:
  assumes "logger_ok home ms s" "at s i p" "keeps_strings f" "past_terminal p" "past_terminal (place (f (calls s ! i)))"
    and "file_ok (place (f (calls s ! i))) home (bytes_of i l) (f (calls s ! i))"
    and "place (f (calls s ! i)) = File_locked \<longleftrightarrow> m = Some i"
    and "\<And>j. j \<noteq> i \<Longrightarrow> bytes_of j l = bytes_of j (logs_txt s) \<and> (m = Some j \<longleftrightarrow> file_mutex s = Some j)"
  shows "logger_ok home ms (update_call i f (s\<lparr>file_mutex := m, logs_txt := l\<rparr>))"
proof -
  note c = atD [OF assms(2)] and ok = logger_ok_call [OF assms(1,2)]
  have t: "terminal_mutex s \<noteq> Some i" using ok(2) assms(4) by (auto simp: past_terminal_def)
  have "call_ok home (update_call i f (s\<lparr>file_mutex := m, logs_txt := l\<rparr>)) i"
    using assms(5-7) c t by (auto simp: call_ok_def calls_update past_terminal_def)
  moreover have "\<exists>ks p. terminal_shows (update_call i f (s\<lparr>file_mutex := m, logs_txt := l\<rparr>)) ks p"
    using ok(4) terminal_left_alone [OF _ _ assms(3) _ assms(5) t] c assms(4) by blast
  ultimately show ?thesis using assms(8) c by (intro logger_okI [OF assms(1) _ assms(3)]) simp_all
qed

lemma file_ok_insert:
  "file_ok File_writes home bytes c \<Longrightarrow> pieces_left c \<noteq> [] \<Longrightarrow> file_ok File_writes home bytes (insert_piece c)"
  by (cases "stream_good c"; cases "pieces_left c") (auto simp: insert_piece_def line_of_def)

lemma file_ok_done:
  "file_ok File_writes home bytes c \<Longrightarrow> pieces_left c = [] \<Longrightarrow> (stream_good c \<longrightarrow> stream_buffer c = []) \<Longrightarrow>
    file_ok Log_done home bytes (go_on Log_done c)"
  by (cases "stream_good c") (auto simp: prefix_def, metis)

lemma file_ok_prefix: "file_ok p home bytes c \<Longrightarrow> prefix bytes (line_of c)"
  by (cases p) (auto intro: prefixI [OF sym])

lemma logger_ok_step: "log_step home s s' \<Longrightarrow> logger_ok home ms s \<Longrightarrow> logger_ok home ms s'"
proof (induction rule: log_step.induct)
  case (terminal_lock s i)
  note c = atD [OF terminal_lock(1)] and ok = logger_ok_call [OF terminal_lock(3,1)]
  show ?case
    by (rule logger_okI [OF terminal_lock(3)])
      (use c ok terminal_lock(2) terminal_locked [of s _ _ i] in \<open>auto simp: call_ok_def calls_update\<close>)
next
  case (terminal_insert s i x xs)
  note c = atD [OF terminal_insert(1)] and ok = logger_ok_call [OF terminal_insert(3,1)]
  show ?case
    by (rule logger_okI [OF terminal_insert(3)])
      (use c ok terminal_inserted [OF _ _ _ terminal_insert(2)] in \<open>auto simp: call_ok_def calls_update\<close>)
next
  case (terminal_unlock s i)
  note c = atD [OF terminal_unlock(1)] and ok = logger_ok_call [OF terminal_unlock(3,1)]
  show ?case
    by (rule logger_okI [OF terminal_unlock(3)])
      (use c ok terminal_unlocked [OF _ _ _ _ terminal_unlock(2)] in \<open>auto simp: call_ok_def calls_update\<close>)
next
  case (home_missing s i)
  from logger_ok_behind [OF home_missing(3,1), of "go_on Log_thrown" "logs_txt s" "file_mutex s"]
    logger_ok_call [OF home_missing(3,1)] home_missing(2)
  show ?case by (simp add: past_terminal_def go_on_def)
next
  case (file_lock s i d)
  from logger_ok_behind [OF file_lock(4,1), of "go_on File_locked" "logs_txt s" "Some i"]
    logger_ok_call [OF file_lock(4,1)] file_lock(2,3)
  show ?case by (simp add: past_terminal_def go_on_def)
next
  case (file_unlock s i)
  from logger_ok_behind [OF file_unlock(2,1), of "go_on File_unlocked" "logs_txt s" None]
    logger_ok_call [OF file_unlock(2,1)]
  show ?case by (simp add: past_terminal_def go_on_def)
next
  case (file_open s i opens)
  from logger_ok_behind [OF file_open(2,1), of "\<lambda>c. (begin_line File_writes c)\<lparr>stream_good := opens\<rparr>" "logs_txt s" "file_mutex s"]
    logger_ok_call [OF file_open(2,1)]
  show ?case by (simp add: past_terminal_def line_of_def begin_line_def log_line_def keeps_strings_def)
next
  case (file_insert s i)
  from logger_ok_behind [OF file_insert(3,1), of insert_piece "logs_txt s" "file_mutex s"]
    logger_ok_call [OF file_insert(3,1)] file_ok_insert [OF _ file_insert(2)] atD [OF file_insert(1)]
  show ?case by (simp add: past_terminal_def del: file_ok.simps)
next
  case (file_spill s i k)
  let ?l = "logs_txt s @ map (Pair i) (take k (stream_buffer (calls s ! i)))"
  have "take k xs @ drop k xs @ r = xs @ r" for xs r :: string by (simp flip: append_assoc)
  with logger_ok_behind [OF file_spill(2,1), of "\<lambda>c. c\<lparr>stream_buffer := drop k (stream_buffer c)\<rparr>" ?l "file_mutex s"]
    logger_ok_call [OF file_spill(2,1)] atD [OF file_spill(1)]
  show ?case by (simp add: past_terminal_def line_of_def)
next
  case (file_fails s i)
  from logger_ok_behind [OF file_fails(2,1), of "\<lambda>c. c\<lparr>stream_good := False\<rparr>" "logs_txt s" "file_mutex s"]
    logger_ok_call [OF file_fails(2,1)] atD [OF file_fails(1)]
  show ?case by (auto simp: past_terminal_def line_of_def)
next
  case (file_close s i)
  from logger_ok_behind [OF file_close(4,1), of "go_on Log_done" "logs_txt s" "file_mutex s"]
    logger_ok_call [OF file_close(4,1)] file_ok_done [OF _ file_close(2,3)] atD [OF file_close(1)]
  show ?case by (simp add: past_terminal_def del: file_ok.simps)
qed

lemma new_logger_ok: "logger_ok home ms (new_logger ms)"
proof -
  have c: "calls (new_logger ms) ! i = \<lparr>place = Log_called, call_stamp = fst (ms ! i), call_message = snd (ms ! i),
      pieces_left = [], stream_good = False, stream_buffer = []\<rparr>" if "i < length ms" for i
    using that by (simp add: new_logger_def split_beta)
  have rest: "length (calls (new_logger ms)) = length ms" "terminal (new_logger ms) = []" "logs_txt (new_logger ms) = []"
    "terminal_mutex (new_logger ms) = None" "file_mutex (new_logger ms) = None"
    by (simp_all add: new_logger_def)
  have "map (\<lambda>c. (call_stamp c, call_message c)) (calls (new_logger ms)) = ms"
    by (rule nth_equalityI) (simp_all add: rest c)
  moreover have "terminal_shows (new_logger ms) [] []"
    by (auto simp: terminal_shows_def past_terminal_def rest c)
  ultimately show ?thesis by (auto simp: logger_ok_def call_ok_def rest c)
qed

lemma log_reachable_ok: "log_reachable home ms s \<Longrightarrow> logger_ok home ms s"
  by (induction rule: log_reachable.induct) (auto intro: new_logger_ok logger_ok_step)

section \<open>Runs of the calls\<close>

text \<open>A call that owns the terminal writes all that it has left.\<close>

lemma call_shows:
  assumes "log_reachable home ms s" "at s i Terminal_locked"
  shows "\<exists>t. log_reachable home ms (update_call i (\<lambda>c. c\<lparr>pieces_left := []\<rparr>) (s\<lparr>terminal := t\<rparr>))"
  using assms
proof (induction "pieces_left (calls s ! i)" arbitrary: s)
  case Nil
  then have "update_call i (\<lambda>c. c\<lparr>pieces_left := []\<rparr>) (s\<lparr>terminal := terminal s\<rparr>) = s"
    by (simp add: update_call_def list_update_same_conv at_def)
  then show ?case using Nil.prems(1) by metis
next
  case (Cons x xs)
  let ?s = "update_call i (\<lambda>c. c\<lparr>pieces_left := xs\<rparr>) (s\<lparr>terminal := terminal s @ x\<rparr>)"
  have "log_reachable home ms ?s"
    by (rule log_reachable.step [OF Cons.prems(1) terminal_insert [OF Cons.prems(2) Cons.hyps(2) [symmetric]]])
  then obtain t where "log_reachable home ms (update_call i (\<lambda>c. c\<lparr>pieces_left := []\<rparr>) (?s\<lparr>terminal := t\<rparr>))"
    using Cons.hyps(1) [of ?s] Cons.prems(2) by (auto simp: at_def calls_update)
  moreover have "update_call i (\<lambda>c. c\<lparr>pieces_left := []\<rparr>) (?s\<lparr>terminal := t\<rparr>) =
      update_call i (\<lambda>c. c\<lparr>pieces_left := []\<rparr>) (s\<lparr>terminal := t\<rparr>)"
    using atD [OF Cons.prems(2)] by (simp add: update_call_def)
  ultimately show ?case by metis
qed

text \<open>A call that has opened the file, with the pieces that it has left.\<close>

definition writes :: "logger \<Rightarrow> nat \<Rightarrow> string list \<Rightarrow> bool" where
  "writes s i xs \<longleftrightarrow> at s i File_writes \<and> stream_good (calls s ! i) \<and> stream_buffer (calls s ! i) = [] \<and>
     pieces_left (calls s ! i) = xs"

definition only_call :: "nat \<Rightarrow> logger \<Rightarrow> logger \<Rightarrow> bool" where
  "only_call i s s' \<longleftrightarrow> length (calls s') = length (calls s) \<and> (\<forall>j. j \<noteq> i \<longrightarrow> calls s' ! j = calls s ! j) \<and>
     terminal_mutex s' = None \<and> file_mutex s' = None"

lemma call_opens:
  assumes "log_reachable (Some d) ms s" "at s i Log_called" "terminal_mutex s = None" "file_mutex s = None"
  shows "\<exists>s'. log_reachable (Some d) ms s' \<and> writes s' i (log_pieces (call_stamp (calls s ! i)) (call_message (calls s ! i))) \<and>
    only_call i s s' \<and> logs_txt s' = logs_txt s"
proof -
  let ?c = "calls s ! i"
  note c = atD [OF assms(2)]
  have empty: "stream_buffer ?c = []" using logger_ok_call(1) [OF log_reachable_ok [OF assms(1)] assms(2)] by simp
  let ?s1 = "update_call i (begin_line Terminal_locked) (s\<lparr>terminal_mutex := Some i\<rparr>)"
  obtain t where 2: "log_reachable (Some d) ms (update_call i (\<lambda>c. c\<lparr>pieces_left := []\<rparr>) (?s1\<lparr>terminal := t\<rparr>))"
    using call_shows [OF log_reachable.step [OF assms(1) terminal_lock [OF assms(2,3)]], where i = i] c
    by (auto simp: at_def calls_update)
  let ?s2 = "update_call i (\<lambda>c. c\<lparr>pieces_left := []\<rparr>) (?s1\<lparr>terminal := t\<rparr>)"
  let ?s3 = "update_call i (go_on Terminal_unlocked) (?s2\<lparr>terminal_mutex := None\<rparr>)"
  let ?s4 = "update_call i (go_on File_locked) (?s3\<lparr>file_mutex := Some i\<rparr>)"
  let ?s5 = "update_call i (go_on File_unlocked) (?s4\<lparr>file_mutex := None\<rparr>)"
  let ?s6 = "update_call i (\<lambda>c. (begin_line File_writes c)\<lparr>stream_good := True\<rparr>) ?s5"
  have "log_reachable (Some d) ms ?s3"
    using c by (intro log_reachable.step [OF 2 terminal_unlock]) (simp_all add: at_def calls_update)
  then have "log_reachable (Some d) ms ?s4"
    using c assms(4) by (elim log_reachable.step) (intro file_lock [OF _ refl], simp_all add: at_def calls_update)
  then have "log_reachable (Some d) ms ?s5"
    using c by (elim log_reachable.step) (intro file_unlock, simp add: at_def calls_update)
  then have "log_reachable (Some d) ms ?s6"
    using c by (elim log_reachable.step) (intro file_open, simp add: at_def calls_update)
  moreover have "writes ?s6 i (log_pieces (call_stamp ?c) (call_message ?c)) \<and> only_call i s ?s6 \<and> logs_txt ?s6 = logs_txt s"
    using c empty by (simp add: writes_def only_call_def at_def calls_update begin_line_def go_on_def)
  ultimately show ?thesis by blast
qed

lemma call_writes:
  assumes "log_reachable home ms s" "writes s i (x # xs)" "terminal_mutex s = None" "file_mutex s = None"
  shows "\<exists>s'. log_reachable home ms s' \<and> writes s' i xs \<and> only_call i s s' \<and> logs_txt s' = logs_txt s @ map (Pair i) x"
proof -
  have w: "at s i File_writes" "stream_good (calls s ! i)" "stream_buffer (calls s ! i) = []" "pieces_left (calls s ! i) = x # xs"
    using assms(2) by (simp_all add: writes_def)
  note c = atD [OF w(1)]
  let ?s1 = "update_call i insert_piece s"
  let ?s2 = "update_call i (\<lambda>c. c\<lparr>stream_buffer := drop (length x) (stream_buffer c)\<rparr>)
    (?s1\<lparr>logs_txt := logs_txt ?s1 @ map (Pair i) (take (length x) (stream_buffer (calls ?s1 ! i)))\<rparr>)"
  have "log_reachable home ms ?s1"
    using w by (intro log_reachable.step [OF assms(1) file_insert]) simp_all
  then have "log_reachable home ms ?s2"
    using c by (elim log_reachable.step) (intro file_spill, simp add: at_def calls_update)
  moreover have "writes ?s2 i xs \<and> only_call i s ?s2 \<and> logs_txt ?s2 = logs_txt s @ map (Pair i) x"
    using c w assms(3,4) by (simp add: writes_def only_call_def at_def calls_update insert_piece_def)
  ultimately show ?thesis by blast
qed

lemma call_finishes:
  assumes "log_reachable home ms s" "writes s i xs" "terminal_mutex s = None" "file_mutex s = None"
  shows "\<exists>s'. log_reachable home ms s' \<and> at s' i Log_done \<and> stream_good (calls s' ! i) \<and> only_call i s s'"
  using assms
proof (induction xs arbitrary: s)
  case Nil
  have w: "at s i File_writes" "pieces_left (calls s ! i) = []" "stream_buffer (calls s ! i) = []" "stream_good (calls s ! i)"
    using Nil.prems(2) by (simp_all add: writes_def)
  from log_reachable.step [OF Nil.prems(1) file_close [OF w(1,2)]] w(3,4) atD [OF w(1)] Nil.prems(3,4)
  show ?case by (intro exI [of _ "update_call i (go_on Log_done) s"]) (simp add: at_def calls_update only_call_def)
next
  case (Cons x xs)
  obtain s1 where "log_reachable home ms s1" "writes s1 i xs" "only_call i s s1"
    using call_writes [OF Cons.prems] by blast
  then show ?case using Cons.IH [of s1] by (auto simp: only_call_def)
qed

text \<open>The first character of a piece can reach the file alone.\<close>

lemma call_spills:
  assumes "log_reachable home ms s" "writes s i ((x # xs) # ys)" "terminal_mutex s = None" "file_mutex s = None"
  shows "\<exists>s'. log_reachable home ms s' \<and> only_call i s s' \<and> logs_txt s' = logs_txt s @ [(i, x)]"
proof -
  have w: "at s i File_writes" "stream_good (calls s ! i)" "stream_buffer (calls s ! i) = []" "pieces_left (calls s ! i) = (x # xs) # ys"
    using assms(2) by (simp_all add: writes_def)
  let ?s1 = "update_call i insert_piece s"
  have "log_reachable home ms ?s1"
    using w by (intro log_reachable.step [OF assms(1) file_insert]) simp_all
  from log_reachable.step [OF this file_spill [where i = i and k = 1]] atD [OF w(1)] w assms(3,4)
  show ?thesis
    by (intro exI [of _ "update_call i (\<lambda>c. c\<lparr>stream_buffer := drop 1 (stream_buffer c)\<rparr>)
      (?s1\<lparr>logs_txt := logs_txt ?s1 @ map (Pair i) (take 1 (stream_buffer (calls ?s1 ! i)))\<rparr>)"])
      (simp add: only_call_def at_def calls_update insert_piece_def)
qed

text \<open>The lock of the file is given back before the file is written: the lines of two calls can be mixed.\<close>

lemma file_lines_mix:
  assumes t: "t = c # r" "t' = c' # r'"
  shows "\<exists>s. log_reachable (Some d) [(t, m), (t', m')] s \<and> logs_txt s = [(0, CHR ''[''), (1, CHR ''[''), (0, c), (1, c')]"
proof -
  let ?ms = "[(t, m), (t', m')]" let ?s = "new_logger ?ms"
  have s: "at ?s 0 Log_called" "at ?s 1 Log_called" "terminal_mutex ?s = None" "file_mutex ?s = None" "logs_txt ?s = []"
    "call_stamp (calls ?s ! 0) = t" "call_stamp (calls ?s ! 1) = t'"
    by (simp_all add: new_logger_def at_def)
  obtain s1 where s1: "log_reachable (Some d) ?ms s1" "writes s1 0 (log_pieces t (call_message (calls ?s ! 0)))" "only_call 0 ?s s1" "logs_txt s1 = []"
    using call_opens [OF log_reachable.start s(1,3,4), of d] s(5,6) by auto
  have "at s1 1 Log_called" "call_stamp (calls s1 ! 1) = t'" using s1(3) s(2,7) by (simp_all add: only_call_def at_def)
  then obtain s2 where s2: "log_reachable (Some d) ?ms s2" "writes s2 1 (log_pieces t' (call_message (calls s1 ! 1)))" "only_call 1 s1 s2" "logs_txt s2 = []"
    using call_opens [OF s1(1), of 1] s1(3,4) by (auto simp: only_call_def)
  have keep: "writes s' j xs" if "only_call i s s'" "j \<noteq> i" "writes s j xs" for i j s s' xs
    using that by (auto simp: only_call_def writes_def at_def)
  obtain p q where w: "writes s2 0 (''['' # t # p)" "writes s2 1 (''['' # t' # q)"
    using keep [OF s2(3) _ s1(2)] s2(2) by (auto simp: log_pieces_def)
  have n2: "terminal_mutex s2 = None" "file_mutex s2 = None" using s2(3) by (simp_all add: only_call_def)
  obtain s3 where s3: "log_reachable (Some d) ?ms s3" "writes s3 0 (t # p)" "only_call 0 s2 s3" "logs_txt s3 = [(0, CHR ''['')]"
    using call_writes [OF s2(1) w(1) n2] s2(4) by auto
  obtain s4 where s4: "log_reachable (Some d) ?ms s4" "writes s4 1 (t' # q)" "only_call 1 s3 s4"
      "logs_txt s4 = [(0, CHR ''[''), (1, CHR ''['')]"
    using call_writes [OF s3(1) keep [OF s3(3) _ w(2)]] s3(3,4) by (auto simp: only_call_def)
  have n: "terminal_mutex s' = None" "file_mutex s' = None" if "only_call i s s'" for i s s'
    using that by (simp_all add: only_call_def)
  have "writes s4 0 ((c # r) # p)" using keep [OF s4(3) _ s3(2)] t(1) by simp
  then obtain s5 where s5: "log_reachable (Some d) ?ms s5" "only_call 0 s4 s5" "logs_txt s5 = [(0, CHR ''[''), (1, CHR ''[''), (0, c)]"
    using call_spills [OF s4(1) _ n [OF s4(3)]] s4(4) by fastforce
  have "writes s5 1 ((c' # r') # q)" using keep [OF s5(2) _ s4(2)] t(2) by simp
  then show ?thesis using call_spills [OF s5(1) _ n [OF s5(2)]] s5(3) by fastforce
qed

section \<open>Properties\<close>

text \<open>
  C35: However the calls of \<open>log\<close> in different threads interleave: one call at a time writes to the
  terminal, and the terminal shows the whole line of each call that has got past it, finished or not, exactly
  once and unmixed, and then at most the begin of the line of the owner of the lock.  In the file, the bytes
  that a call has written are in their order the begin of its line, and the whole line, once,
  when the call has finished and its stream has met no error; a file that does not open or a
  write that fails loses the rest of the line without a word, and without \<open>HOME\<close> the call
  throws before it comes to the file.
\<close>

theorem every_message_logged_once:
  assumes "log_reachable home ms s"
  shows "map (\<lambda>c. (call_stamp c, call_message c)) (calls s) = ms \<and>
    (at s i Terminal_locked \<longrightarrow> terminal_mutex s = Some i) \<and>
    (\<exists>ks p. distinct ks \<and> (\<forall>i. i \<in> set ks \<longleftrightarrow> i < length (calls s) \<and> place (calls s ! i) \<notin> {Log_called, Terminal_locked}) \<and>
      terminal s = concat (map (\<lambda>i. line_of (calls s ! i)) ks) @ p \<and>
      (case terminal_mutex s of None \<Rightarrow> p = [] | Some i \<Rightarrow> prefix p (line_of (calls s ! i)))) \<and>
    (\<forall>i < length (calls s). prefix (bytes_of i (logs_txt s)) (line_of (calls s ! i)) \<and>
      (place (calls s ! i) = Log_done \<and> stream_good (calls s ! i) \<longrightarrow> bytes_of i (logs_txt s) = line_of (calls s ! i)) \<and>
      (place (calls s ! i) = Log_done \<longrightarrow> home \<noteq> None) \<and>
      (place (calls s ! i) = Log_thrown \<longrightarrow> home = None \<and> bytes_of i (logs_txt s) = []))"
proof -
  have ok: "logger_ok home ms s" using assms by (rule log_reachable_ok)
  obtain ks p where screen: "terminal_shows s ks p" using ok by (auto simp: logger_ok_def)
  have calls: "prefix (bytes_of i (logs_txt s)) (line_of (calls s ! i)) \<and>
      (place (calls s ! i) = Log_done \<and> stream_good (calls s ! i) \<longrightarrow> bytes_of i (logs_txt s) = line_of (calls s ! i)) \<and>
      (place (calls s ! i) = Log_done \<longrightarrow> home \<noteq> None) \<and>
      (place (calls s ! i) = Log_thrown \<longrightarrow> home = None \<and> bytes_of i (logs_txt s) = [])" if "i < length (calls s)" for i
  proof -
    have c: "file_ok (place (calls s ! i)) home (bytes_of i (logs_txt s)) (calls s ! i)"
      using ok that by (auto simp: logger_ok_def call_ok_def)
    from file_ok_prefix [OF c] c show ?thesis by (cases "place (calls s ! i)") auto
  qed
  have owner: "at s i Terminal_locked \<longrightarrow> terminal_mutex s = Some i"
    using logger_ok_call(2) [OF ok] by blast
  have "case terminal_mutex s of None \<Rightarrow> p = [] | Some i \<Rightarrow> prefix p (line_of (calls s ! i))"
    using screen by (cases "terminal_mutex s") (auto simp: terminal_shows_def intro: prefixI [OF sym])
  then have terminal: "\<exists>ks p. distinct ks \<and> (\<forall>i. i \<in> set ks \<longleftrightarrow> i < length (calls s) \<and> place (calls s ! i) \<notin> {Log_called, Terminal_locked}) \<and>
      terminal s = concat (map (\<lambda>i. line_of (calls s ! i)) ks) @ p \<and>
      (case terminal_mutex s of None \<Rightarrow> p = [] | Some i \<Rightarrow> prefix p (line_of (calls s ! i)))"
    using screen by (intro exI [of _ ks] exI [of _ p]) (simp add: terminal_shows_def past_terminal_def)
  have "map (\<lambda>c. (call_stamp c, call_message c)) (calls s) = ms" using ok by (simp add: logger_ok_def)
  moreover have "\<forall>i < length (calls s). prefix (bytes_of i (logs_txt s)) (line_of (calls s ! i)) \<and>
      (place (calls s ! i) = Log_done \<and> stream_good (calls s ! i) \<longrightarrow> bytes_of i (logs_txt s) = line_of (calls s ! i)) \<and>
      (place (calls s ! i) = Log_done \<longrightarrow> home \<noteq> None) \<and>
      (place (calls s ! i) = Log_thrown \<longrightarrow> home = None \<and> bytes_of i (logs_txt s) = [])"
    using calls by blast
  ultimately show ?thesis using owner terminal by (intro conjI)
qed

theorem every_message_logged_once_witness:
  "\<exists>s. log_reachable (Some ''/root'') [(''noon'', ''hello'')] s \<and> at s 0 Log_done \<and>
    terminal s = ''[noon] : hello'' @ [CHR 10] \<and> bytes_of 0 (logs_txt s) = ''[noon] : hello'' @ [CHR 10]"
proof -
  let ?ms = "[(''noon'', ''hello'')]"
  have s: "at (new_logger ?ms) 0 Log_called" "terminal_mutex (new_logger ?ms) = None" "file_mutex (new_logger ?ms) = None"
    by (simp_all add: new_logger_def at_def)
  obtain s1 xs where s1: "log_reachable (Some ''/root'') ?ms s1" "writes s1 0 xs" "only_call 0 (new_logger ?ms) s1"
    using call_opens [OF log_reachable.start s, of "''/root''"] by blast
  obtain s2 where s2: "log_reachable (Some ''/root'') ?ms s2" "at s2 0 Log_done" "stream_good (calls s2 ! 0)" "only_call 0 s1 s2"
    using call_finishes [OF s1(1,2)] s1(3) by (auto simp: only_call_def)
  note logged = every_message_logged_once [OF s2(1), of 0]
  have strings: "map (\<lambda>c. (call_stamp c, call_message c)) (calls s2) = ?ms" using logged by blast
  then have c: "length (calls s2) = 1" "line_of (calls s2 ! 0) = ''[noon] : hello'' @ [CHR 10]"
    by (auto simp: line_of_def log_line_def log_pieces_def)
  have free: "terminal_mutex s2 = None" using s2(4) by (simp add: only_call_def)
  obtain ks p where screen: "distinct ks \<and> (\<forall>i. i \<in> set ks \<longleftrightarrow> i < length (calls s2) \<and> place (calls s2 ! i) \<notin> {Log_called, Terminal_locked}) \<and>
      terminal s2 = concat (map (\<lambda>i. line_of (calls s2 ! i)) ks) @ p \<and>
      (case terminal_mutex s2 of None \<Rightarrow> p = [] | Some i \<Rightarrow> prefix p (line_of (calls s2 ! i)))"
    using conjunct1 [OF conjunct2 [OF conjunct2 [OF logged]]] by (elim exE) (rule that)
  then have ks: "distinct ks" "\<And>i. i \<in> set ks \<longleftrightarrow> i < length (calls s2) \<and> place (calls s2 ! i) \<notin> {Log_called, Terminal_locked}"
      "terminal s2 = concat (map (\<lambda>i. line_of (calls s2 ! i)) ks)"
    by (simp_all add: free)
  have "i \<in> set ks \<longleftrightarrow> i = 0" for i using ks(2) [of i] c(1) atD [OF s2(2)] by (cases "i = 0") simp_all
  then have "set ks = {0}" by blast
  then have "ks = [0]" using ks(1) by (cases ks; cases "tl ks") auto
  moreover have "bytes_of 0 (logs_txt s2) = line_of (calls s2 ! 0)" using logged s2(3) atD [OF s2(2)] by blast
  ultimately show ?thesis using s2(1,2) ks(3) c(2) by (intro exI [of _ s2]) simp
qed

end
