(* ===== verification/Spec2Isabelle.thy ===== *)
theory Spec2Isabelle
  imports MainProcess Resources Logger StatusCode
begin

text \<open>
  A model of the RoSA sensor network (\<open>src/\<close>), with its main properties.

  The program.  A central station (\<open>central\<close>) keeps a table of sensors, asks them for their
  values and thresholds over UDP, takes their alarms, and shows the table to a browser over
  HTTP and to the \<open>config\<close> program over two named pipes.  A sensor program (\<open>sensor\<close>) reads a
  value now and then, keeps the median of the last sixty as the typical value, raises an
  alarm when the value is above its threshold, answers questions and takes new thresholds.
  \<open>common\<close> holds the addresses, the UDP server and client, the exceptions and the logger.

  Theories, from the bottom up.
  \<bullet> Prelude: an operation is a function from a state to an outcome (value, exception of the
    code, undefined behaviour of C++) and a state; exceptions with their inheritance
    (\<open>common/exception\<close>); \<open>std::map\<close> as an ordered association list; the collection of frame
    rules \<open>keeps\<close> (an operation keeps an invariant on every outcome).
  \<bullet> Float32: \<open>float\<close>, \<open>std::stof\<close>, \<open>std::stoi\<close>, \<open>std::to_string\<close>, as the standard library
    and IEEE 754 define them.
  \<bullet> Store, SensorList, SessionList: the two tables of the station (\<open>SensorList.cpp\<close>,
    \<open>Sensor.cpp\<close>, \<open>SessionList.cpp\<close>), both instances of the contract \<open>keyed_store\<close>.
  \<bullet> Address, Udp: \<open>address.cpp\<close>, \<open>udp_server.cpp\<close>, \<open>udp_client.cpp\<close>, \<open>udp_socket.cpp\<close>.
  \<bullet> Resources: the lists of \<open>getaddrinfo\<close> and the descriptors, with the objects of \<open>address.cpp\<close> and
    \<open>udp_socket.cpp\<close> that free and close them.
  \<bullet> Communicator: \<open>Communicator.cpp\<close> and the receiver thread of the client
    (\<open>receiver_step\<close>), with the three callbacks.
  \<bullet> ScriptExecutor: \<open>ScriptExecutor.cpp\<close> and \<open>config/src/main.cpp\<close>.
  \<bullet> SensorNode: \<open>sensor/src/main.cpp\<close>, one operation for one pass of each of its threads.
  \<bullet> HttpText, HttpCodec, StatusCode: the text functions of \<open>utility.hpp\<close> with their round
    trips, and \<open>status_code.hpp\<close>.
  \<bullet> ScopeRunner: the lock of the handlers (\<open>utility.hpp\<close>), every atomic operation a step.
  \<bullet> HttpServer: the text of a response, the reading of a request as decisions, the choice
    of the handler (\<open>server_http.hpp\<close>).
  \<bullet> HttpConnection, HttpRequests: one connection as the machine of its completion handlers
    (\<open>ServerBase::read\<close>, \<open>read_chunked_transfer_encoded\<close>, \<open>write\<close>, \<open>Response::send\<close>,
    \<open>Connection\<close>), and what it makes of the bytes of a request in any pieces.
  \<bullet> HttpSequence: several requests on one kept connection, against a loop that calls the handlers in turn.
  \<bullet> HttpService: \<open>bind\<close>, \<open>accept\<close>, the set of connections, time limits, \<open>stop\<close>, the destructor.
  \<bullet> WebServer: the handlers of \<open>WebServer.cpp\<close> and the static files.
  \<bullet> CentralMain, CentralSteps, Restart: \<open>central/src/main.cpp\<close>: alarm server, polling
    thread, start from the saved file, and the interleaving of all threads (\<open>central_step\<close>).
  \<bullet> HttpStation: the HTTP server with the handlers of the station, and whole sessions of a browser.
  \<bullet> Logger: \<open>Logger.cpp\<close> with its two locks, for any number of threads: the insertions into the
    terminal and the file, with a file that does not open, writes that come in parts or fail, and no \<open>HOME\<close>.
  \<bullet> EndToEnd and this theory: exchanges between the programs.
  \<bullet> MainProcess: the whole process of \<open>main\<close>: the creation of the threads, the threads with the HTTP
    server, the scripts, the endings, the joins and the last save (\<open>process_step\<close>).

  State.  The records extend one another as the objects of the code hold pointers to one
  another: \<open>SensorList\<close> (table, log lines) \<open>\<subseteq>\<close> \<open>Communicator\<close> (client, ports) \<open>\<subseteq>\<close> \<open>Executor\<close>
  (pipes) \<open>\<subseteq>\<close> \<open>Web\<close> (sessions, response) \<open>\<subseteq>\<close> \<open>Central\<close> (the two UDP servers, the local
  variables of the threads, the saved file); an operation on one of them works on every extension.
  \<open>SensorNode\<close> is the state of a sensor; \<open>Service\<close> that of the HTTP server, with the station in
  its field \<open>app\<close>; \<open>Process\<close> adds where the main thread is and which threads run.  A function that holds a mutex for its whole access is one atomic
  operation; the threads of \<open>central_step\<close> interleave by a pass, a request, a command or
  a question, those of \<open>service_step\<close> by a completion handler, those
  of \<open>process_step\<close> by all of these and the statements of \<open>main\<close>, those of \<open>scope_step\<close> and
  \<open>log_step\<close> by a single use of a lock or a stream.

  Interfaces.  \<open>keyed_store\<close> (a set of names behind add and remove, for both tables),
  \<open>station_frame\<close>, \<open>executor_frame\<close> and \<open>web_frame\<close> (an invariant that the operations of the
  tables and the socket keep is kept by every operation of the layers above), and
  \<open>http_application\<close> (what request handlers keep, the HTTP server keeps) are locales, each
  interpreted on the model: for the tables, for the invariants of the communicator, the
  executor, the web server and the whole station, for the variables that a thread leaves to the
  others, and for the handlers of the station.

  Properties.  C1, C2, C7 and the one on \<open>exit\<close> follow a message from one program into the other
  and its answer back.  The sensor list is refined to a phase machine on the history of
  questions and answers, the chain of handlers of a connection to a loop over its requests; the
  stores are refined to sets.  The invariants hold in every reachable state of any interleaving:
  of the station, of the HTTP server, of the whole process with both, of the scope runner, of the
  logger, of the owners of address lists.  The functional ones say what each handler, command, thread
  pass or parser does on every branch.  The round trips are those of the config message, of
  the request line and head, of the query string, of a response, and of the saved file.
  Some state what the code does where it may not be what it means to do: a request without a
  session that still erases a sensor, bytes behind a request that are lost, a wrap-around of a chunk size,
  exceptions that end a thread, a stop that comes too early and is lost, a parser that does not return.

  Parameters and hypotheses.  \<open>net\<close>: \<open>htons\<close> and \<open>ntohs\<close>, \<open>getaddrinfo\<close>, \<open>getnameinfo\<close>, \<open>sendto\<close>;
  \<open>env\<close>: \<open>boost::split\<close> at blanks, with the hypothesis \<open>split_ok\<close>; \<open>web_env\<close>: the order in which an
  unordered map is visited (\<open>legal_order\<close>: a permutation), the JSON reader, the file
  system; \<open>central_env\<close>: \<open>setsockopt\<close>, and the value of \<open>HOME\<close>.  The clock, \<open>rand\<close>, the results of \<open>recvfrom\<close> and of the
  pipes, whether the saved file opens, and the memory behind a buffer that is read past its end are
  arguments of the operations.  \<open>boost::asio\<close> enters by \<open>completes\<close>: with which result, and after which bytes, it may
  call the handler of a pending operation.

  \<open>HOME\<close>.  Without it every call of \<open>Logger::log\<close> throws after its line on the terminal.  Theory Logger
  has this; \<open>write_to_file\<close>, \<open>init_from_file\<close> and \<open>start_up\<close> have their own use of \<open>HOME\<close> and, for
  \<open>start_up\<close>, the call that throws in the handler of that error.  The other operations log by
  \<open>log_msg\<close>, which appends a line and returns: they are those of a process with \<open>HOME\<close> set, which
  \<open>started_process\<close> demands.

  Bounds.  No operation has fuel.  Loops are structural or have a measure; the
  one that may not return, \<open>header_loop\<close>, is a \<open>partial_function\<close> with the result \<open>None\<close>, and
  it is proved when it returns and when it does not.  The buffers have their sizes (8192 for the
  pipes, 512, 17, 9 and 1 for the datagrams, 2^64 - 1 for a stream buffer), ports are 16
  bit words, sizes of chunks and the milliseconds of a timeout wrap around as in the code.

  Not modelled.  The sockets and the scheduler of \<open>asio\<close> beyond \<open>completes\<close>; more than one thread in
  \<open>io_service::run\<close> (the program uses one); \<open>on_error\<close> and \<open>on_upgrade\<close>, which the program
  never sets, so that their branches do nothing; end points, time stamps and plain getters; the output of
  builds without \<open>NDEBUG\<close>, but for the warning about many addresses in the constructor of \<open>AddressInfo\<close>,
  which only Resources has (elsewhere the builds are those with \<open>NDEBUG\<close>); a failing write to the opened file
  of the sensors, which \<open>write_to_file\<close> fills at once; what other functions than \<open>log\<close> write to the terminal; the
  failure of the creation of a thread; the destructors at the end of \<open>main\<close>, and the race of \<open>stop\<close> with a
  \<open>start\<close> that has begun: both are single steps; undefined behaviour, which has no step;
  the output of \<open>main\<close> for an exception.  Two atomic operations of the code that stand
  next to each other in one step of a thread are not interleaved with those of other threads.
\<close>

section \<open>Properties\<close>

text \<open>
  C1: Changing a threshold end to end: the question of the station for 1 to 99 is taken over
  by the sensor, and the answer of the sensor, which carries bytes from behind
  its text up to the length of the question, is understood by the station: both then hold the
  new threshold and the question is no longer pending.
\<close>

theorem threshold_exchange:
  fixes s :: "'a Communicator_scheme"
  assumes "comm_ok s" "\<And>s' :: 'a Communicator_scheme. resolve n addr (sensor_port1 s) s' = (Return (a, host), s')"
    and "om_find host (sensors s) = Some info" "comm_max_answer_time s \<le> t 0 - last_threshold_question info"
    and "hostToString n a = Inr host" "toString n a = Inr key" "split_ok n" "\<And>msg b. msg \<noteq> [] \<Longrightarrow> 0 < sendto n msg b"
    and "0 < k" "k < 100" "incrementPort n src = Inr b" "CHR 0x00 \<in> set behind" "17 \<le> length behind_answer"
  shows "\<exists>s1 node' s2 info' question reply.
    comm_set_threshold n t addr (f32_of_int (int k)) s = (Return (), s1) \<and>
    sent (client s1) = sent (client s) @ [(question, a)] \<and>
    set_threshold_receive_round n behind behind_answer (Received question src) node = (Return None, node') \<and>
    replies (server1 node') = replies (server1 node) @ [(reply, b)] \<and>
    node_threshold node' = f32_of_int (int k) \<and>
    receiver_step n a reply s1 = (Return False, s2) \<and>
    om_find host (sensors s2) = Some info' \<and> threshold info' = f32_of_int (int k) \<and> \<not> flag info'"
proof -
  define q where "q = ''set_threshold '' @ to_string_f32 (f32_of_int (int k))"
  define reply where "reply = take 17 (''threshold: '' @ show_int (int k) @ CHR 0x00 # behind_answer)"
  let ?s = "s\<lparr>logs := logs s @ [''Sent message set_threshold to: '' @ host],
    client := client_asked q a key Callback_set_threshold (client s)\<rparr>"
  have ok: "ordered (sensors s)" "ordered (callbackMap (client s))" using assms(1) by (simp_all add: comm_ok_def)
  have "comm_set_threshold n t addr (f32_of_int (int k)) s = set_last_threshold_question (\<lambda>i. t (i + 1)) host ?s"
    unfolding q_def
    using assms(2-4,6,10) in_scale [of k] assms(8) [of _ a, THEN less_imp_le] by (intro comm_set_threshold_sent) auto
  then obtain s1 info1 where s1: "comm_set_threshold n t addr (f32_of_int (int k)) s = (Return (), s1)"
      "client s1 = client ?s" "om_find host (sensors s1) = Some info1" "ordered (sensors s1)"
    using set_last_threshold_question_found [of host ?s info "\<lambda>i. t (i + 1)"] assms(3) ok by auto
  obtain d where d: "take 17 q = ''set_threshold '' @ d" "length d = 3" "CHR 0x00 \<notin> set d" "stoi d = Inr (int k)"
    using threshold_question [of k] assms(10) by (auto simp: q_def)
  obtain node' where node': "set_threshold_receive_round n behind behind_answer (Received q src) node = (Return None, node')"
      "node_threshold node' = f32_of_int (int k)" "replies (server1 node') = replies (server1 node) @ [(reply, b)]"
    using set_threshold_round_accepts [OF d, where behind = behind and n = n and addr = src and b = b
          and behind_answer = behind_answer and s = node] assms(8-13) by (auto simp: reply_def)
  obtain v rest where v: "split_blank reply = ''threshold:'' # v # rest" "stof v = Inr (f32_of_int (int k))"
    using split_threshold_answer [OF assms(10) reply_def] by blast
  let ?s1 = "s1\<lparr>client := (client s1)\<lparr>callbackMap := om_erase key (callbackMap (client s1))\<rparr>\<rparr>"
  have "om_find key (callbackMap (client s1)) = Some (Some Callback_set_threshold)"
    using s1(2) client_asked_pending [OF ok(2)] by simp
  moreover have "take 512 reply = reply" "reply \<noteq> []" by (simp_all add: reply_def)
  ultimately have "receiver_step n a reply s1 = andthen (set_threshold_received n a reply) (\<lambda>_. ret False) ?s1"
    using assms(6) receiver_step_pending [of n a key s1 Callback_set_threshold reply] by simp
  moreover have "\<exists>s2. set_threshold_received n a reply ?s1 = (Return (), s2) \<and>
      om_find host (sensors s2) = Some (info1\<lparr>threshold := f32_of_int (int k), flag := False\<rparr>)"
    using set_threshold_answer [OF assms(7,5) _ v, of ?s1 info1] s1(3) by (simp add: omap_simps)
  ultimately show ?thesis
    using s1(1,2) node' by (force simp: andthen_def client_asked_def)
qed

theorem threshold_exchange_witness:
  "\<exists>s1 node' s2 info' question reply.
    comm_set_threshold example_env (\<lambda>_. 100) ''::1'' (f32_of_int (int 40)) example_comm = (Return (), s1) \<and>
    set_threshold_receive_round example_env [CHR 0x00] (replicate 17 (CHR ''x'')) (Received question (loopback6 7501))
      (new_SensorNode (replicate 60 0) (loopback6 0)) = (Return None, node') \<and>
    receiver_step example_env (loopback6 7000) reply s1 = (Return False, s2) \<and>
    om_find ''::1'' (sensors s2) = Some info' \<and> threshold info' = f32_of_int (int 40)"
  using threshold_exchange [where s = example_comm and n = example_env and addr = "''::1''" and a = "loopback6 7000" and
      host = "''::1''" and info = new_SensorInfo and t = "\<lambda>_. 100" and
      key = "''::1 :'' @ show_nat (unat (7000 :: 16 word))" and k = 40 and src = "loopback6 7501" and b = "loopback6 7502" and
      behind = "[CHR 0x00]" and behind_answer = "replicate 17 (CHR ''x'')" and
      node = "new_SensorNode (replicate 60 0) (loopback6 0)"]
  by (force simp: om_find_def new_SensorInfo_def)

text \<open>
  C7: Asking for the values end to end: the question of the station is answered by the sensor
  with its reading and its typical value, and the station then holds exactly these two.
\<close>

theorem values_exchange:
  fixes s :: "'a Communicator_scheme"
  assumes "comm_ok s" "\<And>s' :: 'a Communicator_scheme. resolve n addr (sensor_port2 s) s' = (Return (a, host), s')"
    and "om_find host (sensors s) = Some info" "comm_max_answer_time s \<le> t 0 - last_value_question info"
    and "hostToString n a = Inr host" "toString n a = Inr key" "split_ok n"
    and "\<And>msg b. msg \<noteq> [] \<Longrightarrow> 0 < sendto n msg b"
    and "node_current_value node = f32_of_int (int c)" "node_typical node = f32_of_int (int v)" "c < 100" "v < 100"
    and "incrementPort n src = Inr b"
  shows "\<exists>s1 node' s2 info' question reply.
    ask_for_values n t addr s = (Return (), s1) \<and> sent (client s1) = sent (client s) @ [(question, a)] \<and>
    answer_values_round n (Received question src) node = (Return None, node') \<and>
    replies (server2 node') = replies (server2 node) @ [(reply, b)] \<and>
    receiver_step n a reply s1 = (Return False, s2) \<and> om_find host (sensors s2) = Some info' \<and>
    current_value info' = f32_of_int (int c) \<and> typical_value info' = f32_of_int (int v) \<and> \<not> flag info'"
proof -
  define q where "q = ''get_value''"
  define reply where "reply = values_text (f32_of_int (int c)) (f32_of_int (int v))"
  let ?s = "s\<lparr>logs := logs s @ [''Sent message get_value to: '' @ host],
    client := client_asked q a key Callback_get_value (client s)\<rparr>"
  have ok: "ordered (callbackMap (client s))" using assms(1) by (simp add: comm_ok_def)
  have "ask_for_values n t addr s = set_last_value_question (\<lambda>i. t (i + 1)) host ?s"
    unfolding q_def using assms(2-4,6) assms(8) [of _ a, THEN less_imp_le] by (intro ask_for_values_sent) auto
  then obtain s1 info1 where s1: "ask_for_values n t addr s = (Return (), s1)"
      "client s1 = client ?s" "om_find host (sensors s1) = Some info1"
    using set_last_value_question_found [of host ?s info "\<lambda>i. t (i + 1)"] assms(3) by auto
  have "reply \<noteq> []" by (simp add: reply_def values_text_def)
  then obtain node' where node': "answer_values_round n (Received q src) node = (Return None, node')"
      "replies (server2 node') = replies (server2 node) @ [(reply, b)]"
    using answer_values_round_replies [of q n src b reply node] assms(8-10,13) by (auto simp: reply_def q_def)
  have short: "length reply \<le> 512"
    using short_number [of c] short_number [of v] assms(11,12)
    by (simp add: reply_def values_text_def to_string_int)
  have words: "split_blank reply = [''current_value:'', to_string_f32 (f32_of_int (int c)), ''typical_value:'',
      to_string_f32 (f32_of_int (int v))]"
    using assms(11,12) by (simp add: reply_def split_values)
  let ?s1 = "s1\<lparr>client := (client s1)\<lparr>callbackMap := om_erase key (callbackMap (client s1))\<rparr>\<rparr>"
  have "om_find key (callbackMap (client s1)) = Some (Some Callback_get_value)"
    using s1(2) client_asked_pending [OF ok] by simp
  then have "receiver_step n a reply s1 = andthen (get_value_received n a reply) (\<lambda>_. ret False) ?s1"
    using assms(6) receiver_step_pending [of n a key s1 Callback_get_value reply] short \<open>reply \<noteq> []\<close> by simp
  moreover have "\<exists>s2. get_value_received n a reply ?s1 = (Return (), s2) \<and>
      om_find host (sensors s2) = Some (info1\<lparr>current_value := f32_of_int (int c),
        typical_value := f32_of_int (int v), flag := False\<rparr>)"
    using get_value_answer [OF assms(7,5) _ words stof_to_string stof_to_string, of ?s1 info1] s1(3) assms(11,12)
    by (simp add: omap_simps)
  ultimately show ?thesis
    using s1(1,2) node' by (force simp: andthen_def client_asked_def)
qed

theorem values_exchange_witness:
  "\<exists>s1 node' s2 info' question reply.
    ask_for_values example_env (\<lambda>_. 100) ''::1'' example_comm = (Return (), s1) \<and>
    answer_values_round example_env (Received question (loopback6 7501))
      (new_SensorNode (replicate 60 0) (loopback6 0)) = (Return None, node') \<and>
    receiver_step example_env (loopback6 7001) reply s1 = (Return False, s2) \<and>
    om_find ''::1'' (sensors s2) = Some info' \<and> current_value info' = f32_of_int 40"
  using values_exchange [where s = example_comm and n = example_env and addr = "''::1''" and a = "loopback6 7001" and
      host = "''::1''" and info = new_SensorInfo and t = "\<lambda>_. 100" and
      key = "''::1 :'' @ show_nat (unat (7001 :: 16 word))" and c = 40 and v = 0 and src = "loopback6 7501" and
      b = "loopback6 7502" and node = "new_SensorNode (replicate 60 0) (loopback6 0)"]
  by (force simp: om_find_def new_SensorInfo_def)

text \<open>
  C2: An alarm end to end: a sensor whose reading is above its threshold sends one alarm, the
  alarm server of the station stores the reading and the typical value of that sensor and
  clears its buffer, and its reply is taken by the sensor as the confirmation.
\<close>

theorem alarm_exchange:
  assumes "node_threshold node = f32_of_int (int k)" "node_current_value node = f32_of_int (int c)"
    and "node_typical node = f32_of_int (int v)" "k < c" "c < 100" "v < 100"
    and "ordered (callbackMap (alarm_client node))" "toString n server = Inr key"
    and "\<And>msg b. msg \<noteq> [] \<Longrightarrow> 0 < sendto n msg b" "split_ok n" "alarm_buffer s = replicate 512 (CHR 0x00)"
    and "hostToString n src = Inr host" "om_find host (sensors s) = Some info" "incrementPort n src = Inr b"
  shows "\<exists>node' s' info' alarm reply. raise_alarm n server node = (Return (), node') \<and>
    sent (alarm_client node') = sent (alarm_client node) @ [(alarm, server)] \<and>
    alarm_round n (Received alarm src) s = (Return False, s') \<and> alarm_buffer s' = replicate 512 (CHR 0x00) \<and>
    om_find host (sensors s') = Some info' \<and> current_value info' = f32_of_int (int c) \<and>
    typical_value info' = f32_of_int (int v) \<and> \<not> flag info' \<and>
    replies (alarm_server s') = replies (alarm_server s) @ [(reply, b)] \<and>
    fst (handleReceiveAndCheckIfEnd n server reply (alarm_client node')) = Return (Run ())"
proof -
  define alarm where "alarm = alarm_text (f32_of_int (int c)) (f32_of_int (int v))"
  have alarm: "alarm \<noteq> []" "hd alarm \<noteq> CHR 0xFF" by (simp_all add: alarm_def alarm_text_def)
  have "length alarm \<le> 511" "CHR 0x00 \<notin> set alarm"
    using short_number [of c] short_number [of v] assms(5,6) to_string_f32_shape(1)
    by (simp_all add: alarm_def alarm_text_def to_string_int blank_free_number)
  moreover have "split_blank alarm = [''alarm'', ''current_value:'', to_string_f32 (f32_of_int (int c)),
      ''typical_value:'', to_string_f32 (f32_of_int (int v))]"
    using assms(5,6) by (simp add: alarm_def split_alarm)
  ultimately obtain s' where s': "alarm_round n (Received alarm src) s = (Return False, s')"
      "alarm_buffer s' = replicate 512 (CHR 0x00)"
      "om_find host (sensors s') = Some (info\<lparr>current_value := f32_of_int (int c),
        typical_value := f32_of_int (int v), flag := False\<rparr>)"
      "replies (alarm_server s') = replies (alarm_server s) @ [(alarm, b)]"
    using alarm_round_known [OF assms(11,10) _ stof_to_string stof_to_string assms(12-14), of alarm c v]
      assms(5,6) assms(9) [OF alarm(1), of b] alarm by auto
  have "f32_less (f32_of_int (int k)) (f32_of_int (int c))" using assms(4,5) by (simp add: f32_less_nat)
  moreover have "0 \<le> sendto n alarm server" using assms(9) [OF alarm(1), of server] by simp
  ultimately have sent: "raise_alarm n server node = (Return (), node\<lparr>prints := prints node @ [''value too large - sending alarm''],
      alarm_client := client_asked alarm server key () (alarm_client node)\<rparr>)"
    using assms(1-3,8)
    by (simp add: raise_alarm_def andthen_def try_catch_def on_alarm_client_def sendAndSaveCallback_sent flip: alarm_def)
  have "om_find key (callbackMap (client_asked alarm server key () (alarm_client node))) = Some (Some ())"
    using client_asked_pending [OF assms(7), of key alarm server key "()"] by simp
  then have "fst (handleReceiveAndCheckIfEnd n server alarm (client_asked alarm server key () (alarm_client node))) =
      Return (Run ())"
    using assms(8) by (simp add: handleReceiveAndCheckIfEnd_def andthen_def Let_def)
  with sent s' show ?thesis by (force simp: client_asked_def)
qed

theorem alarm_exchange_witness:
  "\<exists>node' s' info' alarm reply.
    raise_alarm example_central_env (loopback6 7500) ((new_SensorNode (replicate 60 0) (loopback6 0))
      \<lparr>node_threshold := f32_of_int (int 30)\<rparr>) = (Return (), node') \<and>
    alarm_round example_central_env (Received alarm (loopback6 6000)) example_central = (Return False, s') \<and>
    om_find ''::1'' (sensors s') = Some info' \<and> current_value info' = f32_of_int (int 40) \<and>
    replies (alarm_server s') = replies (alarm_server example_central) @ [(reply, loopback6 6001)]"
  using alarm_exchange [where n = example_central_env and s = example_central and k = 30 and c = 40 and v = 0 and
      node = "(new_SensorNode (replicate 60 0) (loopback6 0))\<lparr>node_threshold := f32_of_int (int 30)\<rparr>" and
      server = "loopback6 7500" and key = "''::1 :'' @ show_nat (unat (7500 :: 16 word))" and src = "loopback6 6000" and
      host = "''::1''" and info = new_SensorInfo and b = "loopback6 6001"]
  by (fastforce simp: om_find_def new_SensorNode_def new_UDPClient_def split_ok_def is_split_split_blank)

text \<open>
  The command \<open>exit\<close> of the config program ends the station: the executor returns,
  two messages are sent to the local ports of the alarm server and the polling thread, and
  each of these threads ends when it receives its message from the port of the client.
\<close>

lemma exit_ends_station:
  fixes s :: "'a Central_scheme"
  assumes "r = \<lparr>open_in = True, open_out = True, read_in = Some (config_written ''exit''), write_out = w\<rparr>"
    and "length buf = BUFSIZ" "alarm_buffer s \<noteq> []" "isLoopback n src client_port"
    and "\<And>s' :: 'a Central_scheme. Address_host n ''localhost'' ''7500'' s' = (Return a1, s')"
    and "\<And>s' :: 'a Central_scheme. Address_host n ''localhost'' ''7503'' s' = (Return a2, s')"
    and "0 \<le> sendto n [CHR 0xFF] a1" "0 \<le> sendto n [CHR 0xFF] a2"
  shows "config_main [prog, ''exit''] = Send ''exit'' \<and>
    (\<exists>s1 s2. executeScripts n Created Created [(t, r)] buf s = (Return True, s1) \<and>
       send_endings n s1 = (Return (), s2) \<and>
       sent (client s2) = sent (client s) @ [([CHR 0xFF], a1), ([CHR 0xFF], a2)] \<and>
       fst (alarm_round n (Received [CHR 0xFF] src) s2) = Return True \<and>
       fst (poll_receive n (Received [CHR 0xFF] src) s2) = Return True)"
proof -
  let ?s1 = "s\<lparr>fifo_in := False, fifo_out := False,
    logs := logs s @ [''Listening for scripts - ON.'', ''Listening scripts OFF.'']\<rparr>"
  let ?s2 = "?s1\<lparr>client := (client s)\<lparr>sent := sent (client s) @ [([CHR 0xFF], a1), ([CHR 0xFF], a2)]\<rparr>\<rparr>"
  have "executeScripts n Created Created [(t, r)] buf s = (Return True, ?s1)"
    by (simp add: executeScripts_def try_catch_def execute_exit [OF assms(1,2)])
  moreover have "send_endings n ?s1 = (Return (), ?s2)"
    using assms(5-8)
    by (simp add: send_endings_def send_server_terminating_msg_def andthen_def on_client_def client_send_def Let_def)
  moreover have "fst (alarm_round n (Received [CHR 0xFF] src) ?s2) = Return True"
    using assms(3,4) by (simp add: alarm_round_True)
  moreover have "fst (poll_receive n (Received [CHR 0xFF] src) ?s2) = Return True"
    using assms(4)
    by (simp add: poll_receive_def poll_receive_byte_def andthen_def on_polling_server_def Let_def)
  ultimately show ?thesis by (force simp: config_main_def)
qed

end
